(* ===== verification/Prelude.thy ===== *)
theory Prelude
  imports Complex_Main "HOL-Library.Word" "HOL-Library.AList" "HOL-Library.List_Lexorder"
    "HOL-Library.Char_ord"
begin

text \<open>
  Shared vocabulary of the development: the machine integers, the association-list model of
  Rust's \<open>HashMap\<close>, the string operations of the Rust standard library that the
  sources call (\<open>split\<close>, \<open>from_str_radix\<close>, \<open>join\<close>, \<open>trim\<close>, \<dots>) and the lemma
  collections the component theories extend.

  A Rust \<open>String\<close> is its sequence of UTF-8 bytes, here a \<open>string\<close> (a list of 8-bit
  characters). A \<open>HashMap\<close> is an association list with distinct keys; the order of the list
  is the (unspecified) iteration order of the map, so a theorem about every list is a theorem
  about every iteration order.
\<close>

named_theorems hmap_simps \<open>lookup laws of the HashMap model\<close>
named_theorems state_defs \<open>definitions unfolded by the component step proofs\<close>

section \<open>Machine integers and time\<close>

type_synonym u8 = "8 word"
type_synonym u16 = "16 word"
type_synonym u32 = "32 word"
type_synonym u64 = "64 word"

text \<open>A \<open>chrono::DateTime\<close> or a \<open>tokio::time::Instant\<close>: nanoseconds since an epoch.\<close>

type_synonym time = int

text \<open>A \<open>std::time::Duration\<close>: nanoseconds, never negative.\<close>

type_synonym duration = nat

definition secs :: "nat \<Rightarrow> duration" where
  "secs n = n * 1000000000"

definition millis :: "nat \<Rightarrow> duration" where
  "millis n = n * 1000000"

text \<open>\<open>Instant::duration_since\<close> saturates at zero.\<close>

definition duration_since :: "time \<Rightarrow> time \<Rightarrow> duration" where
  "duration_since now earlier = nat (now - earlier)"

text \<open>The result of \<open>Ord::cmp\<close>.\<close>

datatype ordering = Less | Equal | Greater

definition cmp_of :: "'a::linorder \<Rightarrow> 'a \<Rightarrow> ordering" where
  "cmp_of a b = (if a < b then Less else if a = b then Equal else Greater)"

fun ordering_reverse :: "ordering \<Rightarrow> ordering" where
  "ordering_reverse Less = Greater"
| "ordering_reverse Equal = Equal"
| "ordering_reverse Greater = Less"

lemma cmp_of_simps [simp]:
  "cmp_of a b = Less \<longleftrightarrow> a < b"
  "cmp_of a b = Equal \<longleftrightarrow> a = b"
  "cmp_of a b = Greater \<longleftrightarrow> b < a"
  by (auto simp: cmp_of_def)

lemma cmp_of_reverse: "ordering_reverse (cmp_of a b) = cmp_of b a"
  by (auto simp: cmp_of_def)

section \<open>HashMap\<close>

type_synonym ('k, 'v) hmap = "('k \<times> 'v) list"

abbreviation hm_get :: "('k, 'v) hmap \<Rightarrow> 'k \<Rightarrow> 'v option" where
  "hm_get \<equiv> map_of"

abbreviation hm_insert :: "'k \<Rightarrow> 'v \<Rightarrow> ('k, 'v) hmap \<Rightarrow> ('k, 'v) hmap" where
  "hm_insert \<equiv> AList.update"

abbreviation hm_remove :: "'k \<Rightarrow> ('k, 'v) hmap \<Rightarrow> ('k, 'v) hmap" where
  "hm_remove \<equiv> AList.delete"

abbreviation hm_keys :: "('k, 'v) hmap \<Rightarrow> 'k list" where
  "hm_keys m \<equiv> map fst m"

abbreviation hm_values :: "('k, 'v) hmap \<Rightarrow> 'v list" where
  "hm_values m \<equiv> map snd m"

definition hm_contains_key :: "('k, 'v) hmap \<Rightarrow> 'k \<Rightarrow> bool" where
  "hm_contains_key m k \<longleftrightarrow> map_of m k \<noteq> None"

definition hm_ok :: "('k, 'v) hmap \<Rightarrow> bool" where
  "hm_ok m \<longleftrightarrow> distinct (map fst m)"

lemma hm_get_insert [hmap_simps]: "hm_get (hm_insert k v m) = (hm_get m)(k \<mapsto> v)"
  by (simp add: update_conv')

lemma hm_get_remove [hmap_simps]: "hm_get (hm_remove k m) = (hm_get m)(k := None)"
  by (simp add: delete_conv')

lemma hm_contains_key_iff [hmap_simps]: "hm_contains_key m k \<longleftrightarrow> k \<in> set (hm_keys m)"
  by (force simp: hm_contains_key_def map_of_eq_None_iff)

lemma hm_ok_Nil [simp]: "hm_ok []"
  by (simp add: hm_ok_def)

lemma hm_ok_insert [simp]: "hm_ok m \<Longrightarrow> hm_ok (hm_insert k v m)"
  by (simp add: hm_ok_def distinct_update)

lemma hm_ok_remove [simp]: "hm_ok m \<Longrightarrow> hm_ok (hm_remove k m)"
  by (simp add: hm_ok_def distinct_delete)

lemma hm_keys_insert: "set (hm_keys (hm_insert k v m)) = insert k (set (hm_keys m))"
  by (induction m) auto

lemma hm_keys_remove: "set (hm_keys (hm_remove k m)) = set (hm_keys m) - {k}"
  by (induction m) auto

lemma hm_keys_dom: "set (hm_keys m) = dom (hm_get m)"
  by (simp add: dom_map_of_conv_image_fst)

lemma hm_insert_new: "k \<notin> set (hm_keys m) \<Longrightarrow> hm_insert k v m = m @ [(k, v)]"
  by (induction m) auto

lemma hm_length_insert:
  "length (hm_insert k v m) = (if k \<in> set (hm_keys m) then length m else Suc (length m))"
  by (induction m) auto

lemma set_hm_insert_subset: "set (hm_insert k v m) \<subseteq> insert (k, v) (set m)"
  by (induction m) auto

lemma hm_get_fold_insert:
  "hm_get (fold (\<lambda>x. hm_insert (f x) (g x)) xs m) = hm_get m ++ map_of (rev (map (\<lambda>x. (f x, g x)) xs))"
  by (induction xs arbitrary: m) (auto simp: update_conv' map_add_def split: option.splits)

lemma hm_ok_fold_insert: "hm_ok m \<Longrightarrow> hm_ok (fold (\<lambda>x. hm_insert (f x) (g x)) xs m)"
  by (induction xs arbitrary: m) auto

lemma hm_ok_filter: "hm_ok m \<Longrightarrow> hm_ok (filter P m)"
  by (induction m) (auto simp: hm_ok_def)

lemma hm_get_filter_key:
  "hm_get (filter (\<lambda>(k, v). P k) m) k = (if P k then hm_get m k else None)"
  by (induction m) auto

lemma hm_get_filter_value:
  assumes "hm_ok m"
  shows "hm_get (filter (\<lambda>(k, v). P v) m) k =
    (case hm_get m k of None \<Rightarrow> None | Some v \<Rightarrow> if P v then Some v else None)"
  using assms
proof (induction m)
  case Nil
  then show ?case by simp
next
  case (Cons p m)
  obtain k' v' where p: "p = (k', v')" by (cases p)
  with Cons.prems have "hm_ok m" and "hm_get m k' = None"
    by (auto simp: hm_ok_def map_of_eq_None_iff)
  with Cons.IH p show ?case by auto
qed

text \<open>
  The map interface the components rely on, and its provider, the association lists above.
\<close>

locale hash_map =
  fixes get :: "'m \<Rightarrow> 'k \<Rightarrow> 'v option"
    and insert :: "'k \<Rightarrow> 'v \<Rightarrow> 'm \<Rightarrow> 'm"
    and remove :: "'k \<Rightarrow> 'm \<Rightarrow> 'm"
    and invar :: "'m \<Rightarrow> bool"
  assumes get_insert: "get (insert k v m) = (get m)(k \<mapsto> v)"
    and get_remove: "get (remove k m) = (get m)(k := None)"
    and invar_insert: "invar m \<Longrightarrow> invar (insert k v m)"
    and invar_remove: "invar m \<Longrightarrow> invar (remove k m)"
begin

lemma get_insert_same: "get (insert k v m) k = Some v"
  by (simp add: get_insert)

lemma get_insert_other: "k' \<noteq> k \<Longrightarrow> get (insert k v m) k' = get m k'"
  by (simp add: get_insert)

lemma insert_twice: "get (insert k v (insert k w m)) = get (insert k v m)"
  by (simp add: get_insert)

lemma insert_commute:
  "k \<noteq> k' \<Longrightarrow> get (insert k v (insert k' v' m)) = get (insert k' v' (insert k v m))"
  by (simp add: get_insert fun_upd_twist)

lemma remove_insert: "get (remove k (insert k v m)) = get (remove k m)"
  by (simp add: get_insert get_remove)

end

interpretation hm: hash_map hm_get hm_insert hm_remove hm_ok
  by unfold_locales (simp_all add: hmap_simps)

section \<open>Vectors: the first element with a property\<close>

text \<open>\<open>iter_mut().find(p)\<close> followed by an update of the element found.\<close>

fun update_first :: "('a \<Rightarrow> bool) \<Rightarrow> ('a \<Rightarrow> 'a) \<Rightarrow> 'a list \<Rightarrow> 'a list" where
  "update_first P f [] = []"
| "update_first P f (x # xs) = (if P x then f x # xs else x # update_first P f xs)"

text \<open>\<open>iter().position(p)\<close> followed by \<open>Vec::remove\<close> of the index found.\<close>

fun remove_first :: "('a \<Rightarrow> bool) \<Rightarrow> 'a list \<Rightarrow> 'a list" where
  "remove_first P [] = []"
| "remove_first P (x # xs) = (if P x then xs else x # remove_first P xs)"

lemma map_update_first: "(\<And>x. g (f x) = g x) \<Longrightarrow> map g (update_first P f xs) = map g xs"
  by (induction xs) auto

lemma set_remove_first_subset: "set (remove_first P xs) \<subseteq> set xs"
  by (induction xs) auto

lemma distinct_remove_first: "distinct (map g xs) \<Longrightarrow> distinct (map g (remove_first P xs))"
  by (induction xs) (auto dest!: subsetD [OF set_remove_first_subset])

lemma set_remove_first_key:
  "distinct (map g xs) \<Longrightarrow> set (remove_first (\<lambda>x. g x = k) xs) = {x \<in> set xs. g x \<noteq> k}"
  by (induction xs) (auto simp: image_iff)

lemma set_update_first_key:
  "distinct (map g xs) \<Longrightarrow> (\<And>x. g (f x) = g x) \<Longrightarrow>
   set (update_first (\<lambda>x. g x = k) f xs) = {x \<in> set xs. g x \<noteq> k} \<union> f ` {x \<in> set xs. g x = k}"
  by (induction xs) (auto simp: image_iff)

lemma find_key_iff:
  "distinct (map g xs) \<Longrightarrow> List.find (\<lambda>x. g x = k) xs = Some x \<longleftrightarrow> x \<in> set xs \<and> g x = k"
  by (induction xs) (auto simp: image_iff)

lemma find_None_iff_key: "List.find (\<lambda>x. g x = k) xs = None \<longleftrightarrow> k \<notin> g ` set xs"
  by (auto simp: find_None_iff)

lemma first_snoc:
  assumes "\<not> list_ex P xs"
  shows "List.find P (xs @ [x]) = (if P x then Some x else None)"
    and "update_first P f (xs @ [x]) = xs @ [if P x then f x else x]"
    and "remove_first P (xs @ [x]) = (if P x then xs else xs @ [x])"
  using assms by (induction xs) auto

lemma append_eq_shorter:
  assumes "a @ b = p @ t" and "length p < length a"
  obtains u where "a = p @ u" and "u \<noteq> []" and "t = u @ b"
  using assms by (auto simp: append_eq_append_conv2)

lemma append_eq_longer:
  assumes "a @ b = p @ t" and "length a \<le> length p"
  obtains q where "p = a @ q" and "b = q @ t"
proof -
  have "p = a @ drop (length a) p"
    using assms by (metis append_eq_append_conv_if append_take_drop_id)
  moreover from this assms have "b = drop (length a) p @ t"
    by (metis append.assoc same_append_eq)
  ultimately show ?thesis using that by blast
qed

section \<open>Strings\<close>

text \<open>\<open>str::split(c)\<close>: always at least one part; the separator is dropped.\<close>

fun split_on :: "char \<Rightarrow> string \<Rightarrow> string list" where
  "split_on c [] = [[]]"
| "split_on c (x # xs) =
     (if x = c then [] # split_on c xs
      else (case split_on c xs of [] \<Rightarrow> [[x]] | p # ps \<Rightarrow> (x # p) # ps))"

lemma split_on_not_Nil [simp]: "split_on c s \<noteq> []"
  by (cases s) (auto split: list.splits)

lemma split_on_none: "c \<notin> set s \<Longrightarrow> split_on c s = [s]"
  by (induction s) auto

lemma split_on_append: "c \<notin> set a \<Longrightarrow> split_on c (a @ c # b) = a # split_on c b"
  by (induction a) auto

lemma split_on_no_sep: "p \<in> set (split_on c s) \<Longrightarrow> c \<notin> set p"
proof (induction s arbitrary: p)
  case Nil
  then show ?case by simp
next
  case (Cons x s)
  then show ?case
    by (cases "split_on c s") (auto split: if_splits)
qed

text \<open>\<open>[T]::join(sep)\<close> on strings.\<close>

fun join_with :: "string \<Rightarrow> string list \<Rightarrow> string" where
  "join_with sep [] = []"
| "join_with sep [p] = p"
| "join_with sep (p # q # ps) = p @ sep @ join_with sep (q # ps)"

lemma join_split: "join_with [c] (split_on c s) = s"
proof (induction s)
  case Nil
  then show ?case by simp
next
  case (Cons x s)
  then show ?case
    by (cases "split_on c s"; cases "tl (split_on c s)") auto
qed

text \<open>\<open>str::split_once(c)\<close>.\<close>

fun split_once :: "char \<Rightarrow> string \<Rightarrow> (string \<times> string) option" where
  "split_once c [] = None"
| "split_once c (x # xs) =
     (if x = c then Some ([], xs)
      else map_option (\<lambda>(a, b). (x # a, b)) (split_once c xs))"

lemma split_once_Some: "split_once c s = Some (a, b) \<Longrightarrow> s = a @ c # b \<and> c \<notin> set a"
  by (induction s arbitrary: a) (auto split: if_splits)

lemma split_once_append: "c \<notin> set a \<Longrightarrow> split_once c (a @ c # b) = Some (a, b)"
  by (induction a) auto

lemma split_once_None: "split_once c s = None \<longleftrightarrow> c \<notin> set s"
  by (induction s) (auto split: if_splits)

text \<open>\<open>str::contains(pattern)\<close>.\<close>

fun str_prefix :: "string \<Rightarrow> string \<Rightarrow> bool" where
  "str_prefix [] s = True"
| "str_prefix (p # ps) [] = False"
| "str_prefix (p # ps) (x # xs) = (p = x \<and> str_prefix ps xs)"

fun str_contains :: "string \<Rightarrow> string \<Rightarrow> bool" where
  "str_contains [] pat = str_prefix pat []"
| "str_contains (x # xs) pat = (str_prefix pat (x # xs) \<or> str_contains xs pat)"

lemma str_prefix_iff: "str_prefix p s \<longleftrightarrow> (\<exists>t. s = p @ t)"
  by (induction p s rule: str_prefix.induct) auto

lemma str_contains_iff: "str_contains s p \<longleftrightarrow> (\<exists>a b. s = a @ p @ b)"
proof (induction s)
  case Nil
  then show ?case by (simp add: str_prefix_iff)
next
  case (Cons x xs)
  have "(\<exists>a b. x # xs = a @ p @ b) \<longleftrightarrow> (\<exists>b. x # xs = p @ b) \<or> (\<exists>a b. xs = a @ p @ b)"
    by (metis append_Cons append_Nil neq_Nil_conv list.inject)
  then show ?case using Cons by (simp add: str_prefix_iff)
qed

text \<open>\<open>u64::from_str_radix(s, 16)\<close>: an optional plus sign, at least one digit, and \<open>Err\<close>
  (here \<open>None\<close>) on a foreign character or when the value leaves the 64 bits.\<close>

definition hex_digit :: "char \<Rightarrow> nat option" where
  "hex_digit c =
     (let n = of_char c :: nat in
      if 48 \<le> n \<and> n \<le> 57 then Some (n - 48)
      else if 65 \<le> n \<and> n \<le> 70 then Some (n - 55)
      else if 97 \<le> n \<and> n \<le> 102 then Some (n - 87)
      else None)"

fun radix16_loop :: "nat \<Rightarrow> string \<Rightarrow> nat option" where
  "radix16_loop acc [] = Some acc"
| "radix16_loop acc (c # cs) =
     (case hex_digit c of
        None \<Rightarrow> None
      | Some d \<Rightarrow> if acc * 16 + d < 2 ^ 64 then radix16_loop (acc * 16 + d) cs else None)"

fun from_str_radix16 :: "string \<Rightarrow> nat option" where
  "from_str_radix16 [] = None"
| "from_str_radix16 (c # cs) =
     (if c = CHR ''+'' then (if cs = [] then None else radix16_loop 0 cs)
      else radix16_loop 0 (c # cs))"

lemma hex_digit_bound: "hex_digit c = Some d \<Longrightarrow> d < 16"
  by (auto simp: hex_digit_def Let_def split: if_splits)

lemma radix16_loop_bound: "radix16_loop acc s = Some n \<Longrightarrow> acc < 2 ^ 64 \<Longrightarrow> n < 2 ^ 64"
  by (induction s arbitrary: acc) (auto split: option.splits if_splits)

lemma from_str_radix16_bound: "from_str_radix16 s = Some n \<Longrightarrow> n < 2 ^ 64"
  using radix16_loop_bound [of 0 _ n]
  by (cases s) (auto split: if_splits simp del: radix16_loop.simps)

end
