(* ===== verification/Models.thy ===== *)
theory Models
  imports Prelude
begin

text \<open>
  The data model: errors (\<open>src/error.rs\<close>), JSON values, source positions, events and
  checkpoints (\<open>src/models/\<close>). Record fields carry a short prefix of their struct.
\<close>

section \<open>Errors\<close>

text \<open>The \<open>std::io::ErrorKind\<close> values the sources name.\<close>

datatype io_kind = ConnectionRefused | ConnectionReset | ConnectionAborted | NotConnected
  | BrokenPipe | TimedOut | Interrupted | UnexpectedEof | WouldBlock | OtherKind

datatype error =
    Config string
  | Configuration string
  | Io io_kind string
  | Serialization string
  | Yaml string
  | EnvVar string
  | Validation string
  | Source string
  | Database string
  | Meilisearch string
  | Plugin string
  | ChannelSend
  | ChannelReceive
  | Pipeline string
  | NotFound string
  | Redis string
  | ResourceExhausted string

type_synonym 'a result = "error + 'a"

text \<open>The \<open>Display\<close> texts that \<open>thiserror\<close> derives from the attributes.\<close>

fun error_to_string :: "error \<Rightarrow> string" where
  "error_to_string (Config s) = ''Configuration error: '' @ s"
| "error_to_string (Configuration s) = ''Configuration error: '' @ s"
| "error_to_string (Io k s) = ''IO error: '' @ s"
| "error_to_string (Serialization s) = ''Serialization error: '' @ s"
| "error_to_string (Yaml s) = ''YAML parsing error: '' @ s"
| "error_to_string (EnvVar s) = ''Environment variable error: '' @ s"
| "error_to_string (Validation s) = ''Validation error: '' @ s"
| "error_to_string (Source s) = ''Source error: '' @ s"
| "error_to_string (Database s) = ''Database error: '' @ s"
| "error_to_string (Meilisearch s) = ''Meilisearch error: '' @ s"
| "error_to_string (Plugin s) = ''Plugin error: '' @ s"
| "error_to_string ChannelSend = ''Channel send error''"
| "error_to_string ChannelReceive = ''Channel receive error''"
| "error_to_string (Pipeline s) = ''Pipeline error: '' @ s"
| "error_to_string (NotFound s) = ''Not found: '' @ s"
| "error_to_string (Redis s) = ''Redis error: '' @ s"
| "error_to_string (ResourceExhausted s) = ''Resource exhausted: '' @ s"

section \<open>JSON values\<close>

text \<open>
  A finite \<open>f64\<close> is a rational number here; \<open>serde_json\<close> numbers are never NaN or infinite.
  A number keeps the variant it was built with: \<open>1\<close> and \<open>1.0\<close> are different values.
  An object is a \<open>BTreeMap\<close>, so its entries are listed in key order.
\<close>

datatype json_number = PosInt u64 | NegInt u64 | Float rat

datatype json =
    Null
  | Bool bool
  | Number json_number
  | String string
  | Array "json list"
  | Object "(string \<times> json) list"

type_synonym fields = "(string, json) hmap"

text \<open>\<open>Value::get\<close> with a string key: \<open>None\<close> on anything but an object.\<close>

fun json_get :: "json \<Rightarrow> string \<Rightarrow> json option" where
  "json_get (Object obj) k = map_of obj k"
| "json_get v k = None"

fun json_as_object :: "json \<Rightarrow> (string \<times> json) list option" where
  "json_as_object (Object obj) = Some obj"
| "json_as_object v = None"

fun json_as_bool :: "json \<Rightarrow> bool option" where
  "json_as_bool (Bool b) = Some b"
| "json_as_bool v = None"

text \<open>Collecting the entries of a \<open>HashMap\<close> into an object sorts them by key.\<close>

definition json_of_fields :: "fields \<Rightarrow> json" where
  "json_of_fields m = Object (sort_key fst m)"

lemma map_of_sort_key: "hm_ok m \<Longrightarrow> map_of (sort_key fst m) = map_of m"
  by (rule map_of_inject_set [THEN iffD2]) (auto simp: hm_ok_def distinct_map
      intro: distinct_insort)

lemma json_get_of_fields: "hm_ok m \<Longrightarrow> json_get (json_of_fields m) k = hm_get m k"
  by (simp add: json_of_fields_def map_of_sort_key)

section \<open>Positions\<close>

datatype position =
    PostgreSQL string
  | MySQL string u64
  | MongoDB string

section \<open>Events\<close>

datatype event_type = EtCreate | EtUpdate | EtDelete | EtTruncate | EtSchema

record cdc_event =
  cdc_event_type :: event_type
  cdc_table :: string
  cdc_schema :: string
  cdc_data :: fields
  cdc_timestamp :: time
  cdc_position :: "position option"

text \<open>\<open>models::stream_event::Event\<close>, the events of the streaming pipeline.\<close>

datatype stream_event =
    EvCdc cdc_event
  | EvFullSync string json
  | EvInsert string json "position option"
  | EvUpdate string json json "position option"
  | EvDelete string json "position option"
  | EvCheckpoint position
  | EvHeartbeat

text \<open>\<open>models::event::Event\<close>, the event of the dead letter queue.\<close>

record event_source =
  es_database :: string
  es_schema :: string
  es_table :: string

record event_data =
  ed_key :: json
  ed_old :: "fields option"
  ed_new :: "fields option"

record event_metadata =
  em_transaction_id :: "string option"
  em_position :: string
  em_custom :: fields

record event =
  ev_id :: string
  ev_event_type :: event_type
  ev_source :: event_source
  ev_data :: event_data
  ev_metadata :: event_metadata
  ev_timestamp :: time

text \<open>\<open>impl From<CdcEvent> for Event\<close>; the fresh UUID is an argument.\<close>

definition cdc_key :: "fields \<Rightarrow> json" where
  "cdc_key data =
     (case hm_get data ''id'' of
        Some v \<Rightarrow> v
      | None \<Rightarrow> (case hm_get data ''_id'' of Some v \<Rightarrow> v | None \<Rightarrow> Null))"

definition event_from_cdc :: "string \<Rightarrow> cdc_event \<Rightarrow> event" where
  "event_from_cdc uuid cdc =
     (let key = cdc_key (cdc_data cdc);
          data = (case cdc_event_type cdc of
                    EtCreate \<Rightarrow> \<lparr>ed_key = key, ed_old = None, ed_new = Some (cdc_data cdc)\<rparr>
                  | EtUpdate \<Rightarrow> \<lparr>ed_key = key, ed_old = None, ed_new = Some (cdc_data cdc)\<rparr>
                  | EtDelete \<Rightarrow> \<lparr>ed_key = key, ed_old = Some (cdc_data cdc), ed_new = None\<rparr>
                  | _ \<Rightarrow> \<lparr>ed_key = key, ed_old = None, ed_new = None\<rparr>)
      in \<lparr>ev_id = uuid,
          ev_event_type = cdc_event_type cdc,
          ev_source = \<lparr>es_database = [], es_schema = cdc_schema cdc, es_table = cdc_table cdc\<rparr>,
          ev_data = data,
          ev_metadata = \<lparr>em_transaction_id = None, em_position = [], em_custom = []\<rparr>,
          ev_timestamp = cdc_timestamp cdc\<rparr>)"

section \<open>Progress and checkpoints\<close>

record progress_stats =
  ps_events_processed :: u64
  ps_events_failed :: u64
  ps_bytes_processed :: u64
  ps_last_event_at :: "time option"

definition progress_stats_new :: progress_stats where
  "progress_stats_new =
     \<lparr>ps_events_processed = 0, ps_events_failed = 0, ps_bytes_processed = 0,
      ps_last_event_at = None\<rparr>"

definition stats_record_event :: "time \<Rightarrow> u64 \<Rightarrow> progress_stats \<Rightarrow> progress_stats" where
  "stats_record_event now bytes s =
     s\<lparr>ps_events_processed := ps_events_processed s + 1,
       ps_bytes_processed := ps_bytes_processed s + bytes,
       ps_last_event_at := Some now\<rparr>"

definition stats_record_failure :: "progress_stats \<Rightarrow> progress_stats" where
  "stats_record_failure s = s\<lparr>ps_events_failed := ps_events_failed s + 1\<rparr>"

record checkpoint =
  ck_id :: string
  ck_task_id :: string
  ck_position :: position
  ck_created_at :: time
  ck_stats :: progress_stats
  ck_metadata :: json

definition checkpoint_new :: "string \<Rightarrow> time \<Rightarrow> string \<Rightarrow> position \<Rightarrow> checkpoint" where
  "checkpoint_new uuid now task_id position =
     \<lparr>ck_id = uuid, ck_task_id = task_id, ck_position = position, ck_created_at = now,
      ck_stats = progress_stats_new, ck_metadata = Null\<rparr>"

end
