(* ===== verification/Lsn.thy ===== *)
theory Lsn
  imports Models
begin

text \<open>
  Ordering of source positions: \<open>compare_lsn\<close> of \<open>src/delivery/deduplication.rs\<close> and
  \<open>Position::is_after\<close> of \<open>src/checkpoint/manager.rs\<close>. The reference is the numeric order of
  the 64-bit log sequence numbers that PostgreSQL prints as two hexadecimal halves.
\<close>

section \<open>The code\<close>

text \<open>\<open>u64::from_str_radix(part, 16).unwrap_or(0)\<close>\<close>

definition radix16_or_zero :: "string \<Rightarrow> nat" where
  "radix16_or_zero s = (case from_str_radix16 s of None \<Rightarrow> 0 | Some n \<Rightarrow> n)"

definition compare_lsn :: "string \<Rightarrow> string \<Rightarrow> ordering" where
  "compare_lsn lsn1 lsn2 =
     (let parts1 = split_on (CHR ''/'') lsn1; parts2 = split_on (CHR ''/'') lsn2
      in if length parts1 = 2 \<and> length parts2 = 2 then
           (let hi1 = radix16_or_zero (parts1 ! 0); lo1 = radix16_or_zero (parts1 ! 1);
                hi2 = radix16_or_zero (parts2 ! 0); lo2 = radix16_or_zero (parts2 ! 1)
            in case cmp_of hi1 hi2 of Equal \<Rightarrow> cmp_of lo1 lo2 | other \<Rightarrow> other)
         else cmp_of lsn1 lsn2)"

fun position_is_after :: "position \<Rightarrow> position \<Rightarrow> bool" where
  "position_is_after (PostgreSQL lsn1) (PostgreSQL lsn2) =
     (let parts1 = split_on (CHR ''/'') lsn1; parts2 = split_on (CHR ''/'') lsn2
      in if length parts1 = 2 \<and> length parts2 = 2 then
           (let hi1 = radix16_or_zero (parts1 ! 0); lo1 = radix16_or_zero (parts1 ! 1);
                hi2 = radix16_or_zero (parts2 ! 0); lo2 = radix16_or_zero (parts2 ! 1)
            in hi1 > hi2 \<or> (hi1 = hi2 \<and> lo1 > lo2))
         else False)"
| "position_is_after (MySQL f1 p1) (MySQL f2 p2) = (f1 > f2 \<or> (f1 = f2 \<and> p1 > p2))"
| "position_is_after _ _ = False"

section \<open>Well-formed log sequence numbers\<close>

definition lsn_well_formed :: "string \<Rightarrow> bool" where
  "lsn_well_formed s \<longleftrightarrow> length (split_on (CHR ''/'') s) = 2"

definition lsn_key :: "string \<Rightarrow> nat \<times> nat" where
  "lsn_key s = (let parts = split_on (CHR ''/'') s
                in (radix16_or_zero (parts ! 0), radix16_or_zero (parts ! 1)))"

text \<open>The lexicographic order of the two halves.\<close>

definition key_less :: "nat \<times> nat \<Rightarrow> nat \<times> nat \<Rightarrow> bool" where
  "key_less a b \<longleftrightarrow> fst a < fst b \<or> (fst a = fst b \<and> snd a < snd b)"

lemma key_less_trans: "key_less a b \<Longrightarrow> key_less b c \<Longrightarrow> key_less a c"
  by (auto simp: key_less_def)

lemma key_less_irrefl [simp]: "\<not> key_less a a"
  by (simp add: key_less_def)

lemma compare_lsn_well_formed:
  assumes "lsn_well_formed a" and "lsn_well_formed b"
  shows "compare_lsn a b =
    (if key_less (lsn_key a) (lsn_key b) then Less
     else if lsn_key a = lsn_key b then Equal else Greater)"
  using assms
  by (auto simp: compare_lsn_def lsn_well_formed_def lsn_key_def key_less_def Let_def cmp_of_def)

lemma is_after_PostgreSQL:
  "position_is_after (PostgreSQL a) (PostgreSQL b) \<longleftrightarrow>
     lsn_well_formed a \<and> lsn_well_formed b \<and> key_less (lsn_key b) (lsn_key a)"
  by (auto simp: lsn_well_formed_def lsn_key_def key_less_def Let_def)

lemmas is_after_cases = is_after_PostgreSQL position_is_after.simps(2-)

section \<open>The printed form of a 64-bit log sequence number\<close>

definition hex_char :: "nat \<Rightarrow> char" where
  "hex_char d = (if d < 10 then char_of (48 + d) else char_of (55 + d))"

fun hex_text :: "nat \<Rightarrow> string" where
  "hex_text n = (if n < 16 then [hex_char n] else hex_text (n div 16) @ [hex_char (n mod 16)])"

declare hex_text.simps [simp del]

text \<open>PostgreSQL's output format of \<open>pg_lsn\<close>: the high and the low 32 bits in hexadecimal.\<close>

definition pg_lsn_out :: "u64 \<Rightarrow> string" where
  "pg_lsn_out w = hex_text (unat w div 2 ^ 32) @ CHR ''/'' # hex_text (unat w mod 2 ^ 32)"

lemma of_char_hex_char:
  "d < 16 \<Longrightarrow> (of_char (hex_char d) :: nat) = (if d < 10 then 48 + d else 55 + d)"
  by (simp add: hex_char_def)

lemma hex_digit_hex_char: "d < 16 \<Longrightarrow> hex_digit (hex_char d) = Some d"
  by (auto simp: hex_digit_def of_char_hex_char Let_def)

lemma hex_char_neq:
  assumes "d < 16" shows "hex_char d \<noteq> CHR ''/''" "hex_char d \<noteq> CHR ''+''"
  using of_char_hex_char [OF assms] by (auto split: if_splits)

lemma hex_text_chars: "set (hex_text n) \<subseteq> hex_char ` {..<16}"
proof (induction n rule: hex_text.induct)
  case (1 n)
  then show ?case
    by (cases "n < 16") (auto simp: hex_text.simps [of n])
qed

lemma hex_text_not_Nil [simp]: "hex_text n \<noteq> []"
  by (simp add: hex_text.simps [of n])

lemma radix16_loop_append:
  "radix16_loop acc (s @ t) =
     (case radix16_loop acc s of None \<Rightarrow> None | Some n \<Rightarrow> radix16_loop n t)"
  by (induction s arbitrary: acc) (auto split: option.splits)

lemma radix16_loop_hex_text: "n < 2 ^ 64 \<Longrightarrow> radix16_loop 0 (hex_text n) = Some n"
proof (induction n rule: hex_text.induct)
  case (1 n)
  show ?case
  proof (cases "n < 16")
    case True
    then show ?thesis by (simp add: hex_text.simps [of n] hex_digit_hex_char)
  next
    case False
    with 1 have "radix16_loop 0 (hex_text (n div 16)) = Some (n div 16)"
      by (simp add: div_le_dividend le_less_trans)
    with False 1(2) show ?thesis
      by (simp add: hex_text.simps [of n] radix16_loop_append hex_digit_hex_char)
  qed
qed

text \<open>Printing and reading a number in hexadecimal is the identity on 64 bits.\<close>

lemma from_str_radix16_hex_text:
  assumes "n < 2 ^ 64"
  shows "from_str_radix16 (hex_text n) = Some n"
proof -
  obtain c cs where s: "hex_text n = c # cs"
    by (cases "hex_text n") auto
  then obtain d where "d < 16" and "c = hex_char d"
    using hex_text_chars [of n] by auto
  then have "c \<noteq> CHR ''+''"
    by (simp add: hex_char_neq)
  then have "from_str_radix16 (hex_text n) = radix16_loop 0 (hex_text n)"
    by (simp add: s del: radix16_loop.simps)
  with radix16_loop_hex_text [OF assms] show ?thesis by simp
qed

lemma hex_text_no_slash: "CHR ''/'' \<notin> set (hex_text n)"
  using hex_text_chars [of n] hex_char_neq(1) by force

lemma split_pg_lsn_out:
  "split_on (CHR ''/'') (pg_lsn_out w) = [hex_text (unat w div 2 ^ 32), hex_text (unat w mod 2 ^ 32)]"
  by (simp add: pg_lsn_out_def split_on_append split_on_none hex_text_no_slash)

lemma pg_lsn_out_well_formed [simp]: "lsn_well_formed (pg_lsn_out w)"
  by (simp add: lsn_well_formed_def split_pg_lsn_out)

lemma lsn_key_pg_lsn_out [simp]: "lsn_key (pg_lsn_out w) = (unat w div 2 ^ 32, unat w mod 2 ^ 32)"
proof -
  have w: "unat w < 2 ^ 64"
    using unsigned_less [of w] by simp
  then have "unat w div 2 ^ 32 < 2 ^ 64" and "unat w mod 2 ^ 32 < 2 ^ 64"
    by (simp_all add: less_mult_imp_div_less le_less_trans [OF mod_less_eq_dividend])
  then show ?thesis
    by (simp add: lsn_key_def split_pg_lsn_out radix16_or_zero_def from_str_radix16_hex_text)
qed

lemma key_less_scaled:
  assumes "r1 < m" and "r2 < m"
  shows "key_less (q1, r1) (q2, r2) \<longleftrightarrow> q1 * m + r1 < q2 * m + (r2 :: nat)"
proof (cases q1 q2 rule: linorder_cases)
  case less
  then have "q1 * m + m \<le> q2 * m"
    using mult_le_mono1 [of "Suc q1" q2 m] by simp
  with less assms show ?thesis by (simp add: key_less_def)
next
  case greater
  then have "q2 * m + m \<le> q1 * m"
    using mult_le_mono1 [of "Suc q2" q1 m] by simp
  with greater assms show ?thesis by (simp add: key_less_def)
qed (simp add: key_less_def)

lemma div_mod_less_iff:
  "key_less (a div 2 ^ 32, a mod 2 ^ 32) (b div 2 ^ 32, b mod 2 ^ 32) \<longleftrightarrow> a < (b :: nat)"
  by (subst key_less_scaled [where m = "2 ^ 32"]) simp_all

lemma div_mod_eq_iff:
  "a div 2 ^ 32 = b div 2 ^ 32 \<and> a mod 2 ^ 32 = b mod 2 ^ 32 \<longleftrightarrow> a = (b :: nat)"
  by (metis div_mult_mod_eq)

text \<open>
  C38. On log sequence numbers as PostgreSQL prints them, \<open>compare_lsn\<close> is the numeric order of
  the 64-bit values, for every pair of values.
\<close>

theorem compare_lsn_is_numeric_order:
  "compare_lsn (pg_lsn_out a) (pg_lsn_out b) = cmp_of a b"
  using div_mod_less_iff [of "unat a" "unat b"] div_mod_eq_iff [of "unat a" "unat b"]
  by (auto simp: compare_lsn_well_formed cmp_of_def word_less_nat_alt word_unat_eq_iff)

text \<open>
  \<open>Position::is_after\<close> is a strict partial order on all positions, malformed ones
  included (no position is after itself, and the relation is transitive), and on
  positions as PostgreSQL prints them it holds exactly when the first is numerically greater.
\<close>

theorem is_after_strict_order:
  "\<not> position_is_after p p \<and>
   (position_is_after p q \<and> position_is_after q r \<longrightarrow> position_is_after p r) \<and>
   position_is_after (PostgreSQL (pg_lsn_out a)) (PostgreSQL (pg_lsn_out b)) = (b < a)"
proof (intro conjI impI)
  show "\<not> position_is_after p p"
    by (cases p) (simp_all add: is_after_cases del: position_is_after.simps(1))
  show "position_is_after p r" if "position_is_after p q \<and> position_is_after q r"
    using that
    by (cases p; cases q; cases r)
      (auto simp: is_after_cases dest: key_less_trans simp del: position_is_after.simps(1))
  show "position_is_after (PostgreSQL (pg_lsn_out a)) (PostgreSQL (pg_lsn_out b)) = (b < a)"
    using div_mod_less_iff [of "unat b" "unat a"]
    by (simp add: is_after_PostgreSQL word_less_nat_alt del: position_is_after.simps)
qed

theorem is_after_strict_order_witness:
  "position_is_after (PostgreSQL ''1/0'') (PostgreSQL ''0/9'')"
proof -
  have 1: "position_is_after (PostgreSQL ''1/0'') (PostgreSQL ''0/10'')"
    and 2: "position_is_after (PostgreSQL ''0/10'') (PostgreSQL ''0/9'')"
    by (simp_all add: radix16_or_zero_def hex_digit_def)
  show ?thesis
    using is_after_strict_order [of "PostgreSQL ''1/0''" "PostgreSQL ''0/10''" "PostgreSQL ''0/9''" 0 0]
      1 2 by blast
qed

end
