(* ===== verification/Storage.thy ===== *)
theory Storage
  imports Models
begin

text \<open>
  The checkpoint storage trait of \<open>src/checkpoint/storage.rs\<close>. A \<open>dyn CheckpointStorage\<close>
  is a record of operations over a state \<open>'s\<close>; the locale \<open>checkpoint_store\<close> states what
  its clients (the transactional checkpoint, the checkpoint manager) rely on, and the
  in-memory storage of the sources provides it.
\<close>

section \<open>The trait and its contract\<close>

record 's storage_ops =
  st_save :: "'s \<Rightarrow> checkpoint \<Rightarrow> unit result \<times> 's"
  st_load :: "'s \<Rightarrow> string \<Rightarrow> checkpoint option result \<times> 's"
  st_delete :: "'s \<Rightarrow> string \<Rightarrow> unit result \<times> 's"
  st_list :: "'s \<Rightarrow> checkpoint list result \<times> 's"
  st_is_healthy :: "'s \<Rightarrow> bool"

text \<open>
  A storage holds at most one checkpoint per task: the abstraction is a map from task ids.
  An operation that reports an error has not changed it.
\<close>

locale checkpoint_store =
  fixes ops :: "'s storage_ops"
    and sinv :: "'s \<Rightarrow> bool"
    and stored :: "'s \<Rightarrow> string \<Rightarrow> checkpoint option"
  assumes save_ok: "sinv s \<Longrightarrow> st_save ops s c = (Inr u, s') \<Longrightarrow>
      sinv s' \<and> stored s' = (stored s)(ck_task_id c \<mapsto> c)"
    and save_err: "sinv s \<Longrightarrow> st_save ops s c = (Inl e, s') \<Longrightarrow> sinv s' \<and> stored s' = stored s"
    and load_ok: "sinv s \<Longrightarrow> st_load ops s t = (Inr r, s') \<Longrightarrow>
      sinv s' \<and> stored s' = stored s \<and> r = stored s t"
    and load_err: "sinv s \<Longrightarrow> st_load ops s t = (Inl e, s') \<Longrightarrow> sinv s' \<and> stored s' = stored s"
    and delete_ok: "sinv s \<Longrightarrow> st_delete ops s t = (Inr u, s') \<Longrightarrow>
      sinv s' \<and> stored s' = (stored s)(t := None)"
    and delete_err: "sinv s \<Longrightarrow> st_delete ops s t = (Inl e, s') \<Longrightarrow> sinv s' \<and> stored s' = stored s"
    and list_ok: "sinv s \<Longrightarrow> st_list ops s = (Inr cs, s') \<Longrightarrow>
      sinv s' \<and> stored s' = stored s \<and> distinct (map ck_task_id cs) \<and>
      (\<forall>c. c \<in> set cs \<longleftrightarrow> stored s (ck_task_id c) = Some c)"
    and list_err: "sinv s \<Longrightarrow> st_list ops s = (Inl e, s') \<Longrightarrow> sinv s' \<and> stored s' = stored s"
    and stored_key: "sinv s \<Longrightarrow> stored s t = Some c \<Longrightarrow> ck_task_id c = t"
begin

lemma save_inv:
  assumes "sinv s"
  shows "sinv (snd (st_save ops s c))"
proof -
  obtain r s' where "st_save ops s c = (r, s')" by fastforce
  then show ?thesis
    using assms save_ok [OF assms(1), of c _ s'] save_err [OF assms(1), of c _ s']
    by (cases r) auto
qed

lemma load_inv:
  assumes "sinv s"
  shows "sinv (snd (st_load ops s t))"
proof -
  obtain r s' where "st_load ops s t = (r, s')" by fastforce
  then show ?thesis
    using assms load_ok [OF assms(1), of t _ s'] load_err [OF assms(1), of t _ s']
    by (cases r) auto
qed

lemma delete_inv:
  assumes "sinv s"
  shows "sinv (snd (st_delete ops s t))"
proof -
  obtain r s' where "st_delete ops s t = (r, s')" by fastforce
  then show ?thesis
    using assms delete_ok [OF assms(1), of t _ s'] delete_err [OF assms(1), of t _ s']
    by (cases r) auto
qed

lemma save_other:
  assumes "sinv s" and "t \<noteq> ck_task_id c"
  shows "stored (snd (st_save ops s c)) t = stored s t"
proof -
  obtain r s' where "st_save ops s c = (r, s')" by fastforce
  then show ?thesis
    using assms save_ok [OF assms(1), of c _ s'] save_err [OF assms(1), of c _ s']
    by (cases r) auto
qed

lemma delete_other:
  assumes "sinv s" and "t \<noteq> t'"
  shows "stored (snd (st_delete ops s t')) t = stored s t"
proof -
  obtain r s' where "st_delete ops s t' = (r, s')" by fastforce
  then show ?thesis
    using assms delete_ok [OF assms(1), of t' _ s'] delete_err [OF assms(1), of t' _ s']
    by (cases r) auto
qed

lemma save_then_load:
  assumes "sinv s" and "st_save ops s c = (Inr (), s')" and "st_load ops s' (ck_task_id c) = (Inr r, s'')"
  shows "r = Some c"
  using save_ok [OF assms(1,2)] load_ok [OF _ assms(3)] by simp

end

section \<open>In-memory storage\<close>

type_synonym memory_storage = "(string, checkpoint) hmap"

definition memory_save :: "memory_storage \<Rightarrow> checkpoint \<Rightarrow> unit result \<times> memory_storage" where
  "memory_save m c = (Inr (), hm_insert (ck_task_id c) c m)"

definition memory_load :: "memory_storage \<Rightarrow> string \<Rightarrow> checkpoint option result \<times> memory_storage" where
  "memory_load m task_id = (Inr (hm_get m task_id), m)"

definition memory_delete :: "memory_storage \<Rightarrow> string \<Rightarrow> unit result \<times> memory_storage" where
  "memory_delete m task_id = (Inr (), hm_remove task_id m)"

definition memory_list :: "memory_storage \<Rightarrow> checkpoint list result \<times> memory_storage" where
  "memory_list m = (Inr (hm_values m), m)"

definition memory_ops :: "memory_storage storage_ops" where
  "memory_ops = \<lparr>st_save = memory_save, st_load = memory_load, st_delete = memory_delete,
     st_list = memory_list, st_is_healthy = (\<lambda>_. True)\<rparr>"

definition memory_inv :: "memory_storage \<Rightarrow> bool" where
  "memory_inv m \<longleftrightarrow> hm_ok m \<and> (\<forall>(t, c) \<in> set m. ck_task_id c = t)"

lemma memory_ops_simps [simp]:
  "st_save memory_ops = memory_save"
  "st_load memory_ops = memory_load"
  "st_delete memory_ops = memory_delete"
  "st_list memory_ops = memory_list"
  by (simp_all add: memory_ops_def)

lemmas memory_defs = memory_save_def memory_load_def memory_delete_def memory_list_def

lemma memory_inv_insert: "memory_inv m \<Longrightarrow> memory_inv (hm_insert (ck_task_id c) c m)"
  using set_hm_insert_subset [of "ck_task_id c" c m] by (fastforce simp: memory_inv_def)

lemma memory_inv_remove: "memory_inv m \<Longrightarrow> memory_inv (hm_remove t m)"
  by (auto simp: memory_inv_def AList.delete_eq hm_ok_filter)

lemma memory_inv_keys: "memory_inv m \<Longrightarrow> map (ck_task_id \<circ> snd) m = map fst m"
  by (auto simp: memory_inv_def)

lemma memory_inv_value:
  "memory_inv m \<Longrightarrow> c \<in> snd ` set m \<longleftrightarrow> hm_get m (ck_task_id c) = Some c"
  by (force simp: memory_inv_def hm_ok_def map_of_eq_Some_iff)

interpretation memory: checkpoint_store memory_ops memory_inv hm_get
  by unfold_locales
    (auto simp: memory_defs hmap_simps memory_inv_insert memory_inv_remove memory_inv_value
      memory_inv_keys, auto simp: memory_inv_def hm_ok_def map_of_eq_Some_iff)

end
