(* ===== verification/TxnCheckpoint.thy ===== *)
theory TxnCheckpoint
  imports Storage
begin

text \<open>
  Transactional checkpoints, \<open>TransactionalCheckpoint\<close> of \<open>src/delivery/checkpoint.rs\<close>, over
  any checkpoint storage. The clock, the fresh UUID and the text of a timestamp
  (\<open>serde\<close>'s, the parameter \<open>show_time\<close>) are arguments.
\<close>

section \<open>State and operations\<close>

record ckpt_txn =
  ct_transaction_id :: string
  ct_task_id :: string
  ct_position :: position
  ct_prepared :: bool
  ct_committed :: bool
  ct_created_at :: time

record 's txn_ckpt =
  tx_storage :: 's
  tx_transactions :: "ckpt_txn list"

definition txn_not_found :: "string \<Rightarrow> error" where
  "txn_not_found tid = Pipeline (''Transaction '' @ tid @ '' not found'')"

abbreviation txn_is :: "string \<Rightarrow> ckpt_txn \<Rightarrow> bool" where
  "txn_is tid \<equiv> (\<lambda>t. ct_transaction_id t = tid)"

definition txn_begin ::
  "string \<Rightarrow> string \<Rightarrow> position \<Rightarrow> time \<Rightarrow> 's txn_ckpt \<Rightarrow> unit result \<times> 's txn_ckpt" where
  "txn_begin transaction_id task_id position now s =
     (if list_ex (txn_is transaction_id) (tx_transactions s)
      then (Inl (Pipeline (''Transaction '' @ transaction_id @ '' already exists'')), s)
      else (Inr (), s\<lparr>tx_transactions := tx_transactions s @
              [\<lparr>ct_transaction_id = transaction_id, ct_task_id = task_id, ct_position = position,
                ct_prepared = False, ct_committed = False, ct_created_at = now\<rparr>]\<rparr>))"

definition prepared_metadata :: "string \<Rightarrow> json" where
  "prepared_metadata tid =
     Object [(''committed'', Bool False), (''prepared'', Bool True), (''transaction_id'', String tid)]"

definition committed_metadata :: "(time \<Rightarrow> string) \<Rightarrow> string \<Rightarrow> time \<Rightarrow> json" where
  "committed_metadata show_time tid now =
     Object [(''committed'', Bool True), (''committed_at'', String (show_time now)),
             (''prepared'', Bool True), (''transaction_id'', String tid)]"

definition txn_prepare ::
  "'s storage_ops \<Rightarrow> string \<Rightarrow> string \<Rightarrow> time \<Rightarrow> 's txn_ckpt \<Rightarrow> bool result \<times> 's txn_ckpt" where
  "txn_prepare ops transaction_id uuid now s =
     (case List.find (txn_is transaction_id) (tx_transactions s) of
        None \<Rightarrow> (Inl (txn_not_found transaction_id), s)
      | Some txn \<Rightarrow>
          if ct_prepared txn then (Inr True, s)
          else
            (let checkpoint = \<lparr>ck_id = uuid, ck_task_id = ct_task_id txn, ck_position = ct_position txn,
                    ck_created_at = now, ck_stats = progress_stats_new,
                    ck_metadata = prepared_metadata transaction_id\<rparr>
             in case st_save ops (tx_storage s) checkpoint of
                  (Inr _, st) \<Rightarrow>
                    (Inr True, s\<lparr>tx_storage := st,
                       tx_transactions := update_first (txn_is transaction_id)
                         (\<lambda>t. t\<lparr>ct_prepared := True\<rparr>) (tx_transactions s)\<rparr>)
                | (Inl e, st) \<Rightarrow> (Inr False, s\<lparr>tx_storage := st\<rparr>)))"

definition txn_commit ::
  "'s storage_ops \<Rightarrow> (time \<Rightarrow> string) \<Rightarrow> string \<Rightarrow> time \<Rightarrow> 's txn_ckpt \<Rightarrow> unit result \<times> 's txn_ckpt" where
  "txn_commit ops show_time transaction_id now s =
     (case List.find (txn_is transaction_id) (tx_transactions s) of
        None \<Rightarrow> (Inl (txn_not_found transaction_id), s)
      | Some txn \<Rightarrow>
          if \<not> ct_prepared txn
          then (Inl (Pipeline (''Transaction '' @ transaction_id @ '' not prepared'')), s)
          else if ct_committed txn then (Inr (), s)
          else
            (case st_load ops (tx_storage s) (ct_task_id txn) of
               (Inl e, st) \<Rightarrow> (Inl e, s\<lparr>tx_storage := st\<rparr>)
             | (Inr None, st) \<Rightarrow>
                 (Inl (Pipeline (''Checkpoint not found for task '' @ ct_task_id txn)),
                  s\<lparr>tx_storage := st\<rparr>)
             | (Inr (Some checkpoint), st) \<Rightarrow>
                 (case st_save ops st
                    (checkpoint\<lparr>ck_metadata := committed_metadata show_time transaction_id now\<rparr>) of
                    (Inl e, st') \<Rightarrow> (Inl e, s\<lparr>tx_storage := st'\<rparr>)
                  | (Inr _, st') \<Rightarrow>
                      (Inr (), s\<lparr>tx_storage := st',
                         tx_transactions := remove_first (txn_is transaction_id) (tx_transactions s)\<rparr>))))"

text \<open>A failed deletion is logged and ignored by both of the following.\<close>

definition txn_rollback ::
  "'s storage_ops \<Rightarrow> string \<Rightarrow> 's txn_ckpt \<Rightarrow> unit result \<times> 's txn_ckpt" where
  "txn_rollback ops transaction_id s =
     (case List.find (txn_is transaction_id) (tx_transactions s) of
        None \<Rightarrow> (Inl (txn_not_found transaction_id), s)
      | Some txn \<Rightarrow>
          (let st = (if ct_prepared txn \<and> \<not> ct_committed txn
                     then snd (st_delete ops (tx_storage s) (ct_task_id txn)) else tx_storage s)
           in (Inr (), s\<lparr>tx_storage := st,
                 tx_transactions := remove_first (txn_is transaction_id) (tx_transactions s)\<rparr>)))"

fun txn_cleanup_loop :: "'s storage_ops \<Rightarrow> string list \<Rightarrow> 's txn_ckpt \<Rightarrow> 's txn_ckpt" where
  "txn_cleanup_loop ops [] s = s"
| "txn_cleanup_loop ops (txn_id # ids) s =
     (case List.find (txn_is txn_id) (tx_transactions s) of
        None \<Rightarrow> txn_cleanup_loop ops ids s
      | Some txn \<Rightarrow>
          (let st = (if ct_prepared txn \<and> \<not> ct_committed txn
                     then snd (st_delete ops (tx_storage s) (ct_task_id txn)) else tx_storage s)
           in txn_cleanup_loop ops ids
                (s\<lparr>tx_storage := st,
                   tx_transactions := remove_first (txn_is txn_id) (tx_transactions s)\<rparr>)))"

text \<open>
  \<open>chrono::Duration::seconds(timeout_secs as i64)\<close>: the cast reads the word as signed, and
  the constructor panics (here \<open>None\<close>) when the number of milliseconds leaves 64 bits.
\<close>

definition chrono_seconds :: "u64 \<Rightarrow> int option" where
  "chrono_seconds n =
     (let s = sint n in
      if \<bar>s\<bar> \<le> (2 ^ 63 - 1) div 1000 then Some (s * 1000000000) else None)"

definition txn_cleanup_stale ::
  "'s storage_ops \<Rightarrow> u64 \<Rightarrow> time \<Rightarrow> 's txn_ckpt \<Rightarrow> (unit result \<times> 's txn_ckpt) option" where
  "txn_cleanup_stale ops timeout_secs now s =
     (case chrono_seconds timeout_secs of
        None \<Rightarrow> None
      | Some timeout \<Rightarrow>
          (let stale_txns = map ct_transaction_id
                 (filter (\<lambda>t. now - ct_created_at t > timeout) (tx_transactions s))
           in Some (Inr (), txn_cleanup_loop ops stale_txns s)))"

definition txn_latest_committed ::
  "'s storage_ops \<Rightarrow> string \<Rightarrow> 's txn_ckpt \<Rightarrow> checkpoint option result \<times> 's txn_ckpt" where
  "txn_latest_committed ops task_id s =
     (case st_load ops (tx_storage s) task_id of
        (Inl e, st) \<Rightarrow> (Inl e, s\<lparr>tx_storage := st\<rparr>)
      | (Inr None, st) \<Rightarrow> (Inr None, s\<lparr>tx_storage := st\<rparr>)
      | (Inr (Some cp), st) \<Rightarrow>
          (Inr (case Option.bind (json_get (ck_metadata cp) ''committed'') json_as_bool of
                  Some True \<Rightarrow> Some cp | _ \<Rightarrow> None),
           s\<lparr>tx_storage := st\<rparr>))"

section \<open>Visible checkpoints\<close>

text \<open>What \<open>get_latest_committed\<close> shows of a stored checkpoint.\<close>

definition visible :: "checkpoint option \<Rightarrow> checkpoint option" where
  "visible c = (case c of
       None \<Rightarrow> None
     | Some cp \<Rightarrow> (case Option.bind (json_get (ck_metadata cp) ''committed'') json_as_bool of
                     Some True \<Rightarrow> Some cp | _ \<Rightarrow> None))"

lemma visible_simps [simp]:
  "visible None = None"
  "ck_metadata c = prepared_metadata tid \<Longrightarrow> visible (Some c) = None"
  "ck_metadata c = committed_metadata show_time tid now \<Longrightarrow> visible (Some c) = Some c"
  by (simp_all add: visible_def prepared_metadata_def committed_metadata_def)

definition txns_ok :: "ckpt_txn list \<Rightarrow> bool" where
  "txns_ok txns \<longleftrightarrow> distinct (map ct_transaction_id txns) \<and> (\<forall>t \<in> set txns. \<not> ct_committed t)"

lemma txns_ok_find:
  "txns_ok txns \<Longrightarrow> List.find (txn_is tid) txns = Some t \<longleftrightarrow>
     t \<in> set txns \<and> ct_transaction_id t = tid"
  by (simp add: txns_ok_def find_key_iff)

lemma txns_ok_remove: "txns_ok txns \<Longrightarrow> txns_ok (remove_first (txn_is tid) txns)"
  using set_remove_first_subset [of "txn_is tid" txns]
  by (auto simp: txns_ok_def distinct_remove_first)

lemma txns_ok_update:
  "txns_ok txns \<Longrightarrow> txns_ok (update_first (txn_is tid) (\<lambda>t. t\<lparr>ct_prepared := True\<rparr>) txns)"
  by (auto simp: txns_ok_def map_update_first set_update_first_key)

lemma txns_ok_snoc:
  "txns_ok txns \<Longrightarrow> \<not> list_ex (txn_is (ct_transaction_id t)) txns \<Longrightarrow> \<not> ct_committed t \<Longrightarrow>
   txns_ok (txns @ [t])"
  by (auto simp: txns_ok_def list_ex_iff)

section \<open>Runs with one transaction per task\<close>

inductive txn_step :: "'s storage_ops \<Rightarrow> (time \<Rightarrow> string) \<Rightarrow> 's txn_ckpt \<Rightarrow> 's txn_ckpt \<Rightarrow> bool"
  for ops show_time where
  step_begin: "task \<notin> ct_task_id ` set (tx_transactions s) \<Longrightarrow>
     txn_step ops show_time s (snd (txn_begin tid task pos now s))"
| step_prepare: "txn_step ops show_time s (snd (txn_prepare ops tid uuid now s))"
| step_commit: "txn_step ops show_time s (snd (txn_commit ops show_time tid now s))"
| step_rollback: "txn_step ops show_time s (snd (txn_rollback ops tid s))"
| step_cleanup: "txn_cleanup_stale ops timeout_secs now s = Some (r, s') \<Longrightarrow>
     txn_step ops show_time s s'"

inductive txn_reach :: "'s storage_ops \<Rightarrow> (time \<Rightarrow> string) \<Rightarrow> 's \<Rightarrow> 's txn_ckpt \<Rightarrow> bool"
  for ops show_time st0 where
  reach_start: "txn_reach ops show_time st0 \<lparr>tx_storage = st0, tx_transactions = []\<rparr>"
| reach_step: "txn_reach ops show_time st0 s \<Longrightarrow> txn_step ops show_time s s' \<Longrightarrow>
     txn_reach ops show_time st0 s'"

context checkpoint_store
begin

text \<open>Every prepared transaction owns the stored, not yet visible checkpoint of its task.\<close>

definition agree :: "'s txn_ckpt \<Rightarrow> bool" where
  "agree s \<longleftrightarrow> sinv (tx_storage s) \<and> txns_ok (tx_transactions s) \<and>
     inj_on ct_task_id (set (tx_transactions s)) \<and>
     (\<forall>t \<in> set (tx_transactions s). ct_prepared t \<longrightarrow>
        (\<exists>c. stored (tx_storage s) (ct_task_id t) = Some c \<and> ck_position c = ct_position t \<and>
             ck_metadata c = prepared_metadata (ct_transaction_id t)))"

lemma agree_find:
  "agree s \<Longrightarrow> List.find (txn_is tid) (tx_transactions s) = Some t \<longleftrightarrow>
     t \<in> set (tx_transactions s) \<and> ct_transaction_id t = tid"
  by (simp add: agree_def txns_ok_find)

lemma agree_begin:
  assumes "agree s" and "task \<notin> ct_task_id ` set (tx_transactions s)"
  shows "agree (snd (txn_begin tid task pos now s))"
  using assms by (auto simp: txn_begin_def agree_def txns_ok_snoc)

text \<open>A transaction leaves the list, and the storage changed at most at its task.\<close>

lemma agree_drop:
  assumes "agree s" and "t \<in> set (tx_transactions s)" and "sinv st"
    and "\<And>task. task \<noteq> ct_task_id t \<Longrightarrow> stored st task = stored (tx_storage s) task"
  shows "agree (s\<lparr>tx_storage := st,
    tx_transactions := remove_first (txn_is (ct_transaction_id t)) (tx_transactions s)\<rparr>)"
proof -
  have ok: "txns_ok (tx_transactions s)" using assms(1) by (simp add: agree_def)
  then have rem: "set (remove_first (txn_is (ct_transaction_id t)) (tx_transactions s)) =
      {x \<in> set (tx_transactions s). ct_transaction_id x \<noteq> ct_transaction_id t}"
    by (simp add: txns_ok_def set_remove_first_key)
  have "ct_task_id x \<noteq> ct_task_id t"
    if "x \<in> set (tx_transactions s)" and "ct_transaction_id x \<noteq> ct_transaction_id t" for x
    using assms(1,2) that by (auto simp: agree_def dest: inj_onD)
  then show ?thesis
    using assms ok by (auto simp: agree_def rem txns_ok_remove intro: inj_on_subset)
qed

lemma agree_prepare:
  assumes "agree s"
  shows "agree (snd (txn_prepare ops tid uuid now s))"
proof (cases "List.find (txn_is tid) (tx_transactions s)")
  case (Some t)
  with assms have t: "t \<in> set (tx_transactions s)" "ct_transaction_id t = tid"
    by (simp_all add: agree_find)
  let ?c = "\<lparr>ck_id = uuid, ck_task_id = ct_task_id t, ck_position = ct_position t,
    ck_created_at = now, ck_stats = progress_stats_new, ck_metadata = prepared_metadata tid\<rparr>"
  have inv: "sinv (tx_storage s)" and ok: "txns_ok (tx_transactions s)"
    and inj: "inj_on ct_task_id (set (tx_transactions s))"
    using assms by (simp_all add: agree_def)
  obtain r st where save: "st_save ops (tx_storage s) ?c = (r, st)" by fastforce
  show ?thesis
  proof (cases r)
    case (Inl e)
    with save save_err [OF inv, of ?c e st] Some assms show ?thesis
      by (auto simp: txn_prepare_def agree_def)
  next
    case (Inr u)
    with save have st: "sinv st" "stored st = (stored (tx_storage s))(ct_task_id t \<mapsto> ?c)"
      using save_ok [OF inv, of ?c u st] by simp_all
    let ?txns = "update_first (txn_is tid) (\<lambda>t. t\<lparr>ct_prepared := True\<rparr>) (tx_transactions s)"
    have upd: "set ?txns = {x \<in> set (tx_transactions s). ct_transaction_id x \<noteq> tid} \<union>
        {t\<lparr>ct_prepared := True\<rparr>}"
      using ok t by (auto simp: txns_ok_def set_update_first_key distinct_map dest: inj_onD)
    have "ct_task_id x \<noteq> ct_task_id t"
      if "x \<in> set (tx_transactions s)" and "ct_transaction_id x \<noteq> tid" for x
      using inj t that by (auto dest: inj_onD)
    then have "agree \<lparr>tx_storage = st, tx_transactions = ?txns\<rparr>"
      using assms st t by (auto simp: agree_def upd txns_ok_update inj_on_def)
    with save Inr Some assms show ?thesis
      by (cases s) (auto simp: txn_prepare_def)
  qed
qed (use assms in \<open>simp add: txn_prepare_def\<close>)

lemma agree_rollback:
  assumes "agree s"
  shows "agree (snd (txn_rollback ops tid s))"
proof (cases "List.find (txn_is tid) (tx_transactions s)")
  case (Some t)
  with assms have t: "t \<in> set (tx_transactions s)" "ct_transaction_id t = tid"
    by (simp_all add: agree_find)
  have inv: "sinv (tx_storage s)" using assms by (simp add: agree_def)
  show ?thesis
    using agree_drop [OF assms t(1), of "snd (st_delete ops (tx_storage s) (ct_task_id t))"]
      agree_drop [OF assms t(1) inv] t(2) Some inv
    by (simp add: txn_rollback_def Let_def delete_inv delete_other)
qed (use assms in \<open>simp add: txn_rollback_def\<close>)

lemma agree_cleanup_loop: "agree s \<Longrightarrow> agree (txn_cleanup_loop ops ids s)"
proof (induction ids arbitrary: s)
  case (Cons i ids)
  have "txn_cleanup_loop ops (i # ids) s = txn_cleanup_loop ops ids (snd (txn_rollback ops i s))"
    by (simp add: txn_rollback_def Let_def split: option.splits)
  with Cons show ?case by (simp add: agree_rollback del: txn_cleanup_loop.simps)
qed simp

lemma agree_storage:
  "agree s \<Longrightarrow> sinv st \<Longrightarrow> stored st = stored (tx_storage s) \<Longrightarrow> agree (s\<lparr>tx_storage := st\<rparr>)"
  by (simp add: agree_def)

text \<open>Committing publishes the transaction's own position and touches no other task.\<close>

definition published :: "'s txn_ckpt \<Rightarrow> 's txn_ckpt \<Rightarrow> ckpt_txn \<Rightarrow> bool" where
  "published s s' t \<longleftrightarrow>
     (\<exists>c. stored (tx_storage s') (ct_task_id t) = Some c \<and> visible (Some c) = Some c \<and>
          ck_position c = ct_position t) \<and>
     (\<forall>task. task \<noteq> ct_task_id t \<longrightarrow> stored (tx_storage s') task = stored (tx_storage s) task)"

lemma commit_prepared:
  assumes "agree s" and t: "t \<in> set (tx_transactions s)" "ct_transaction_id t = tid" "ct_prepared t"
    and "txn_commit ops show_time tid now s = (r, s')"
  shows "agree s' \<and> (r = Inr () \<longrightarrow> published s s' t)"
proof -
  have inv: "sinv (tx_storage s)" and "\<not> ct_committed t"
    using assms(1) t by (auto simp: agree_def txns_ok_def)
  moreover have find: "List.find (txn_is tid) (tx_transactions s) = Some t"
    using assms(1) t by (simp add: agree_find)
  moreover obtain c where c: "stored (tx_storage s) (ct_task_id t) = Some c"
      "ck_position c = ct_position t"
    using assms(1) t by (auto simp: agree_def)
  then have key: "ck_task_id c = ct_task_id t" using stored_key [OF inv] by simp
  obtain lr st where load: "st_load ops (tx_storage s) (ct_task_id t) = (lr, st)" by fastforce
  let ?c = "c\<lparr>ck_metadata := committed_metadata show_time tid now\<rparr>"
  obtain sr st' where save: "st_save ops st ?c = (sr, st')" by fastforce
  have com: "(r, s') = (case lr of Inl e \<Rightarrow> (Inl e, s\<lparr>tx_storage := st\<rparr>)
     | Inr _ \<Rightarrow> (case sr of Inl e \<Rightarrow> (Inl e, s\<lparr>tx_storage := st'\<rparr>)
                | Inr _ \<Rightarrow> (Inr (), s\<lparr>tx_storage := st',
                    tx_transactions := remove_first (txn_is tid) (tx_transactions s)\<rparr>)))"
    and lr: "sinv st \<and> stored st = stored (tx_storage s)"
    using calculation t(3) load save c load_ok [OF inv, of "ct_task_id t" _ st]
      load_err [OF inv, of "ct_task_id t" _ st] assms(5)
    by (auto simp: txn_commit_def split: sum.splits)
  show ?thesis
  proof (cases "(\<exists>e. lr = Inl e) \<or> (\<exists>e. sr = Inl e)")
    case True
    with com lr save save_err [of st ?c _ st'] assms(1) show ?thesis
      by (auto simp: agree_storage split: sum.splits)
  next
    case False
    then have sr: "sr = Inr ()" and s': "r = Inr ()" "s' = s\<lparr>tx_storage := st',
        tx_transactions := remove_first (txn_is tid) (tx_transactions s)\<rparr>"
      using com by (auto split: sum.splits)
    with lr save have st': "sinv st'" "stored st' = (stored (tx_storage s))(ct_task_id t \<mapsto> ?c)"
      using save_ok [of st ?c _ st'] key by auto
    then have "agree s'"
      using agree_drop [OF assms(1) t(1) st'(1)] t(2) s' by simp
    with st' s' c show ?thesis by (simp add: published_def)
  qed
qed

lemma commit_outcome:
  assumes "agree s" and "txn_commit ops show_time tid now s = (r, s')"
  shows "agree s'" and "r = Inr () \<Longrightarrow>
    \<exists>t \<in> set (tx_transactions s). ct_transaction_id t = tid \<and> ct_prepared t \<and> published s s' t"
proof -
  have "agree s' \<and> (r = Inr () \<longrightarrow>
    (\<exists>t \<in> set (tx_transactions s). ct_transaction_id t = tid \<and> ct_prepared t \<and> published s s' t))"
  proof (cases "\<exists>t \<in> set (tx_transactions s). ct_transaction_id t = tid \<and> ct_prepared t")
    case True
    with commit_prepared [OF assms(1) _ _ _ assms(2)] show ?thesis by blast
  next
    case False
    then have "s' = s \<and> r \<noteq> Inr ()"
      using assms agree_find [OF assms(1), of tid]
      by (fastforce simp: txn_commit_def split: option.splits)
    with assms(1) show ?thesis by simp
  qed
  then show "agree s'" and "r = Inr () \<Longrightarrow>
    \<exists>t \<in> set (tx_transactions s). ct_transaction_id t = tid \<and> ct_prepared t \<and> published s s' t"
    by simp_all
qed

lemma agree_step: "txn_step ops show_time s s' \<Longrightarrow> agree s \<Longrightarrow> agree s'"
proof (induction rule: txn_step.induct)
  case (step_commit s tid now)
  then show ?case by (cases "txn_commit ops show_time tid now s") (auto dest: commit_outcome)
next
  case (step_cleanup timeout now s r s')
  then show ?case
    by (auto simp: txn_cleanup_stale_def agree_cleanup_loop split: option.splits)
qed (simp_all add: agree_begin agree_prepare agree_rollback)

lemma reach_agree: "txn_reach ops show_time st0 s \<Longrightarrow> sinv st0 \<Longrightarrow> agree s"
  by (induction rule: txn_reach.induct) (auto simp: agree_step, simp add: agree_def txns_ok_def)

end

section \<open>Properties\<close>


text \<open>A run on the in-memory storage that commits one transaction.\<close>

definition demo_committed :: "memory_storage txn_ckpt" where
  "demo_committed =
     (let s1 = snd (txn_begin ''t1'' ''orders'' (PostgreSQL ''0/1'') 0
                 \<lparr>tx_storage = [], tx_transactions = []\<rparr>);
          s2 = snd (txn_prepare memory_ops ''t1'' ''u1'' 1 s1)
      in s2)"

lemma demo_committed_eq:
  "demo_committed = \<lparr>tx_storage = [(''orders'', \<lparr>ck_id = ''u1'', ck_task_id = ''orders'',
       ck_position = PostgreSQL ''0/1'', ck_created_at = 1, ck_stats = progress_stats_new,
       ck_metadata = prepared_metadata ''t1''\<rparr>)],
     tx_transactions = [\<lparr>ct_transaction_id = ''t1'', ct_task_id = ''orders'',
       ct_position = PostgreSQL ''0/1'', ct_prepared = True, ct_committed = False,
       ct_created_at = 0\<rparr>]\<rparr>"
  by (simp add: demo_committed_def txn_begin_def txn_prepare_def memory_save_def)


text \<open>
  On the in-memory storage a transaction that is begun under a new id, prepared and
  committed succeeds in each phase whatever other transactions are active, leaves the list
  of active transactions as it was, and \<open>get_latest_committed\<close> then returns its position.
\<close>

theorem txn_protocol_roundtrip:
  assumes "\<not> list_ex (txn_is tid) (tx_transactions s)"
  shows "let (r1, s1) = txn_begin tid task pos t1 s;
             (r2, s2) = txn_prepare memory_ops tid uuid t2 s1;
             (r3, s3) = txn_commit memory_ops show_time tid t3 s2
         in r1 = Inr () \<and> r2 = Inr True \<and> r3 = Inr () \<and> tx_transactions s3 = tx_transactions s \<and>
            map_sum id (map_option ck_position) (fst (txn_latest_committed memory_ops task s3)) =
              Inr (Some pos)"
  using assms
  by (simp add: txn_begin_def txn_prepare_def txn_commit_def txn_latest_committed_def first_snoc
      memory_defs hmap_simps committed_metadata_def)

theorem txn_protocol_roundtrip_witness:
  "let s = \<lparr>tx_storage = [], tx_transactions = []\<rparr>;
       (r1, s1) = txn_begin ''t1'' ''orders'' (PostgreSQL ''0/1'') 0 s;
       (r2, s2) = txn_prepare memory_ops ''t1'' ''u'' 1 s1;
       (r3, s3) = txn_commit memory_ops (\<lambda>_. []) ''t1'' 2 s2
   in r3 = Inr ()"
proof -
  have "\<not> list_ex (txn_is ''t1'') (tx_transactions \<lparr>tx_storage = [], tx_transactions = []\<rparr>)"
    by simp
  from txn_protocol_roundtrip [OF this, of "''orders''" "PostgreSQL ''0/1''" 0 "''u''" 1 "\<lambda>_. []" 2]
  show ?thesis by (simp add: case_prod_beta Let_def)
qed

text \<open>
  C8. A rollback loses the last committed position: preparing overwrites the task's single
  stored checkpoint and rolling back deletes it, so whatever was committed before, nothing
  is left to resume from.
\<close>

theorem txn_rollback_loses_committed:
  assumes "\<not> list_ex (txn_is tid) (tx_transactions s)"
  shows "let s1 = snd (txn_begin tid task pos t1 s);
             s2 = snd (txn_prepare memory_ops tid uuid t2 s1);
             (r3, s3) = txn_rollback memory_ops tid s2
         in r3 = Inr () \<and> fst (txn_latest_committed memory_ops task s2) = Inr None \<and>
            fst (txn_latest_committed memory_ops task s3) = Inr None \<and>
            hm_get (tx_storage s3) task = None"
  using assms
  by (simp add: txn_begin_def txn_prepare_def txn_rollback_def txn_latest_committed_def first_snoc
      memory_defs hmap_simps prepared_metadata_def)

theorem txn_rollback_loses_committed_witness:
  "let s = snd (txn_commit memory_ops (\<lambda>_. []) ''t1'' 2 demo_committed);
       s1 = snd (txn_begin ''t2'' ''orders'' (PostgreSQL ''0/2'') 3 s);
       s2 = snd (txn_prepare memory_ops ''t2'' ''u2'' 4 s1);
       (r3, s3) = txn_rollback memory_ops ''t2'' s2
   in map_sum id (map_option ck_position) (fst (txn_latest_committed memory_ops ''orders'' s)) =
        Inr (Some (PostgreSQL ''0/1'')) \<and>
      fst (txn_latest_committed memory_ops ''orders'' s3) = Inr None"
proof -
  let ?s = "snd (txn_commit memory_ops (\<lambda>_. []) ''t1'' 2 demo_committed)"
  have s: "?s = \<lparr>tx_storage = [(''orders'', \<lparr>ck_id = ''u1'', ck_task_id = ''orders'',
       ck_position = PostgreSQL ''0/1'', ck_created_at = 1, ck_stats = progress_stats_new,
       ck_metadata = committed_metadata (\<lambda>_. []) ''t1'' 2\<rparr>)], tx_transactions = []\<rparr>"
    by (simp add: demo_committed_eq txn_commit_def memory_defs)
  then have "\<not> list_ex (txn_is ''t2'') (tx_transactions ?s)" by simp
  from txn_rollback_loses_committed [OF this, of "''orders''" "PostgreSQL ''0/2''" 3 "''u2''" 4]
  show ?thesis
    by (simp add: s Let_def case_prod_beta)
      (simp add: txn_latest_committed_def memory_load_def committed_metadata_def)
qed

text \<open>
  Two transactions of one task interfere: when the second is prepared before the first
  commits, committing the first publishes the second's position, although the second is
  still active and uncommitted.
\<close>

theorem txn_commit_publishes_foreign_position:
  assumes "tx_transactions s = []" and "tid1 \<noteq> tid2"
  shows "let s1 = snd (txn_begin tid1 task pos1 a s);
             s2 = snd (txn_begin tid2 task pos2 b s1);
             s3 = snd (txn_prepare memory_ops tid1 u1 c s2);
             s4 = snd (txn_prepare memory_ops tid2 u2 d s3);
             (r, s5) = txn_commit memory_ops show_time tid1 e s4
         in r = Inr () \<and> list_ex (txn_is tid2) (tx_transactions s5) \<and>
            map_sum id (map_option ck_position) (fst (txn_latest_committed memory_ops task s5)) =
              Inr (Some pos2)"
  using assms
  by (simp add: txn_begin_def txn_prepare_def txn_commit_def txn_latest_committed_def
      memory_defs hmap_simps committed_metadata_def)

theorem txn_commit_publishes_foreign_position_witness:
  "let s = \<lparr>tx_storage = [], tx_transactions = []\<rparr>;
       s1 = snd (txn_begin ''t1'' ''orders'' (PostgreSQL ''0/1'') 0 s);
       s2 = snd (txn_begin ''t2'' ''orders'' (PostgreSQL ''0/9'') 0 s1);
       s3 = snd (txn_prepare memory_ops ''t1'' ''u1'' 1 s2);
       s4 = snd (txn_prepare memory_ops ''t2'' ''u2'' 2 s3);
       (r, s5) = txn_commit memory_ops (\<lambda>_. []) ''t1'' 3 s4
   in map_sum id (map_option ck_position) (fst (txn_latest_committed memory_ops ''orders'' s5)) =
        Inr (Some (PostgreSQL ''0/9''))"
proof -
  have "tx_transactions \<lparr>tx_storage = [] :: memory_storage, tx_transactions = []\<rparr> = []"
    and "''t1'' \<noteq> ''t2''" by simp_all
  from txn_commit_publishes_foreign_position [OF this, of "''orders''" "PostgreSQL ''0/1''" 0
      "PostgreSQL ''0/9''" 0 "''u1''" 1 "''u2''" 2 "\<lambda>_. []" 3]
  show ?thesis by (simp add: case_prod_beta Let_def)
qed

end
