(* ===== verification/Dedup.thy ===== *)
theory Dedup
  imports Models
begin

text \<open>
  The sliding-window event deduplicator of \<open>src/delivery/deduplication.rs\<close> and the key and
  position extraction of \<open>src/pipeline/at_least_once_helpers.rs\<close>. Counters are natural
  numbers: 2^64 events are never reached.
\<close>

section \<open>Keys\<close>

record dedup_key =
  dk_lsn :: string
  dk_xid :: "u32 option"
  dk_table :: string
  dk_primary_key :: "string option"

definition dedup_key_new :: "string \<Rightarrow> u32 option \<Rightarrow> string \<Rightarrow> dedup_key" where
  "dedup_key_new lsn xid table =
     \<lparr>dk_lsn = lsn, dk_xid = xid, dk_table = table, dk_primary_key = None\<rparr>"

definition with_primary_key :: "string \<Rightarrow> dedup_key \<Rightarrow> dedup_key" where
  "with_primary_key pk key = key\<lparr>dk_primary_key := Some pk\<rparr>"

fun extract_position_from_event :: "stream_event \<Rightarrow> position option" where
  "extract_position_from_event (EvCdc cdc) = cdc_position cdc"
| "extract_position_from_event (EvInsert table new_data position) = position"
| "extract_position_from_event (EvUpdate table old_data new_data position) = position"
| "extract_position_from_event (EvDelete table old_data position) = position"
| "extract_position_from_event (EvCheckpoint position) = Some position"
| "extract_position_from_event _ = None"

text \<open>The text of a JSON value is \<open>serde_json\<close>'s; it is the parameter \<open>show\<close>.\<close>

fun lsn_of_position :: "position option \<Rightarrow> string" where
  "lsn_of_position (Some (PostgreSQL lsn)) = lsn"
| "lsn_of_position _ = []"

definition key_with_id :: "(json \<Rightarrow> string) \<Rightarrow> json option \<Rightarrow> dedup_key \<Rightarrow> dedup_key" where
  "key_with_id show pk key =
     (case pk of Some v \<Rightarrow> with_primary_key (show v) key | None \<Rightarrow> key)"

fun create_dedup_key_from_event :: "(json \<Rightarrow> string) \<Rightarrow> stream_event \<Rightarrow> dedup_key" where
  "create_dedup_key_from_event show (EvCdc cdc) =
     key_with_id show (hm_get (cdc_data cdc) ''id'')
       (dedup_key_new (lsn_of_position (cdc_position cdc)) None (cdc_table cdc))"
| "create_dedup_key_from_event show (EvInsert table new_data position) =
     key_with_id show (json_get new_data ''id'')
       (dedup_key_new (lsn_of_position position) None table)"
| "create_dedup_key_from_event show (EvUpdate table old_data new_data position) =
     key_with_id show (json_get new_data ''id'')
       (dedup_key_new (lsn_of_position position) None table)"
| "create_dedup_key_from_event show (EvDelete table old_data position) =
     key_with_id show (json_get old_data ''id'')
       (dedup_key_new (lsn_of_position position) None table)"
| "create_dedup_key_from_event show _ = dedup_key_new [] None []"

section \<open>The deduplicator\<close>

record dedup_stats =
  ds_total_events :: nat
  ds_duplicate_events :: nat
  ds_window_evictions :: nat

record deduplicator =
  dd_window_size :: nat
  dd_key_queue :: "dedup_key list"
  dd_key_set :: "(dedup_key, nat) hmap"
  dd_stats :: dedup_stats

definition dedup_new :: "nat \<Rightarrow> deduplicator" where
  "dedup_new window_size =
     \<lparr>dd_window_size = window_size, dd_key_queue = [], dd_key_set = [],
      dd_stats = \<lparr>ds_total_events = 0, ds_duplicate_events = 0, ds_window_evictions = 0\<rparr>\<rparr>"

definition dedup_contains :: "deduplicator \<Rightarrow> dedup_key \<Rightarrow> bool" where
  "dedup_contains d key = hm_contains_key (dd_key_set d) key"

text \<open>Eviction of the oldest key when the queue is at capacity.\<close>

definition dedup_evict :: "deduplicator \<Rightarrow> deduplicator" where
  "dedup_evict d =
     (if length (dd_key_queue d) \<ge> dd_window_size d then
        (case dd_key_queue d of
           [] \<Rightarrow> d
         | oldest_key # rest \<Rightarrow>
             d\<lparr>dd_key_queue := rest,
               dd_key_set :=
                 (case hm_get (dd_key_set d) oldest_key of
                    None \<Rightarrow> dd_key_set d
                  | Some count \<Rightarrow>
                      if count = 1 then hm_remove oldest_key (dd_key_set d)
                      else hm_insert oldest_key (count - 1) (dd_key_set d)),
               dd_stats := (dd_stats d)\<lparr>ds_window_evictions := ds_window_evictions (dd_stats d) + 1\<rparr>\<rparr>)
      else d)"

definition dedup_add :: "dedup_key \<Rightarrow> deduplicator \<Rightarrow> deduplicator" where
  "dedup_add key d0 =
     (let d = d0\<lparr>dd_stats := (dd_stats d0)\<lparr>ds_total_events := ds_total_events (dd_stats d0) + 1\<rparr>\<rparr>
      in case hm_get (dd_key_set d) key of
           Some count \<Rightarrow>
             d\<lparr>dd_key_set := hm_insert key (count + 1) (dd_key_set d),
               dd_stats := (dd_stats d)\<lparr>ds_duplicate_events := ds_duplicate_events (dd_stats d) + 1\<rparr>\<rparr>
         | None \<Rightarrow>
             (let e = dedup_evict d
              in e\<lparr>dd_key_queue := dd_key_queue e @ [key],
                   dd_key_set := hm_insert key 1 (dd_key_set e)\<rparr>))"

definition dedup_clear :: "deduplicator \<Rightarrow> deduplicator" where
  "dedup_clear d = d\<lparr>dd_key_queue := [], dd_key_set := []\<rparr>"

definition dedup_current_size :: "deduplicator \<Rightarrow> nat" where
  "dedup_current_size d = length (dd_key_queue d)"

definition dedup_run :: "dedup_key list \<Rightarrow> deduplicator \<Rightarrow> deduplicator" where
  "dedup_run keys d = fold dedup_add keys d"

lemma dedup_run_simps [simp]:
  "dedup_run [] d = d"
  "dedup_run (k # ks) d = dedup_run ks (dedup_add k d)"
  "dedup_run (ks @ js) d = dedup_run js (dedup_run ks d)"
  by (simp_all add: dedup_run_def)

lemmas dedup_defs = dedup_add_def dedup_evict_def Let_def

section \<open>Invariant\<close>

definition dedup_inv :: "deduplicator \<Rightarrow> bool" where
  "dedup_inv d \<longleftrightarrow>
     hm_ok (dd_key_set d) \<and> distinct (dd_key_queue d) \<and>
     set (dd_key_queue d) \<subseteq> dom (hm_get (dd_key_set d)) \<and>
     length (dd_key_queue d) \<le> max 1 (dd_window_size d) \<and>
     (\<forall>k c. hm_get (dd_key_set d) k = Some c \<longrightarrow> 1 \<le> c) \<and>
     ds_total_events (dd_stats d) =
       ds_duplicate_events (dd_stats d) + ds_window_evictions (dd_stats d) + length (dd_key_queue d)"

lemma dedup_inv_new [simp]: "dedup_inv (dedup_new w)"
  by (simp add: dedup_inv_def dedup_new_def)

lemma dedup_add_window [simp]: "dd_window_size (dedup_add k d) = dd_window_size d"
  by (auto simp: dedup_defs split: option.splits list.splits)

lemma dedup_run_window [simp]: "dd_window_size (dedup_run ks d) = dd_window_size d"
  by (induction ks arbitrary: d) auto

text \<open>The two ways an addition ends, and the state of the key set after each.\<close>

lemma dedup_add_known:
  assumes "hm_get (dd_key_set d) k = Some c"
  shows "dd_key_queue (dedup_add k d) = dd_key_queue d"
    and "dd_key_set (dedup_add k d) = hm_insert k (c + 1) (dd_key_set d)"
    and "ds_total_events (dd_stats (dedup_add k d)) = Suc (ds_total_events (dd_stats d))"
    and "ds_duplicate_events (dd_stats (dedup_add k d)) = Suc (ds_duplicate_events (dd_stats d))"
    and "ds_window_evictions (dd_stats (dedup_add k d)) = ds_window_evictions (dd_stats d)"
  using assms by (simp_all add: dedup_add_def Let_def)

lemma dedup_add_room:
  assumes "hm_get (dd_key_set d) k = None"
    and "length (dd_key_queue d) < dd_window_size d \<or> dd_key_queue d = []"
  shows "dd_key_queue (dedup_add k d) = dd_key_queue d @ [k]"
    and "dd_key_set (dedup_add k d) = hm_insert k 1 (dd_key_set d)"
    and "ds_total_events (dd_stats (dedup_add k d)) = Suc (ds_total_events (dd_stats d))"
    and "ds_duplicate_events (dd_stats (dedup_add k d)) = ds_duplicate_events (dd_stats d)"
    and "ds_window_evictions (dd_stats (dedup_add k d)) = ds_window_evictions (dd_stats d)"
  using assms by (auto simp: dedup_defs split: list.splits)

lemma dedup_add_full:
  assumes "hm_get (dd_key_set d) k = None"
    and "dd_window_size d \<le> length (dd_key_queue d)" and "dd_key_queue d = old # rest"
    and "hm_get (dd_key_set d) old = Some c"
  shows "dd_key_queue (dedup_add k d) = rest @ [k]"
    and "dd_key_set (dedup_add k d) =
      hm_insert k 1 (if c = 1 then hm_remove old (dd_key_set d)
                     else hm_insert old (c - 1) (dd_key_set d))"
    and "ds_total_events (dd_stats (dedup_add k d)) = Suc (ds_total_events (dd_stats d))"
    and "ds_duplicate_events (dd_stats (dedup_add k d)) = ds_duplicate_events (dd_stats d)"
    and "ds_window_evictions (dd_stats (dedup_add k d)) = Suc (ds_window_evictions (dd_stats d))"
  using assms by (simp_all add: dedup_defs)

lemma dedup_inv_cases:
  assumes "dedup_inv d"
  obtains (known) c where "hm_get (dd_key_set d) k = Some c"
  | (room) "hm_get (dd_key_set d) k = None"
      "length (dd_key_queue d) < dd_window_size d \<or> dd_key_queue d = []"
  | (full) old rest c where "hm_get (dd_key_set d) k = None"
      "dd_window_size d \<le> length (dd_key_queue d)" "dd_key_queue d = old # rest"
      "hm_get (dd_key_set d) old = Some c" "1 \<le> c"
proof (cases "hm_get (dd_key_set d) k")
  case None
  show thesis
  proof (cases "length (dd_key_queue d) < dd_window_size d \<or> dd_key_queue d = []")
    case True
    with None show thesis by (rule room)
  next
    case False
    then obtain old rest where q: "dd_key_queue d = old # rest"
      by (cases "dd_key_queue d") auto
    with assms have "old \<in> dom (hm_get (dd_key_set d))"
      by (simp add: dedup_inv_def)
    then obtain c where c: "hm_get (dd_key_set d) old = Some c" by blast
    with assms have "1 \<le> c" by (auto simp: dedup_inv_def)
    with None False q c show thesis by (intro full) auto
  qed
qed (rule known)

lemma dedup_add_inv [simp]:
  assumes "dedup_inv d"
  shows "dedup_inv (dedup_add k d)"
proof -
  note inv = assms [unfolded dedup_inv_def]
  from assms show ?thesis
  proof (cases rule: dedup_inv_cases [where k = k])
    case (known c)
    with inv show ?thesis
      unfolding dedup_inv_def dedup_add_known [OF known] dedup_add_window
      by (auto simp: hmap_simps)
  next
    case room
    then have "k \<notin> set (dd_key_queue d)"
      using inv by auto
    with inv room show ?thesis
      unfolding dedup_inv_def dedup_add_room [OF room] dedup_add_window
      by (auto simp: hmap_simps)
  next
    case (full old rest c)
    then have "k \<notin> set (dd_key_queue d)"
      using inv by auto
    moreover have "c \<noteq> Suc 0 \<Longrightarrow> Suc 0 \<le> c - Suc 0"
      using full(5) by simp
    ultimately show ?thesis using inv full
      unfolding dedup_inv_def dedup_add_full [OF full(1-4)] dedup_add_window
      by (auto simp: hmap_simps)
  qed
qed

lemma dedup_run_inv [simp]: "dedup_inv d \<Longrightarrow> dedup_inv (dedup_run ks d)"
  by (induction ks arbitrary: d) auto

section \<open>What the window guarantees\<close>

definition tracked :: "deduplicator \<Rightarrow> dedup_key set" where
  "tracked d = dom (hm_get (dd_key_set d))"

lemma dedup_contains_iff: "dedup_contains d k \<longleftrightarrow> k \<in> tracked d"
  by (auto simp: dedup_contains_def hm_contains_key_def tracked_def)

lemma tracked_add:
  assumes "dedup_inv d"
  shows "k \<in> tracked (dedup_add k d)" and "tracked (dedup_add k d) \<subseteq> insert k (tracked d)"
  using assms
  by (cases rule: dedup_inv_cases [where k = k];
      simp add: tracked_def dedup_add_known dedup_add_room dedup_add_full hmap_simps; auto)+

lemma dedup_new_simps [simp]:
  "tracked (dedup_new w) = {}"
  "dd_window_size (dedup_new w) = w"
  by (simp_all add: tracked_def dedup_new_def)

text \<open>
  A tracked key survives \<open>n\<close> more additions when fewer than the window size minus \<open>n\<close> keys
  entered behind it, or when it is no longer subject to eviction.
\<close>

definition survives :: "nat \<Rightarrow> deduplicator \<Rightarrow> dedup_key \<Rightarrow> bool" where
  "survives n d k \<longleftrightarrow> k \<in> tracked d \<and>
     (k \<in> set (dd_key_queue d) \<and> hm_get (dd_key_set d) k = Some 1 \<longrightarrow>
        (\<exists>xs ys. dd_key_queue d = xs @ k # ys \<and> length ys + n < max 1 (dd_window_size d)))"

lemma survives_fresh:
  assumes "dedup_inv d" and "n < max 1 (dd_window_size d)"
  shows "survives n (dedup_add k d) k"
  using assms(1)
proof (cases rule: dedup_inv_cases [where k = k])
  case (known c)
  then have "1 \<le> c" using assms(1) by (simp add: dedup_inv_def)
  with known show ?thesis
    by (simp add: survives_def tracked_def dedup_add_known hmap_simps)
next
  case room
  with assms(2) show ?thesis
    by (simp add: survives_def tracked_def dedup_add_room hmap_simps) (metis list.size(3) add_0)
next
  case (full old rest c)
  with assms(2) show ?thesis
    by (simp add: survives_def tracked_def dedup_add_full hmap_simps) (metis list.size(3) add_0)
qed

lemma survives_step:
  assumes "dedup_inv d" and "survives (Suc n) d k"
  shows "survives n (dedup_add j d) k"
  using assms(1)
proof (cases rule: dedup_inv_cases [where k = j])
  case (known c)
  then have "1 \<le> c" using assms(1) by (simp add: dedup_inv_def)
  with known assms(2) show ?thesis
    by (auto simp: survives_def tracked_def dedup_add_known hmap_simps)
      (intro exI conjI, rule refl, simp add: less_max_iff_disj)
next
  case room
  with assms(2) have "k \<noteq> j" by (auto simp: survives_def tracked_def)
  with room assms(2) show ?thesis
    by (auto simp: survives_def tracked_def dedup_add_room hmap_simps) force
next
  case (full old rest c)
  with assms(2) have "k \<noteq> j" by (auto simp: survives_def tracked_def)
  show ?thesis
  proof (cases "k = old")
    case True
    have "c \<noteq> 1"
    proof
      assume "c = 1"
      with assms(2) full True obtain xs ys where
        q: "dd_key_queue d = xs @ k # ys" and l: "length ys + Suc n < max 1 (dd_window_size d)"
        by (auto simp: survives_def)
      have "distinct (dd_key_queue d)" using assms(1) by (simp add: dedup_inv_def)
      with q full(3) True have "xs = []" by (cases xs) auto
      with q l full(2) show False by (auto simp: max_def split: if_splits)
    qed
    moreover have "old \<notin> set rest"
      using assms(1) full(3) by (simp add: dedup_inv_def)
    ultimately show ?thesis
      using full True \<open>k \<noteq> j\<close> by (auto simp: survives_def tracked_def dedup_add_full hmap_simps)
  next
    case False
    have "\<exists>xs ys. rest @ [j] = xs @ k # ys \<and> length ys + n < max 1 (dd_window_size d)"
      if "k \<in> set rest" and "hm_get (dd_key_set d) k = Some 1"
    proof -
      from that assms(2) full(3) obtain xs ys where
        "old # rest = xs @ k # ys" and "length ys + Suc n < max 1 (dd_window_size d)"
        by (auto simp: survives_def)
      with False show ?thesis
        by (cases xs) force+
    qed
    with False full \<open>k \<noteq> j\<close> assms(2) show ?thesis
      by (auto simp: survives_def tracked_def dedup_add_full hmap_simps)
  qed
qed

lemma survives_run:
  "dedup_inv d \<Longrightarrow> survives (length js) d k \<Longrightarrow> k \<in> tracked (dedup_run js d)"
proof (induction js arbitrary: d)
  case Nil
  then show ?case by (simp add: survives_def)
next
  case (Cons j js)
  then show ?case by (simp add: survives_step)
qed

lemma tracked_run: "dedup_inv d \<Longrightarrow> tracked (dedup_run ks d) \<subseteq> tracked d \<union> set ks"
proof (induction ks arbitrary: d)
  case Nil
  then show ?case by simp
next
  case (Cons k ks)
  then have "tracked (dedup_run ks (dedup_add k d)) \<subseteq> tracked (dedup_add k d) \<union> set ks"
    by simp
  with tracked_add(2) [OF Cons.prems, of k] show ?case by auto
qed

text \<open>
  C9. The deduplicator detects every duplicate inside its window: after any history, a key
  that was added is still recognised after fewer than \<open>window_size\<close> further additions; and
  it never reports a key that was not added.
\<close>

theorem dedup_window_guarantee:
  assumes "length later < max 1 w"
  shows "dedup_contains (dedup_run (earlier @ key # later) (dedup_new w)) key \<and>
    (dedup_contains (dedup_run earlier (dedup_new w)) other \<longrightarrow> other \<in> set earlier)"
proof
  have "survives (length later) (dedup_run (earlier @ [key]) (dedup_new w)) key"
    using assms by (simp add: survives_fresh)
  then show "dedup_contains (dedup_run (earlier @ key # later) (dedup_new w)) key"
    by (simp add: dedup_contains_iff survives_run)
  show "dedup_contains (dedup_run earlier (dedup_new w)) other \<longrightarrow> other \<in> set earlier"
    using tracked_run [of "dedup_new w" earlier]
    by (auto simp: dedup_contains_iff)
qed

theorem dedup_window_guarantee_witness:
  "dedup_contains (dedup_run ([] @ dedup_key_new ''0/1'' None ''users'' #
     [dedup_key_new ''0/2'' None ''users'']) (dedup_new 2)) (dedup_key_new ''0/1'' None ''users'')"
proof -
  have "length [dedup_key_new ''0/2'' None ''users''] < max 1 (2::nat)" by simp
  from dedup_window_guarantee [OF this] show ?thesis by blast
qed

text \<open>
  Accounting: after any sequence of additions every event is counted exactly once, as a
  duplicate, as an evicted key or as a key still queued, and the queue never exceeds the
  window.
\<close>

theorem dedup_statistics_account:
  "let d = dedup_run keys (dedup_new w) in
     ds_total_events (dd_stats d) = length keys \<and>
     ds_total_events (dd_stats d) =
       ds_duplicate_events (dd_stats d) + ds_window_evictions (dd_stats d) + dedup_current_size d \<and>
     dedup_current_size d \<le> max 1 w"
proof -
  have total: "ds_total_events (dd_stats (dedup_run ks d)) = ds_total_events (dd_stats d) + length ks"
    if "dedup_inv d" for ks d
    using that
  proof (induction ks arbitrary: d)
    case (Cons k ks)
    from Cons.prems have "ds_total_events (dd_stats (dedup_add k d)) = Suc (ds_total_events (dd_stats d))"
      by (cases rule: dedup_inv_cases [where k = k])
        (simp_all add: dedup_add_known dedup_add_room dedup_add_full)
    with Cons show ?case by simp
  qed simp
  have "dedup_inv (dedup_run keys (dedup_new w))" by simp
  with total [of "dedup_new w" keys] show ?thesis
    by (simp add: dedup_inv_def dedup_current_size_def Let_def)
      (simp add: dedup_new_def)
qed

section \<open>A repeated key outlives its window\<close>

text \<open>
  Eviction of a key seen more than once decrements its count but leaves it in the key set
  without a queue entry, so it is never evicted again.
\<close>

definition orphaned :: "deduplicator \<Rightarrow> dedup_key \<Rightarrow> bool" where
  "orphaned d k \<longleftrightarrow> k \<in> tracked d \<and>
     (k \<in> set (dd_key_queue d) \<longrightarrow> hm_get (dd_key_set d) k \<noteq> Some 1)"

lemma orphaned_step:
  assumes "dedup_inv d" and "orphaned d k"
  shows "orphaned (dedup_add j d) k"
  using assms(1)
proof (cases rule: dedup_inv_cases [where k = j])
  case (known c)
  then have "1 \<le> c" using assms(1) by (simp add: dedup_inv_def)
  with known assms(2) show ?thesis
    by (auto simp: orphaned_def tracked_def dedup_add_known hmap_simps)
next
  case room
  with assms(2) show ?thesis
    by (auto simp: orphaned_def tracked_def dedup_add_room hmap_simps)
next
  case (full old rest c)
  then have "old \<notin> set rest" using assms(1) by (simp add: dedup_inv_def)
  with full assms(2) show ?thesis
    by (auto simp: orphaned_def tracked_def dedup_add_full hmap_simps)
qed

lemma orphaned_run: "dedup_inv d \<Longrightarrow> orphaned d k \<Longrightarrow> orphaned (dedup_run ks d) k"
  by (induction ks arbitrary: d) (auto simp: orphaned_step)

lemma orphaned_twice:
  assumes "dedup_inv d"
  shows "orphaned (dedup_add k (dedup_add k d)) k"
proof -
  have inv: "dedup_inv (dedup_add k d)" using assms by simp
  have "k \<in> tracked (dedup_add k d)" using assms by (rule tracked_add)
  then obtain c where c: "hm_get (dd_key_set (dedup_add k d)) k = Some c"
    by (auto simp: tracked_def)
  with inv have "1 \<le> c" by (simp add: dedup_inv_def)
  with c show ?thesis by (simp add: orphaned_def tracked_def dedup_add_known hmap_simps)
qed


end
