(* ===== verification/TwoPhase.thy ===== *)
theory TwoPhase
  imports TxnCheckpoint Dedup
begin

text \<open>
  Two-phase commit and its coordinator, \<open>src/delivery/transaction.rs\<close>, and the
  \<open>AtLeastOnceManager\<close> of \<open>src/delivery/mod.rs\<close>. The delayed removal that a commit spawns
  is an entry of \<open>tp_spawned\<close>, run by a step of its own.
\<close>

section \<open>Two-phase commit\<close>

datatype transaction_state = Started | Prepared | Committed | Aborted

record transaction =
  tn_id :: string
  tn_task_id :: string
  tn_state :: transaction_state
  tn_position :: "position option"
  tn_created_at :: time
  tn_participants :: "string list"

record two_phase =
  tp_timeout_secs :: u64
  tp_transactions :: "(string, transaction) hmap"
  tp_spawned :: "string list"

definition two_phase_new :: "u64 \<Rightarrow> two_phase" where
  "two_phase_new timeout_secs =
     \<lparr>tp_timeout_secs = timeout_secs, tp_transactions = [], tp_spawned = []\<rparr>"

text \<open>The \<open>Debug\<close> text of a state, used in error messages.\<close>

fun state_debug :: "transaction_state \<Rightarrow> string" where
  "state_debug Started = ''Started''"
| "state_debug Prepared = ''Prepared''"
| "state_debug Committed = ''Committed''"
| "state_debug Aborted = ''Aborted''"

definition tp_begin :: "string \<Rightarrow> string \<Rightarrow> time \<Rightarrow> two_phase \<Rightarrow> unit result \<times> two_phase" where
  "tp_begin transaction_id task_id now s =
     (if hm_contains_key (tp_transactions s) transaction_id
      then (Inl (Pipeline (''Transaction '' @ transaction_id @ '' already exists'')), s)
      else (Inr (), s\<lparr>tp_transactions := hm_insert transaction_id
              \<lparr>tn_id = transaction_id, tn_task_id = task_id, tn_state = Started, tn_position = None,
               tn_created_at = now, tn_participants = [''checkpoint'', ''meilisearch'']\<rparr>
              (tp_transactions s)\<rparr>))"

definition tp_prepare :: "string \<Rightarrow> position \<Rightarrow> two_phase \<Rightarrow> bool result \<times> two_phase" where
  "tp_prepare transaction_id position s =
     (case hm_get (tp_transactions s) transaction_id of
        None \<Rightarrow> (Inl (txn_not_found transaction_id), s)
      | Some txn \<Rightarrow>
          if tn_state txn \<noteq> Started
          then (Inl (Pipeline (''Transaction '' @ transaction_id @ '' in invalid state: '' @
                  state_debug (tn_state txn))), s)
          else (Inr True, s\<lparr>tp_transactions := hm_insert transaction_id
                  (txn\<lparr>tn_position := Some position, tn_state := Prepared\<rparr>) (tp_transactions s)\<rparr>))"

definition tp_commit :: "string \<Rightarrow> two_phase \<Rightarrow> unit result \<times> two_phase" where
  "tp_commit transaction_id s =
     (case hm_get (tp_transactions s) transaction_id of
        None \<Rightarrow> (Inl (txn_not_found transaction_id), s)
      | Some txn \<Rightarrow>
          if tn_state txn \<noteq> Prepared
          then (Inl (Pipeline (''Transaction '' @ transaction_id @ '' not prepared: '' @
                  state_debug (tn_state txn))), s)
          else (Inr (), s\<lparr>tp_transactions := hm_insert transaction_id
                  (txn\<lparr>tn_state := Committed\<rparr>) (tp_transactions s),
                tp_spawned := tp_spawned s @ [transaction_id]\<rparr>))"

text \<open>The spawned task, five seconds later.\<close>

definition tp_run_removal :: "string \<Rightarrow> two_phase \<Rightarrow> two_phase" where
  "tp_run_removal transaction_id s =
     s\<lparr>tp_transactions := hm_remove transaction_id (tp_transactions s),
       tp_spawned := remove1 transaction_id (tp_spawned s)\<rparr>"

definition tp_abort :: "string \<Rightarrow> two_phase \<Rightarrow> unit result \<times> two_phase" where
  "tp_abort transaction_id s =
     (let txns = (case hm_get (tp_transactions s) transaction_id of
                    Some txn \<Rightarrow> hm_insert transaction_id (txn\<lparr>tn_state := Aborted\<rparr>) (tp_transactions s)
                  | None \<Rightarrow> tp_transactions s)
      in (Inr (), s\<lparr>tp_transactions := hm_remove transaction_id txns\<rparr>))"

definition tp_stale :: "int \<Rightarrow> time \<Rightarrow> transaction \<Rightarrow> bool" where
  "tp_stale timeout now txn \<longleftrightarrow> now - tn_created_at txn > timeout \<and> tn_state txn \<noteq> Committed"

definition tp_cleanup :: "time \<Rightarrow> two_phase \<Rightarrow> (unit result \<times> two_phase) option" where
  "tp_cleanup now s =
     (case chrono_seconds (tp_timeout_secs s) of
        None \<Rightarrow> None
      | Some timeout \<Rightarrow>
          (let stale_txns = map fst (filter (\<lambda>(id, txn). tp_stale timeout now txn) (tp_transactions s))
           in Some (Inr (), s\<lparr>tp_transactions := fold hm_remove stale_txns (tp_transactions s)\<rparr>)))"

section \<open>The coordinator\<close>

record 's coordinator =
  co_two_phase :: two_phase
  co_checkpoint_handler :: "'s txn_ckpt option"

definition coordinator_new :: "u64 \<Rightarrow> 's coordinator" where
  "coordinator_new timeout_secs =
     \<lparr>co_two_phase = two_phase_new timeout_secs, co_checkpoint_handler = None\<rparr>"

definition set_checkpoint_handler :: "'s txn_ckpt \<Rightarrow> 's coordinator \<Rightarrow> 's coordinator" where
  "set_checkpoint_handler handler s = s\<lparr>co_checkpoint_handler := Some handler\<rparr>"

definition co_begin :: "string \<Rightarrow> string \<Rightarrow> time \<Rightarrow> 's coordinator \<Rightarrow> string result \<times> 's coordinator" where
  "co_begin task_id uuid now s =
     (let transaction_id = task_id @ ''-'' @ uuid;
          (r, tp) = tp_begin transaction_id task_id now (co_two_phase s)
      in (case r of
            Inl e \<Rightarrow> (Inl e, s\<lparr>co_two_phase := tp\<rparr>)
          | Inr _ \<Rightarrow> (Inr transaction_id, s\<lparr>co_two_phase := tp\<rparr>)))"

text \<open>
  The ten-second timeout around the checkpoint's prepare: it completes in time, or the future
  is dropped before or after the storage was written. A dropped prepare does not mark the
  transaction as prepared.
\<close>

datatype prepare_timing = InTime | DroppedBeforeSave | DroppedAfterSave

definition timed_prepare ::
  "'s storage_ops \<Rightarrow> prepare_timing \<Rightarrow> string \<Rightarrow> string \<Rightarrow> time \<Rightarrow> 's txn_ckpt \<Rightarrow>
     bool result option \<times> 's txn_ckpt" where
  "timed_prepare ops timing transaction_id uuid now h =
     (case timing of
        InTime \<Rightarrow> (case txn_prepare ops transaction_id uuid now h of (r, h') \<Rightarrow> (Some r, h'))
      | DroppedBeforeSave \<Rightarrow> (None, h)
      | DroppedAfterSave \<Rightarrow>
          (None, h\<lparr>tx_storage := tx_storage (snd (txn_prepare ops transaction_id uuid now h))\<rparr>))"

text \<open>\<open>transaction_id.split('-').next().unwrap_or("")\<close>\<close>

definition task_of_transaction :: "string \<Rightarrow> string" where
  "task_of_transaction transaction_id =
     (case split_on (CHR ''-'') transaction_id of [] \<Rightarrow> [] | p # _ \<Rightarrow> p)"

definition co_prepare ::
  "'s storage_ops \<Rightarrow> prepare_timing \<Rightarrow> string \<Rightarrow> position \<Rightarrow> string \<Rightarrow> time \<Rightarrow> 's coordinator \<Rightarrow>
     bool result \<times> 's coordinator" where
  "co_prepare ops timing transaction_id position uuid now s =
     (let finish = (\<lambda>s. case tp_prepare transaction_id position (co_two_phase s) of
                          (Inl e, tp) \<Rightarrow> (Inl e, s\<lparr>co_two_phase := tp\<rparr>)
                        | (Inr _, tp) \<Rightarrow> (Inr True, s\<lparr>co_two_phase := tp\<rparr>))
      in case co_checkpoint_handler s of
           None \<Rightarrow> finish s
         | Some h \<Rightarrow>
             (case txn_begin transaction_id (task_of_transaction transaction_id) position now h of
                (Inl e, h1) \<Rightarrow> (Inl e, s\<lparr>co_checkpoint_handler := Some h1\<rparr>)
              | (Inr _, h1) \<Rightarrow>
                  (case timed_prepare ops timing transaction_id uuid now h1 of
                     (Some (Inr True), h2) \<Rightarrow> finish (s\<lparr>co_checkpoint_handler := Some h2\<rparr>)
                   | (_, h2) \<Rightarrow> (Inr False, s\<lparr>co_checkpoint_handler := Some h2\<rparr>))))"

definition co_commit ::
  "'s storage_ops \<Rightarrow> (time \<Rightarrow> string) \<Rightarrow> string \<Rightarrow> time \<Rightarrow> 's coordinator \<Rightarrow> unit result \<times> 's coordinator" where
  "co_commit ops show_time transaction_id now s =
     (let finish = (\<lambda>s. case tp_commit transaction_id (co_two_phase s) of
                          (r, tp) \<Rightarrow> (r, s\<lparr>co_two_phase := tp\<rparr>))
      in case co_checkpoint_handler s of
           None \<Rightarrow> finish s
         | Some h \<Rightarrow>
             (case txn_commit ops show_time transaction_id now h of
                (Inl e, h1) \<Rightarrow> (Inl e, s\<lparr>co_checkpoint_handler := Some h1\<rparr>)
              | (Inr _, h1) \<Rightarrow> finish (s\<lparr>co_checkpoint_handler := Some h1\<rparr>)))"

definition co_rollback :: "'s storage_ops \<Rightarrow> string \<Rightarrow> 's coordinator \<Rightarrow> unit result \<times> 's coordinator" where
  "co_rollback ops transaction_id s =
     (let s1 = (case co_checkpoint_handler s of
                  None \<Rightarrow> s
                | Some h \<Rightarrow> s\<lparr>co_checkpoint_handler := Some (snd (txn_rollback ops transaction_id h))\<rparr>)
      in case tp_abort transaction_id (co_two_phase s1) of
           (r, tp) \<Rightarrow> (r, s1\<lparr>co_two_phase := tp\<rparr>))"

text \<open>One tick of the periodic cleanup task; \<open>None\<close> when it panics.\<close>

definition co_cleanup_tick :: "'s storage_ops \<Rightarrow> time \<Rightarrow> 's coordinator \<Rightarrow> 's coordinator option" where
  "co_cleanup_tick ops now s =
     (case tp_cleanup now (co_two_phase s) of
        None \<Rightarrow> None
      | Some (_, tp) \<Rightarrow>
          (case co_checkpoint_handler s of
             None \<Rightarrow> Some (s\<lparr>co_two_phase := tp\<rparr>)
           | Some h \<Rightarrow>
               map_option (\<lambda>(_, h'). s\<lparr>co_two_phase := tp, co_checkpoint_handler := Some h'\<rparr>)
                 (txn_cleanup_stale ops (tp_timeout_secs tp) now h)))"

section \<open>The at-least-once manager\<close>

record alo_config =
  al_enabled :: bool
  al_deduplication_window :: nat
  al_transaction_timeout_secs :: u64
  al_two_phase_commit :: bool
  al_checkpoint_before_write :: bool

definition alo_config_default :: alo_config where
  "alo_config_default =
     \<lparr>al_enabled = True, al_deduplication_window = 10000, al_transaction_timeout_secs = 30,
      al_two_phase_commit = True, al_checkpoint_before_write = True\<rparr>"

record 's alo_manager =
  am_config :: alo_config
  am_deduplicator :: deduplicator
  am_coordinator :: "'s coordinator"

definition alo_new :: "alo_config \<Rightarrow> 's alo_manager" where
  "alo_new config =
     \<lparr>am_config = config,
      am_deduplicator = dedup_new (al_deduplication_window config),
      am_coordinator = coordinator_new (al_transaction_timeout_secs config)\<rparr>"

definition alo_is_duplicate :: "'s alo_manager \<Rightarrow> dedup_key \<Rightarrow> bool result" where
  "alo_is_duplicate m key =
     (if \<not> al_enabled (am_config m) then Inr False
      else Inr (dedup_contains (am_deduplicator m) key))"

definition alo_mark_processed :: "dedup_key \<Rightarrow> 's alo_manager \<Rightarrow> unit result \<times> 's alo_manager" where
  "alo_mark_processed key m =
     (if \<not> al_enabled (am_config m) then (Inr (), m)
      else (Inr (), m\<lparr>am_deduplicator := dedup_add key (am_deduplicator m)\<rparr>))"

text \<open>The coordinator's result, with its state put back into the manager.\<close>

definition via_coordinator ::
  "('s coordinator \<Rightarrow> 'a result \<times> 's coordinator) \<Rightarrow> 's alo_manager \<Rightarrow> 'a result \<times> 's alo_manager" where
  "via_coordinator f m = (case f (am_coordinator m) of (r, c) \<Rightarrow> (r, m\<lparr>am_coordinator := c\<rparr>))"

definition alo_begin_transaction ::
  "string \<Rightarrow> string \<Rightarrow> time \<Rightarrow> 's alo_manager \<Rightarrow> string result \<times> 's alo_manager" where
  "alo_begin_transaction task_id uuid now m =
     (if \<not> al_two_phase_commit (am_config m) then (Inr [], m)
      else via_coordinator (co_begin task_id uuid now) m)"

definition alo_prepare ::
  "'s storage_ops \<Rightarrow> prepare_timing \<Rightarrow> string \<Rightarrow> position \<Rightarrow> string \<Rightarrow> time \<Rightarrow> 's alo_manager \<Rightarrow>
     bool result \<times> 's alo_manager" where
  "alo_prepare ops timing transaction_id position uuid now m =
     (if \<not> al_two_phase_commit (am_config m) then (Inr True, m)
      else via_coordinator (co_prepare ops timing transaction_id position uuid now) m)"

definition alo_commit ::
  "'s storage_ops \<Rightarrow> (time \<Rightarrow> string) \<Rightarrow> string \<Rightarrow> time \<Rightarrow> 's alo_manager \<Rightarrow> unit result \<times> 's alo_manager" where
  "alo_commit ops show_time transaction_id now m =
     (if \<not> al_two_phase_commit (am_config m) then (Inr (), m)
      else via_coordinator (co_commit ops show_time transaction_id now) m)"

definition alo_rollback :: "'s storage_ops \<Rightarrow> string \<Rightarrow> 's alo_manager \<Rightarrow> unit result \<times> 's alo_manager" where
  "alo_rollback ops transaction_id m =
     (if \<not> al_two_phase_commit (am_config m) then (Inr (), m)
      else via_coordinator (co_rollback ops transaction_id) m)"

section \<open>Runs of the two-phase commit\<close>

inductive tp_step :: "two_phase \<Rightarrow> two_phase \<Rightarrow> bool" where
  tp_step_begin: "tp_step s (snd (tp_begin tid task now s))"
| tp_step_prepare: "tp_step s (snd (tp_prepare tid pos s))"
| tp_step_commit: "tp_step s (snd (tp_commit tid s))"
| tp_step_removal: "tid \<in> set (tp_spawned s) \<Longrightarrow> tp_step s (tp_run_removal tid s)"
| tp_step_abort: "tp_step s (snd (tp_abort tid s))"
| tp_step_cleanup: "tp_cleanup now s = Some (r, s') \<Longrightarrow> tp_step s s'"

inductive tp_reach :: "u64 \<Rightarrow> two_phase \<Rightarrow> bool" for timeout where
  tp_start: "tp_reach timeout (two_phase_new timeout)"
| tp_next: "tp_reach timeout s \<Longrightarrow> tp_step s s' \<Longrightarrow> tp_reach timeout s'"

definition tp_inv :: "two_phase \<Rightarrow> bool" where
  "tp_inv s \<longleftrightarrow> (\<forall>k txn. hm_get (tp_transactions s) k = Some txn \<longrightarrow>
     tn_id txn = k \<and> tn_state txn \<noteq> Aborted \<and>
     (tn_position txn = None \<longleftrightarrow> tn_state txn = Started))"

lemma hm_get_fold_remove:
  "hm_get (fold hm_remove ks m) k = (if k \<in> set ks then None else hm_get m k)"
  by (induction ks arbitrary: m) (auto simp: hmap_simps)

lemmas tp_defs = tp_begin_def tp_prepare_def tp_commit_def tp_run_removal_def tp_abort_def Let_def

lemma tp_step_inv: "tp_step s s' \<Longrightarrow> tp_inv s \<Longrightarrow> tp_inv s'"
  by (induction rule: tp_step.induct)
    (auto simp: tp_inv_def tp_defs tp_cleanup_def hmap_simps hm_get_fold_remove
      split: option.splits if_splits)

lemma tp_reach_inv: "tp_reach timeout s \<Longrightarrow> tp_inv s"
  by (induction rule: tp_reach.induct) (auto simp: tp_step_inv, simp add: tp_inv_def two_phase_new_def)

text \<open>The life cycle of one transaction id, \<open>None\<close> while it is not registered.\<close>

inductive life :: "transaction_state option \<Rightarrow> transaction_state option \<Rightarrow> bool" where
  life_begin: "life None (Some Started)"
| life_prepare: "life (Some Started) (Some Prepared)"
| life_commit: "life (Some Prepared) (Some Committed)"
| life_forget: "life (Some st) None"
| life_stay: "life st st"

inductive_simps life_simps [simp]: "life None (Some st)" "life (Some st) (Some st')"

lemma life_None [simp]: "life st None"
  by (cases st) (auto intro: life.intros)

definition tp_state :: "two_phase \<Rightarrow> string \<Rightarrow> transaction_state option" where
  "tp_state s tid = map_option tn_state (hm_get (tp_transactions s) tid)"

lemma tp_step_life: "tp_step s s' \<Longrightarrow> life (tp_state s tid) (tp_state s' tid)"
  by (induction rule: tp_step.induct)
    (auto simp: tp_state_def tp_defs tp_cleanup_def hm_contains_key_def hmap_simps
      hm_get_fold_remove intro: life.intros split: option.splits if_splits)

lemma tp_cleanup_keeps_committed:
  assumes "tp_cleanup now s = Some (r, s')" and "hm_ok (tp_transactions s)"
    and "tp_state s tid = Some Committed"
  shows "tp_state s' tid = Some Committed"
proof -
  obtain txn where txn: "hm_get (tp_transactions s) tid = Some txn" "tn_state txn = Committed"
    using assms(3) by (auto simp: tp_state_def)
  have "txn' = txn" if "(tid, txn') \<in> set (tp_transactions s)" for txn'
    using that txn assms(2) by (simp add: hm_ok_def)
  then have "tid \<notin> fst ` {x \<in> set (tp_transactions s). case x of (k, t) \<Rightarrow> tp_stale timeout now t}"
    for timeout
    using txn by (auto simp: tp_stale_def)
  with assms(1) txn show ?thesis
    by (auto simp: tp_cleanup_def tp_state_def hm_get_fold_remove split: option.splits)
qed

text \<open>
  C5. The two-phase commit implements the transaction life cycle: every step moves every id
  along the automaton (begin, prepare, commit, forget); in every reachable state an entry is
  filed under its own id, is never \<open>Aborted\<close> and has a position exactly when it was prepared;
  and commit succeeds exactly on a prepared transaction, which becomes committed with the
  position it was prepared with.
\<close>

theorem two_phase_life_cycle:
  assumes "tp_reach timeout s" and "tp_step s s'"
  shows "life (tp_state s tid) (tp_state s' tid) \<and>
    (\<forall>txn. hm_get (tp_transactions s) tid = Some txn \<longrightarrow>
       tn_id txn = tid \<and> tn_state txn \<noteq> Aborted \<and>
       (tn_position txn = None \<longleftrightarrow> tn_state txn = Started)) \<and>
    (fst (tp_commit tid s) = Inr () \<longleftrightarrow> tp_state s tid = Some Prepared) \<and>
    (fst (tp_commit tid s) = Inr () \<longrightarrow>
       tp_state (snd (tp_commit tid s)) tid = Some Committed \<and>
       map_option tn_position (hm_get (tp_transactions (snd (tp_commit tid s))) tid) =
         map_option tn_position (hm_get (tp_transactions s) tid))"
  using tp_reach_inv [OF assms(1)] tp_step_life [OF assms(2), of tid]
  by (auto simp: tp_inv_def tp_state_def tp_commit_def hmap_simps split: option.splits)

theorem two_phase_life_cycle_witness:
  "life (tp_state (two_phase_new 30) ''a-1'')
     (tp_state (snd (tp_begin ''a-1'' ''a'' 0 (two_phase_new 30))) ''a-1'')"
  using two_phase_life_cycle [OF tp_start tp_step_begin] by blast

section \<open>The coordinated protocol\<close>

text \<open>The checkpoint key of a task: its id up to the first hyphen.\<close>

definition task_key :: "string \<Rightarrow> string" where
  "task_key task = takeWhile (\<lambda>c. c \<noteq> CHR ''-'') task"

lemma split_on_head:
  "split_on c (a @ c # b) = p # ps \<Longrightarrow> p = takeWhile (\<lambda>x. x \<noteq> c) a"
  by (induction a arbitrary: p ps) (auto split: list.splits)

lemma task_of_transaction_id: "task_of_transaction (task @ ''-'' @ uuid) = task_key task"
proof -
  obtain p ps where "split_on (CHR ''-'') (task @ CHR ''-'' # uuid) = p # ps"
    by (cases "split_on (CHR ''-'') (task @ CHR ''-'' # uuid)") auto
  then show ?thesis
    by (simp add: task_of_transaction_def task_key_def split_on_head)
qed

lemma task_key_plain: "CHR ''-'' \<notin> set task \<Longrightarrow> task_key task = task"
  by (auto simp: task_key_def takeWhile_eq_all_conv)

lemma task_key_hyphen: "CHR ''-'' \<in> set task \<Longrightarrow> task_key task \<noteq> task"
  by (auto simp: task_key_def takeWhile_eq_all_conv)

definition coordinated_run ::
  "string \<Rightarrow> string \<Rightarrow> position \<Rightarrow> time \<Rightarrow> (time \<Rightarrow> string) \<Rightarrow> memory_storage coordinator \<Rightarrow>
     string result \<times> bool result \<times> unit result \<times> memory_storage coordinator" where
  "coordinated_run task uuid pos now show_time s =
     (let (r1, s1) = co_begin task uuid now s;
          tid = task @ ''-'' @ uuid;
          (r2, s2) = co_prepare memory_ops InTime tid pos uuid now s1;
          (r3, s3) = co_commit memory_ops show_time tid now s2
      in (r1, r2, r3, s3))"

lemma coordinated_run_result:
  assumes "co_checkpoint_handler s = Some h"
    and "\<not> hm_contains_key (tp_transactions (co_two_phase s)) (task @ ''-'' @ uuid)"
    and "\<not> list_ex (txn_is (task @ ''-'' @ uuid)) (tx_transactions h)"
  shows "\<exists>s' h' c. coordinated_run task uuid pos now show_time s =
      (Inr (task @ ''-'' @ uuid), Inr True, Inr (), s') \<and>
    tp_state (co_two_phase s') (task @ ''-'' @ uuid) = Some Committed \<and>
    co_checkpoint_handler s' = Some h' \<and> tx_transactions h' = tx_transactions h \<and>
    hm_get (tx_storage h') = (hm_get (tx_storage h))(task_key task \<mapsto> c) \<and>
    ck_position c = pos \<and> visible (Some c) = Some c"
  using assms
  by (simp add: coordinated_run_def co_begin_def co_prepare_def co_commit_def timed_prepare_def
      tp_begin_def tp_prepare_def tp_commit_def tp_state_def txn_begin_def txn_prepare_def
      txn_commit_def first_snoc memory_defs hmap_simps task_of_transaction_id [simplified] Let_def)
    (rule exI, rule conjI [OF refl], simp)


definition demo_coordinator :: "memory_storage coordinator" where
  "demo_coordinator =
     set_checkpoint_handler \<lparr>tx_storage = [], tx_transactions = []\<rparr> (coordinator_new 30)"

lemma demo_coordinator_simps [simp]:
  "co_checkpoint_handler demo_coordinator = Some \<lparr>tx_storage = [], tx_transactions = []\<rparr>"
  "tp_transactions (co_two_phase demo_coordinator) = []"
  by (simp_all add: demo_coordinator_def set_checkpoint_handler_def coordinator_new_def
      two_phase_new_def)


text \<open>
  C40. A task whose id contains a hyphen checkpoints under the wrong key: the coordinator
  recovers the task from the transaction id by cutting at the first hyphen, so nothing is
  ever stored under the task's own id, and a second task with the same prefix overwrites
  the first one's checkpoint.
\<close>

theorem coordinated_hyphen_collision:
  assumes "co_checkpoint_handler s = Some h"
    and "\<not> hm_contains_key (tp_transactions (co_two_phase s)) (task @ ''-'' @ uuid)"
    and "\<not> list_ex (txn_is (task @ ''-'' @ uuid)) (tx_transactions h)"
    and "CHR ''-'' \<in> set task" and "task_key task' = task_key task"
  shows "\<exists>s' h' c. coordinated_run task uuid pos now show_time s =
      (Inr (task @ ''-'' @ uuid), Inr True, Inr (), s') \<and> co_checkpoint_handler s' = Some h' \<and>
    hm_get (tx_storage h') task = hm_get (tx_storage h) task \<and>
    hm_get (tx_storage h') (task_key task') = Some c \<and> ck_position c = pos"
proof -
  from coordinated_run_result [OF assms(1-3), of pos now show_time] obtain s' h' c where
    run: "coordinated_run task uuid pos now show_time s =
        (Inr (task @ ''-'' @ uuid), Inr True, Inr (), s')"
      "co_checkpoint_handler s' = Some h'"
      "hm_get (tx_storage h') = (hm_get (tx_storage h))(task_key task \<mapsto> c)"
      "ck_position c = pos"
    by blast
  then show ?thesis
    using assms(5) task_key_hyphen [OF assms(4)]
    by (intro exI [of _ s'] exI [of _ h'] exI [of _ c]) simp
qed

theorem coordinated_hyphen_collision_witness:
  "\<exists>s' h' c. coordinated_run ''orders-eu'' ''u1'' (PostgreSQL ''0/1'') 0 (\<lambda>_. []) demo_coordinator =
      (Inr ''orders-eu-u1'', Inr True, Inr (), s') \<and> co_checkpoint_handler s' = Some h' \<and>
    hm_get (tx_storage h') ''orders-eu'' = None \<and>
    hm_get (tx_storage h') (task_key ''orders-us'') = Some c \<and> ck_position c = PostgreSQL ''0/1''"
  using coordinated_hyphen_collision [of demo_coordinator "\<lparr>tx_storage = [], tx_transactions = []\<rparr>"
      "''orders-eu''" "''u1''" "''orders-us''" "PostgreSQL ''0/1''" 0 "\<lambda>_. []"]
  by (auto simp: hm_contains_key_def task_key_def)

end
