(* ===== verification/CircuitBreaker.thy ===== *)
theory CircuitBreaker
  imports Models "HOL-Library.Sublist"
begin

text \<open>
  The circuit breaker of \<open>src/recovery/circuit_breaker.rs\<close>. Counters are 32-bit words that
  wrap, as in the release build; every read of the clock is an argument.
\<close>

section \<open>State and operations\<close>

datatype circuit_state = Closed | Open | HalfOpen

record cb_config =
  cf_failure_threshold :: u32
  cf_success_threshold :: u32
  cf_window_duration :: duration
  cf_timeout_duration :: duration
  cf_half_open_max_requests :: u32

definition cb_config_default :: cb_config where
  "cb_config_default =
     \<lparr>cf_failure_threshold = 5, cf_success_threshold = 3, cf_window_duration = secs 60,
      cf_timeout_duration = secs 30, cf_half_open_max_requests = 3\<rparr>"

record circuit_stats =
  cs_consecutive_failures :: u32
  cs_consecutive_successes :: u32
  cs_half_open_requests :: u32
  cs_last_failure_time :: "time option"
  cs_circuit_opened_at :: "time option"

definition circuit_stats_new :: circuit_stats where
  "circuit_stats_new =
     \<lparr>cs_consecutive_failures = 0, cs_consecutive_successes = 0, cs_half_open_requests = 0,
      cs_last_failure_time = None, cs_circuit_opened_at = None\<rparr>"

definition stats_success :: "circuit_stats \<Rightarrow> circuit_stats" where
  "stats_success s =
     s\<lparr>cs_consecutive_successes := cs_consecutive_successes s + 1, cs_consecutive_failures := 0\<rparr>"

definition stats_failure :: "time \<Rightarrow> circuit_stats \<Rightarrow> circuit_stats" where
  "stats_failure now s =
     s\<lparr>cs_consecutive_failures := cs_consecutive_failures s + 1, cs_consecutive_successes := 0,
       cs_last_failure_time := Some now\<rparr>"

definition stats_reset :: "circuit_stats \<Rightarrow> circuit_stats" where
  "stats_reset s =
     s\<lparr>cs_consecutive_failures := 0, cs_consecutive_successes := 0, cs_half_open_requests := 0,
       cs_last_failure_time := None, cs_circuit_opened_at := None\<rparr>"

record circuit_breaker =
  cb_name :: string
  cb_config :: cb_config
  cb_state :: circuit_state
  cb_stats :: circuit_stats

definition cb_new :: "string \<Rightarrow> cb_config \<Rightarrow> circuit_breaker" where
  "cb_new name config =
     \<lparr>cb_name = name, cb_config = config, cb_state = Closed, cb_stats = circuit_stats_new\<rparr>"

definition cb_is_allowed :: "time \<Rightarrow> circuit_breaker \<Rightarrow> bool \<times> circuit_breaker" where
  "cb_is_allowed now cb =
     (case cb_state cb of
        Closed \<Rightarrow> (True, cb)
      | Open \<Rightarrow>
          (case cs_circuit_opened_at (cb_stats cb) of
             Some opened_at \<Rightarrow>
               if duration_since now opened_at \<ge> cf_timeout_duration (cb_config cb)
               then (True, cb\<lparr>cb_state := HalfOpen,
                              cb_stats := (cb_stats cb)\<lparr>cs_half_open_requests := 0\<rparr>\<rparr>)
               else (False, cb)
           | None \<Rightarrow> (False, cb))
      | HalfOpen \<Rightarrow>
          if cs_half_open_requests (cb_stats cb) < cf_half_open_max_requests (cb_config cb)
          then (True, cb\<lparr>cb_stats := (cb_stats cb)
                  \<lparr>cs_half_open_requests := cs_half_open_requests (cb_stats cb) + 1\<rparr>\<rparr>)
          else (False, cb))"

definition cb_record_success :: "circuit_breaker \<Rightarrow> circuit_breaker" where
  "cb_record_success cb0 =
     (let cb = cb0\<lparr>cb_stats := stats_success (cb_stats cb0)\<rparr>
      in case cb_state cb of
           Closed \<Rightarrow> cb
         | Open \<Rightarrow> cb
         | HalfOpen \<Rightarrow>
             if cs_consecutive_successes (cb_stats cb) \<ge> cf_success_threshold (cb_config cb)
             then cb\<lparr>cb_state := Closed, cb_stats := stats_reset (cb_stats cb)\<rparr>
             else cb)"

text \<open>The clock is read once for the failure time and once more when the circuit opens.\<close>

definition cb_record_failure :: "time \<Rightarrow> time \<Rightarrow> circuit_breaker \<Rightarrow> circuit_breaker" where
  "cb_record_failure now now' cb0 =
     (let cb = cb0\<lparr>cb_stats := stats_failure now (cb_stats cb0)\<rparr>
      in case cb_state cb of
           Closed \<Rightarrow>
             if cs_consecutive_failures (cb_stats cb) \<ge> cf_failure_threshold (cb_config cb)
             then cb\<lparr>cb_state := Open,
                     cb_stats := (cb_stats cb)\<lparr>cs_circuit_opened_at := Some now'\<rparr>\<rparr>
             else cb
         | Open \<Rightarrow> cb
         | HalfOpen \<Rightarrow>
             cb\<lparr>cb_state := Open,
                cb_stats := (cb_stats cb)\<lparr>cs_circuit_opened_at := Some now', cs_half_open_requests := 0\<rparr>\<rparr>)"

definition cb_set_state :: "circuit_state \<Rightarrow> time \<Rightarrow> circuit_breaker \<Rightarrow> circuit_breaker" where
  "cb_set_state new_state now cb0 =
     (let cb = cb0\<lparr>cb_state := new_state\<rparr>
      in case new_state of
           Closed \<Rightarrow> cb\<lparr>cb_stats := stats_reset (cb_stats cb)\<rparr>
         | Open \<Rightarrow> cb\<lparr>cb_stats := (cb_stats cb)\<lparr>cs_circuit_opened_at := Some now\<rparr>\<rparr>
         | HalfOpen \<Rightarrow> cb\<lparr>cb_stats := (cb_stats cb)\<lparr>cs_half_open_requests := 0\<rparr>\<rparr>)"

datatype 'e cb_error = CircuitOpen | OperationFailed 'e

definition cb_call ::
  "time \<Rightarrow> ('e + 'a) \<Rightarrow> time \<Rightarrow> time \<Rightarrow> circuit_breaker \<Rightarrow> ('e cb_error + 'a) \<times> circuit_breaker" where
  "cb_call now outcome t1 t2 cb =
     (case cb_is_allowed now cb of
        (False, cb1) \<Rightarrow> (Inl CircuitOpen, cb1)
      | (True, cb1) \<Rightarrow>
          (case outcome of
             Inr x \<Rightarrow> (Inr x, cb_record_success cb1)
           | Inl e \<Rightarrow> (Inl (OperationFailed e), cb_record_failure t1 t2 cb1)))"

record cb_public_stats =
  pb_name :: string
  pb_state :: circuit_state
  pb_consecutive_failures :: u32
  pb_consecutive_successes :: u32
  pb_last_failure_time :: "time option"
  pb_circuit_opened_at :: "time option"

definition cb_get_stats :: "circuit_breaker \<Rightarrow> cb_public_stats" where
  "cb_get_stats cb =
     \<lparr>pb_name = cb_name cb, pb_state = cb_state cb,
      pb_consecutive_failures = cs_consecutive_failures (cb_stats cb),
      pb_consecutive_successes = cs_consecutive_successes (cb_stats cb),
      pb_last_failure_time = cs_last_failure_time (cb_stats cb),
      pb_circuit_opened_at = cs_circuit_opened_at (cb_stats cb)\<rparr>"

text \<open>
  The manager: breakers shared by name. The handle that \<open>get_or_create\<close> returns is the
  name; the breaker behind it is the map's entry.
\<close>

type_synonym cb_manager = "(string, circuit_breaker) hmap"

definition cbm_get_or_create :: "string \<Rightarrow> cb_config \<Rightarrow> cb_manager \<Rightarrow> circuit_breaker \<times> cb_manager" where
  "cbm_get_or_create name config m =
     (case hm_get m name of
        Some breaker \<Rightarrow> (breaker, m)
      | None \<Rightarrow> (let breaker = cb_new name config in (breaker, hm_insert name breaker m)))"

definition cbm_get_all_stats :: "cb_manager \<Rightarrow> cb_public_stats list" where
  "cbm_get_all_stats m = map cb_get_stats (hm_values m)"

definition cbm_reset_all :: "time \<Rightarrow> cb_manager \<Rightarrow> cb_manager" where
  "cbm_reset_all now m = map (\<lambda>(k, cb). (k, cb_set_state Closed now cb)) m"

lemmas cb_defs = cb_is_allowed_def cb_record_success_def cb_record_failure_def
  stats_success_def stats_failure_def stats_reset_def Let_def

lemma cb_config_frame [simp]:
  "cb_config (snd (cb_is_allowed now cb)) = cb_config cb"
  "cb_config (cb_record_success cb) = cb_config cb"
  "cb_config (cb_record_failure now now' cb) = cb_config cb"
  by (auto simp: cb_defs split: circuit_state.splits option.splits)

lemma unat_Suc_below:
  assumes "(x :: u32) < y"
  shows "unat (x + 1) = Suc (unat x)"
proof -
  have "unat x + 1 < 2 ^ 32"
    using assms unsigned_less [of y, where 'a = nat] by (simp add: word_less_nat_alt)
  then show ?thesis by (simp add: unat_word_ariths)
qed

section \<open>Opening\<close>

text \<open>Outcomes recorded one after the other: \<open>True\<close> a success, \<open>False\<close> a failure.\<close>

fun cb_record :: "time \<Rightarrow> bool \<Rightarrow> circuit_breaker \<Rightarrow> circuit_breaker" where
  "cb_record now True cb = cb_record_success cb"
| "cb_record now False cb = cb_record_failure now now cb"

definition cb_record_all :: "time \<Rightarrow> bool list \<Rightarrow> circuit_breaker \<Rightarrow> circuit_breaker" where
  "cb_record_all now outcomes cb = fold (cb_record now) outcomes cb"

lemma cb_record_all_simps [simp]:
  "cb_record_all now [] cb = cb"
  "cb_record_all now (b # bs) cb = cb_record_all now bs (cb_record now b cb)"
  by (simp_all add: cb_record_all_def)

text \<open>A run of \<open>n\<close> consecutive failures occurs, when \<open>k\<close> failures precede the list.\<close>

fun failure_run :: "nat \<Rightarrow> nat \<Rightarrow> bool list \<Rightarrow> bool" where
  "failure_run n k [] = False"
| "failure_run n k (True # bs) = failure_run n 0 bs"
| "failure_run n k (False # bs) = (n \<le> Suc k \<or> failure_run n (Suc k) bs)"

lemma cb_record_Open: "cb_state cb = Open \<Longrightarrow> cb_state (cb_record now b cb) = Open"
  by (cases b) (simp_all add: cb_defs)

lemma cb_record_all_Open: "cb_state cb = Open \<Longrightarrow> cb_state (cb_record_all now bs cb) = Open"
  by (induction bs arbitrary: cb) (simp_all add: cb_record_Open)

lemma cb_record_all_Closed:
  assumes "cb_state cb = Closed"
    and "unat (cs_consecutive_failures (cb_stats cb)) = k" and "k < n"
    and "n = unat (cf_failure_threshold (cb_config cb))"
  shows "cb_state (cb_record_all now bs cb) = (if failure_run n k bs then Open else Closed)"
  using assms
proof (induction bs arbitrary: cb k)
  case (Cons b bs)
  show ?case
  proof (cases b)
    case True
    with Cons show ?thesis by (simp add: cb_defs)
  next
    case False
    have less: "cs_consecutive_failures (cb_stats cb) < cf_failure_threshold (cb_config cb)"
      using Cons.prems by (simp add: word_less_nat_alt)
    from unat_Suc_below [OF less] Cons.prems
    have count: "unat (cs_consecutive_failures (cb_stats cb) + 1) = Suc k" by simp
    show ?thesis
    proof (cases "n \<le> Suc k")
      case True
      with count Cons.prems False have "cb_state (cb_record now b cb) = Open"
        by (simp add: cb_defs word_le_nat_alt)
      with True False show ?thesis by (simp add: cb_record_all_Open)
    next
      case notyet: False
      with count Cons.prems False have "cb_state (cb_record now b cb) = Closed"
        "unat (cs_consecutive_failures (cb_stats (cb_record now b cb))) = Suc k"
        by (simp_all add: cb_defs word_le_nat_alt)
      with Cons False notyet show ?thesis by simp
    qed
  qed
qed simp

lemma failure_run_sublist:
  "k < n \<Longrightarrow> failure_run n k bs \<longleftrightarrow>
     prefix (replicate (n - k) False) bs \<or> sublist (replicate n False) bs"
proof (induction bs arbitrary: k)
  case Nil
  then show ?case by simp
next
  case (Cons b bs)
  obtain m where m: "n = Suc m" using Cons.prems by (cases n) auto
  show ?case
  proof (cases b)
    case True
    with Cons.IH [of 0] Cons.prems m show ?thesis
      by (auto simp: sublist_Cons_right Suc_diff_le)
  next
    case False
    have mono: "prefix (replicate m False) bs \<Longrightarrow> prefix (replicate (m - k) False) bs"
      by (metis diff_le_self le_add_diff_inverse prefix_order.trans prefixI replicate_add)
    show ?thesis
    proof (cases "n \<le> Suc k")
      case True
      with False m Cons.prems show ?thesis by (auto simp: le_Suc_eq)
    next
      case notyet: False
      with Cons.IH [of "Suc k"] False m mono show ?thesis
        by (auto simp: sublist_Cons_right Suc_diff_le)
    qed
  qed
qed

text \<open>
  C14. A new breaker with a positive failure threshold opens exactly when the recorded outcomes
  contain that many consecutive failures, and stays closed otherwise; a success in between
  starts the count again.
\<close>

theorem breaker_opens_iff_consecutive_failures:
  assumes "0 < cf_failure_threshold config"
  shows "cb_state (cb_record_all now outcomes (cb_new name config)) =
    (if sublist (replicate (unat (cf_failure_threshold config)) False) outcomes then Open else Closed)"
proof -
  let ?n = "unat (cf_failure_threshold config)"
  have n: "0 < ?n" using assms by (simp add: word_less_nat_alt)
  then have "cb_state (cb_record_all now outcomes (cb_new name config)) =
      (if failure_run ?n 0 outcomes then Open else Closed)"
    by (intro cb_record_all_Closed) (simp_all add: cb_new_def circuit_stats_new_def)
  with failure_run_sublist [OF n, of outcomes] show ?thesis
    by (auto simp: prefix_imp_sublist)
qed

theorem breaker_opens_iff_consecutive_failures_witness:
  "cb_state (cb_record_all 0 [False, True, False, False, False, False, False]
     (cb_new ''meili'' cb_config_default)) = Open"
proof -
  have "0 < cf_failure_threshold cb_config_default" by (simp add: cb_config_default_def)
  from breaker_opens_iff_consecutive_failures [OF this,
      of 0 "[False, True, False, False, False, False, False]" "''meili''"]
  moreover have "unat (cf_failure_threshold cb_config_default) = 5"
    by (simp add: cb_config_default_def)
  moreover have "replicate 5 False = [False, False, False, False, False]"
    by (simp add: numeral_eq_Suc)
  ultimately show ?thesis
    by (simp add: sublist_Cons_right del: cb_record_all_simps)
qed

section \<open>Rejecting and probing\<close>

text \<open>Calls one after the other, each with its time and whether its operation succeeds.\<close>

fun cb_calls :: "(time \<times> bool) list \<Rightarrow> circuit_breaker \<Rightarrow> bool list \<times> circuit_breaker" where
  "cb_calls [] cb = ([], cb)"
| "cb_calls ((t, ok) # calls) cb =
     (case cb_call t (if ok then Inr () else Inl ()) t t cb of
        (r, cb1) \<Rightarrow> (case cb_calls calls cb1 of
                       (rs, cb2) \<Rightarrow> ((r \<noteq> Inl CircuitOpen) # rs, cb2)))"

text \<open>Requests that ask for admission while none of them has finished.\<close>

fun cb_requests :: "time list \<Rightarrow> circuit_breaker \<Rightarrow> bool list \<times> circuit_breaker" where
  "cb_requests [] cb = ([], cb)"
| "cb_requests (t # ts) cb =
     (case cb_is_allowed t cb of
        (b, cb1) \<Rightarrow> (case cb_requests ts cb1 of (bs, cb2) \<Rightarrow> (b # bs, cb2)))"

definition cb_expired :: "time \<Rightarrow> circuit_breaker \<Rightarrow> bool" where
  "cb_expired now cb \<longleftrightarrow>
     (\<exists>t0. cs_circuit_opened_at (cb_stats cb) = Some t0 \<and>
           cf_timeout_duration (cb_config cb) \<le> duration_since now t0)"

lemma cb_is_allowed_Open:
  "cb_state cb = Open \<Longrightarrow> cb_is_allowed now cb =
     (if cb_expired now cb
      then (True, cb\<lparr>cb_state := HalfOpen, cb_stats := (cb_stats cb)\<lparr>cs_half_open_requests := 0\<rparr>\<rparr>)
      else (False, cb))"
  by (auto simp: cb_is_allowed_def cb_expired_def split: option.splits)

text \<open>
  C15. An open breaker protects the service: until its timeout has passed every call is
  rejected without running its operation and leaves the breaker unchanged.
\<close>

theorem open_breaker_rejects:
  assumes "cb_state cb = Open" and "\<forall>(t, ok) \<in> set calls. \<not> cb_expired t cb"
  shows "cb_calls calls cb = (replicate (length calls) False, cb)"
  using assms(2)
  by (induction calls) (auto simp: cb_call_def cb_is_allowed_Open [OF assms(1)])

definition demo_open :: circuit_breaker where
  "demo_open = cb_set_state Open 0 (cb_new ''meili'' cb_config_default)"

theorem open_breaker_rejects_witness:
  "cb_calls [(secs 29, True), (secs 1, False)] demo_open = ([False, False], demo_open)"
proof -
  have "cb_state demo_open = Open"
    by (simp add: demo_open_def cb_set_state_def)
  moreover have "\<forall>(t, ok) \<in> set [(int (secs 29), True), (int (secs 1), False)]. \<not> cb_expired t demo_open"
    by (simp add: demo_open_def cb_set_state_def cb_new_def cb_config_default_def cb_expired_def
        duration_since_def secs_def)
  ultimately show ?thesis
    using open_breaker_rejects [of demo_open "[(int (secs 29), True), (int (secs 1), False)]"]
    by simp
qed

lemma half_open_requests:
  assumes "cb_state cb = HalfOpen"
    and "unat (cs_half_open_requests (cb_stats cb)) + k = unat (cf_half_open_max_requests (cb_config cb))"
  shows "fst (cb_requests ts cb) =
    replicate (min (length ts) k) True @ replicate (length ts - k) False"
  using assms
proof (induction ts arbitrary: cb k)
  case (Cons t ts)
  show ?case
  proof (cases k)
    case 0
    with Cons.prems have "cb_is_allowed t cb = (False, cb)"
      by (simp add: cb_is_allowed_def word_less_nat_alt)
    with Cons 0 show ?thesis by (simp add: case_prod_beta)
  next
    case (Suc j)
    with Cons.prems have less:
      "cs_half_open_requests (cb_stats cb) < cf_half_open_max_requests (cb_config cb)"
      by (simp add: word_less_nat_alt)
    with Cons.prems Suc Cons.IH [of "snd (cb_is_allowed t cb)" j] show ?thesis
      by (simp add: cb_is_allowed_def case_prod_beta unat_Suc_below [OF less])
  qed
qed simp

text \<open>
  Half-open admission is off by one: of the requests that arrive after the timeout while
  none has finished, exactly \<open>half_open_max_requests + 1\<close> are admitted (the one that moves
  the breaker to half-open is not counted), not \<open>half_open_max_requests\<close>.
\<close>

theorem half_open_admits_one_too_many:
  assumes "cb_state cb = Open" and "cb_expired t cb"
    and "m = unat (cf_half_open_max_requests (cb_config cb))"
  shows "fst (cb_requests (t # ts) cb) =
    replicate (min (Suc (length ts)) (Suc m)) True @ replicate (length ts - m) False"
proof -
  let ?cb = "snd (cb_is_allowed t cb)"
  have "cb_state ?cb = HalfOpen" and "cs_half_open_requests (cb_stats ?cb) = 0"
    and "fst (cb_is_allowed t cb)"
    using assms by (simp_all add: cb_is_allowed_Open)
  with half_open_requests [of ?cb m ts] assms(3) show ?thesis
    by (simp add: case_prod_beta)
qed

theorem half_open_admits_one_too_many_witness:
  "fst (cb_requests (replicate 6 (secs 31)) demo_open) = [True, True, True, True, False, False]"
proof -
  have "cb_state demo_open = Open" and "cb_expired (int (secs 31)) demo_open"
    and "3 = unat (cf_half_open_max_requests (cb_config demo_open))"
    by (simp_all add: demo_open_def cb_set_state_def cb_new_def cb_config_default_def
        cb_expired_def duration_since_def secs_def)
  from half_open_admits_one_too_many [OF this, of "replicate 5 (int (secs 31))"]
  show ?thesis by (simp add: numeral_eq_Suc del: cb_requests.simps)
qed

section \<open>Recovery\<close>

definition half_open_at :: "nat \<Rightarrow> nat \<Rightarrow> circuit_breaker \<Rightarrow> bool" where
  "half_open_at successes requests cb \<longleftrightarrow>
     cb_state cb = HalfOpen \<and> unat (cs_consecutive_successes (cb_stats cb)) = successes \<and>
     unat (cs_half_open_requests (cb_stats cb)) = requests"

lemma half_open_success_step:
  assumes "half_open_at c r cb"
    and "c < unat (cf_success_threshold (cb_config cb))"
    and "r < unat (cf_half_open_max_requests (cb_config cb))"
  shows "fst (cb_call t (Inr x :: unit + 'a) t1 t2 cb) = Inr x"
    and "cb_config (snd (cb_call t (Inr x :: unit + 'a) t1 t2 cb)) = cb_config cb"
    and "Suc c < unat (cf_success_threshold (cb_config cb)) \<Longrightarrow>
      half_open_at (Suc c) (Suc r) (snd (cb_call t (Inr x :: unit + 'a) t1 t2 cb))"
    and "Suc c = unat (cf_success_threshold (cb_config cb)) \<Longrightarrow>
      cb_state (snd (cb_call t (Inr x :: unit + 'a) t1 t2 cb)) = Closed"
proof -
  have l1: "cs_consecutive_successes (cb_stats cb) < cf_success_threshold (cb_config cb)"
    and l2: "cs_half_open_requests (cb_stats cb) < cf_half_open_max_requests (cb_config cb)"
    using assms by (simp_all add: half_open_at_def word_less_nat_alt)
  have u: "unat (cs_consecutive_successes (cb_stats cb) + 1) = Suc c"
    "unat (cs_half_open_requests (cb_stats cb) + 1) = Suc r"
    using assms unat_Suc_below [OF l1] unat_Suc_below [OF l2] by (simp_all add: half_open_at_def)
  show "fst (cb_call t (Inr x :: unit + 'a) t1 t2 cb) = Inr x"
    "cb_config (snd (cb_call t (Inr x :: unit + 'a) t1 t2 cb)) = cb_config cb"
    using assms(1) l2 by (simp_all add: half_open_at_def cb_call_def cb_is_allowed_def)
  show "half_open_at (Suc c) (Suc r) (snd (cb_call t (Inr x :: unit + 'a) t1 t2 cb))"
    if "Suc c < unat (cf_success_threshold (cb_config cb))"
    using that assms(1) l2 u by (simp add: half_open_at_def cb_call_def cb_defs word_le_nat_alt)
  show "cb_state (snd (cb_call t (Inr x :: unit + 'a) t1 t2 cb)) = Closed"
    if "Suc c = unat (cf_success_threshold (cb_config cb))"
    using that assms(1) l2 u by (simp add: half_open_at_def cb_call_def cb_defs word_le_nat_alt)
qed

lemma half_open_exhausted:
  assumes "half_open_at c r cb" and "r = unat (cf_half_open_max_requests (cb_config cb))"
  shows "cb_calls calls cb = (replicate (length calls) False, cb)"
proof -
  have "cb_is_allowed t cb = (False, cb)" for t
    using assms by (simp add: half_open_at_def cb_is_allowed_def word_less_nat_alt)
  then show ?thesis by (induction calls) (auto simp: cb_call_def)
qed

text \<open>Successful calls in the half-open state close it when enough of them fit.\<close>

lemma half_open_recovers:
  assumes "half_open_at c r cb" and "length ts = Suc n"
    and "Suc (c + n) = unat (cf_success_threshold (cb_config cb))"
    and "r + n < unat (cf_half_open_max_requests (cb_config cb))"
  shows "cb_state (snd (cb_calls (map (\<lambda>t. (t, True)) ts) cb)) = Closed"
  using assms
proof (induction n arbitrary: c r cb ts)
  case 0
  then obtain t where "ts = [t]" by (auto simp: length_Suc_conv)
  with 0 half_open_success_step(4) [of c r cb t "()" t t] show ?case
    by (simp add: case_prod_beta)
next
  case (Suc n)
  then obtain t ts' where ts: "ts = t # ts'" "length ts' = Suc n" by (auto simp: length_Suc_conv)
  let ?cb = "snd (cb_call t (Inr () :: unit + unit) t t cb)"
  have "half_open_at (Suc c) (Suc r) ?cb" and "cb_config ?cb = cb_config cb"
    using Suc.prems half_open_success_step [of c r cb t "()" t t] by simp_all
  with Suc.IH [of "Suc c" "Suc r" ?cb ts'] Suc.prems ts show ?case
    by (simp add: case_prod_beta)
qed

text \<open>They leave it stuck when too few fit.\<close>

lemma half_open_stuck:
  assumes "half_open_at c r cb" and "r + k = unat (cf_half_open_max_requests (cb_config cb))"
    and "c + k < unat (cf_success_threshold (cb_config cb))"
  shows "cb_state (snd (cb_calls (map (\<lambda>t. (t, True)) ts) cb)) = HalfOpen \<and>
    fst (cb_calls (map (\<lambda>t. (t, True)) ts) cb) =
      replicate (min (length ts) k) True @ replicate (length ts - k) False"
  using assms
proof (induction ts arbitrary: c r cb k)
  case Nil
  then show ?case by (simp add: half_open_at_def)
next
  case (Cons t ts)
  show ?case
  proof (cases k)
    case 0
    with Cons.prems half_open_exhausted [of c r cb "map (\<lambda>t. (t, True)) (t # ts)"] show ?thesis
      by (simp add: half_open_at_def del: cb_calls.simps)
  next
    case (Suc j)
    let ?cb = "snd (cb_call t (Inr () :: unit + unit) t t cb)"
    have "half_open_at (Suc c) (Suc r) ?cb" and "cb_config ?cb = cb_config cb"
      and "fst (cb_call t (Inr () :: unit + unit) t t cb) = Inr ()"
      using Cons.prems Suc half_open_success_step [of c r cb t "()" t t] by simp_all
    with Cons.IH [of "Suc c" "Suc r" ?cb j] Cons.prems Suc show ?thesis
      by (simp add: case_prod_beta)
  qed
qed

lemma first_probe:
  assumes "cb_state cb = Open" and "cb_expired t cb"
    and "cs_consecutive_successes (cb_stats cb) = 0"
    and "1 < unat (cf_success_threshold (cb_config cb))"
  shows "half_open_at 1 0 (snd (cb_call t (Inr x :: unit + 'a) t1 t2 cb))"
    and "cb_config (snd (cb_call t (Inr x :: unit + 'a) t1 t2 cb)) = cb_config cb"
    and "fst (cb_call t (Inr x :: unit + 'a) t1 t2 cb) = Inr x"
  using assms
  by (auto simp: cb_call_def cb_is_allowed_Open half_open_at_def cb_record_success_def
      stats_success_def Let_def word_le_nat_alt)

text \<open>
  C16. Recovery after an outage, when every probe succeeds: a breaker whose timeout has passed
  closes after \<open>success_threshold\<close> calls if at most \<open>half_open_max_requests + 1\<close> are
  needed; if more are needed it never closes again, and after \<open>half_open_max_requests + 1\<close>
  calls it rejects every later call at any time.
\<close>

theorem breaker_recovery:
  assumes "cb_state cb = Open" and "cb_expired t cb"
    and "cs_consecutive_successes (cb_stats cb) = 0"
    and "s = unat (cf_success_threshold (cb_config cb))" and "1 < s"
    and "m = unat (cf_half_open_max_requests (cb_config cb))"
  shows "(s \<le> Suc m \<and> Suc (length ts) = s \<longrightarrow>
      cb_state (snd (cb_calls (map (\<lambda>t. (t, True)) (t # ts)) cb)) = Closed) \<and>
    (Suc m < s \<longrightarrow>
      cb_state (snd (cb_calls (map (\<lambda>t. (t, True)) (t # ts)) cb)) = HalfOpen \<and>
      fst (cb_calls (map (\<lambda>t. (t, True)) (t # ts)) cb) =
        replicate (min (Suc (length ts)) (Suc m)) True @ replicate (length ts - m) False)"
proof -
  let ?cb = "snd (cb_call t (Inr () :: unit + unit) t t cb)"
  have probe: "half_open_at 1 0 ?cb" "cb_config ?cb = cb_config cb"
    "fst (cb_call t (Inr () :: unit + unit) t t cb) = Inr ()"
    using first_probe [OF assms(1-3)] assms(4,5) by simp_all
  have "cb_state (snd (cb_calls (map (\<lambda>t. (t, True)) ts) ?cb)) = Closed"
    if "s \<le> Suc m" and "Suc (length ts) = s"
    using half_open_recovers [OF probe(1), of ts "length ts - 1"] probe(2) that assms(4-6)
    by (cases "length ts") simp_all
  moreover have "cb_state (snd (cb_calls (map (\<lambda>t. (t, True)) ts) ?cb)) = HalfOpen \<and>
      fst (cb_calls (map (\<lambda>t. (t, True)) ts) ?cb) =
        replicate (min (length ts) m) True @ replicate (length ts - m) False" if "Suc m < s"
    using half_open_stuck [OF probe(1), of m ts] probe(2) that assms(4-6) by simp
  ultimately show ?thesis
    using probe(3) by (auto simp: case_prod_beta)
qed

text \<open>A breaker configured to need five successes but to admit three half-open requests.\<close>

definition demo_strict :: circuit_breaker where
  "demo_strict = cb_set_state Open 0 (cb_new ''meili'' (cb_config_default\<lparr>cf_success_threshold := 5\<rparr>))"

theorem breaker_recovery_witness:
  "cb_state (snd (cb_calls (map (\<lambda>t. (t, True)) (secs 31 # map secs [32, 33, 34, 3600])) demo_strict))
     = HalfOpen"
proof -
  have "cb_state demo_strict = Open" and "cb_expired (int (secs 31)) demo_strict"
    and "cs_consecutive_successes (cb_stats demo_strict) = 0"
    and "5 = unat (cf_success_threshold (cb_config demo_strict))" and "1 < (5 :: nat)"
    and "3 = unat (cf_half_open_max_requests (cb_config demo_strict))"
    by (simp_all add: demo_strict_def cb_set_state_def cb_new_def cb_config_default_def
        circuit_stats_new_def cb_expired_def duration_since_def secs_def)
  from breaker_recovery [OF this, of "map (\<lambda>n. int (secs n)) [32, 33, 34, 3600]"] show ?thesis
    by (simp del: cb_calls.simps)
qed

end
