(* ===== verification/F64.thy ===== *)
theory F64
  imports Prelude "HOL-Library.Log_Nat"
begin

text \<open>
  The \<open>f64\<close> arithmetic the sources use: binary64 with round to nearest, ties to even,
  gradual underflow and overflow to infinity. A finite value is the rational it denotes; the
  sign of zero is not kept (no modelled operation depends on it).
\<close>

section \<open>Rounding a rational to an integer\<close>

definition round_even :: "rat \<Rightarrow> int" where
  "round_even x =
     (let f = \<lfloor>x\<rfloor>; d = x - of_int f
      in if d < 1 / 2 then f else if 1 / 2 < d then f + 1 else if even f then f else f + 1)"

lemma round_even_of_int [simp]: "round_even (of_int n) = n"
  by (simp add: round_even_def)

lemma round_even_bounds: "\<lfloor>x\<rfloor> \<le> round_even x" "round_even x \<le> \<lfloor>x\<rfloor> + 1"
  by (auto simp: round_even_def Let_def)

lemma round_even_mono:
  assumes "x \<le> y"
  shows "round_even x \<le> round_even y"
proof (cases "\<lfloor>x\<rfloor> = \<lfloor>y\<rfloor>")
  case True
  with assms show ?thesis by (auto simp: round_even_def Let_def)
next
  case False
  with floor_mono [OF assms] have "\<lfloor>x\<rfloor> + 1 \<le> \<lfloor>y\<rfloor>" by simp
  then show ?thesis using round_even_bounds(2) [of x] round_even_bounds(1) [of y] by linarith
qed

lemma round_even_ge: "of_int n \<le> x \<Longrightarrow> n \<le> round_even x"
  using round_even_mono [of "of_int n" x] by simp

lemma round_even_le: "x \<le> of_int n \<Longrightarrow> round_even x \<le> n"
  using round_even_mono [of x "of_int n"] by simp

section \<open>Powers of two and binary logarithms\<close>

definition pow2 :: "int \<Rightarrow> rat" where
  "pow2 e = (if 0 \<le> e then 2 ^ nat e else 1 / 2 ^ nat (- e))"

lemma pow2_pos [simp]: "0 < pow2 e"
  by (simp add: pow2_def)

lemma pow2_nonneg [simp]: "0 \<le> pow2 e"
  by (rule less_imp_le) (rule pow2_pos)

lemma pow2_neq_0 [simp]: "pow2 e \<noteq> 0"
  by (metis less_irrefl pow2_pos)

lemma pow2_of_nat [simp]: "pow2 (int n) = 2 ^ n"
  by (simp add: pow2_def)

lemma pow2_Suc: "pow2 (e + 1) = 2 * pow2 e"
proof (cases "0 \<le> e")
  case True
  then show ?thesis by (simp add: pow2_def nat_add_distrib)
next
  case False
  then have "nat (- e) = Suc (nat (- (e + 1)))" by arith
  with False show ?thesis by (auto simp: pow2_def)
qed

lemma pow2_add_nat: "pow2 (e + int n) = pow2 e * 2 ^ n"
proof (induction n)
  case (Suc n)
  have "pow2 (e + int (Suc n)) = pow2 ((e + int n) + 1)" by (simp add: algebra_simps)
  also have "\<dots> = 2 * pow2 (e + int n)" by (rule pow2_Suc)
  finally show ?case using Suc by simp
qed simp

lemma pow2_diff_nat: "pow2 (e - int n) = pow2 e / 2 ^ n"
  using pow2_add_nat [of "e - int n" n] by (simp add: field_simps)

lemma pow2_mono: "e \<le> f \<Longrightarrow> pow2 e \<le> pow2 f"
  using pow2_add_nat [of e "nat (f - e)"] mult_left_mono [of 1 "2 ^ nat (f - e)" "pow2 e"] by simp

text \<open>The exponent \<open>e\<close> with \<open>pow2 e \<le> x < pow2 (e + 1)\<close>, computed from bit lengths.\<close>

definition rat_log2 :: "rat \<Rightarrow> int" where
  "rat_log2 x =
     (let (p, q) = quotient_of x;
          b = int (floorlog 2 (nat p)) - int (floorlog 2 (nat q))
      in if pow2 b \<le> x then b else b - 1)"

lemma rat_log2_bounds:
  assumes "0 < x"
  shows "pow2 (rat_log2 x) \<le> x" "x < pow2 (rat_log2 x + 1)"
proof -
  obtain p q where pq: "quotient_of x = (p, q)" by fastforce
  have q: "0 < q" using pq by (rule quotient_of_denom_pos)
  have x: "x = of_int p / of_int q" using pq by (rule quotient_of_div)
  with assms q have p: "0 < p" by (simp add: zero_less_divide_iff)
  define m n where "m = nat p" and "n = nat q"
  have mn: "0 < m" "0 < n" "x = of_nat m / of_nat n"
    using p q x by (simp_all add: m_def n_def)
  define a c where "a = floorlog 2 m" and "c = floorlog 2 n"
  have pos: "0 < a" "0 < c"
    using mn by (auto simp: a_def c_def floorlog_eq_zero_iff intro: gr0I)
  have "2 ^ (a - 1) \<le> m" "m < 2 ^ a" "2 ^ (c - 1) \<le> n" "n < 2 ^ c"
    using floorlog_bounds [of m 2] floorlog_bounds [of n 2] mn by (simp_all add: a_def c_def)
  then have b: "2 ^ (a - 1) \<le> (of_nat m :: rat)" "(of_nat m :: rat) < 2 ^ a"
    "2 ^ (c - 1) \<le> (of_nat n :: rat)" "(of_nat n :: rat) < 2 ^ c"
    by (metis of_nat_le_iff of_nat_less_iff of_nat_numeral of_nat_power)+
  let ?b = "int a - int c"
  have pb: "pow2 ?b = 2 ^ a / 2 ^ c"
    using pow2_diff_nat [of "int a" c] by simp
  have a1: "(2 :: rat) ^ a = 2 * 2 ^ (a - 1)" using pos(1) by (cases a) simp_all
  have c1: "(2 :: rat) ^ c = 2 * 2 ^ (c - 1)" using pos(2) by (cases c) simp_all
  have lower: "pow2 ?b / 2 \<le> x"
  proof -
    have "pow2 ?b / 2 = 2 ^ (a - 1) / 2 ^ c" by (simp add: pb a1)
    also have "\<dots> \<le> of_nat m / of_nat n" using b mn by (intro frac_le) simp_all
    finally show ?thesis using mn by simp
  qed
  have upper: "x < 2 * pow2 ?b"
  proof -
    have "x < 2 ^ a / 2 ^ (c - 1)" unfolding mn(3) using b mn by (intro frac_less) simp_all
    also have "\<dots> = 2 * pow2 ?b" by (simp add: pb c1)
    finally show ?thesis .
  qed
  have log: "rat_log2 x = (if pow2 ?b \<le> x then ?b else ?b - 1)"
    by (simp add: rat_log2_def pq a_def c_def m_def n_def)
  have half: "pow2 (?b - 1) = pow2 ?b / 2"
    using pow2_Suc [of "?b - 1"] by simp
  show "pow2 (rat_log2 x) \<le> x"
    using lower half by (simp add: log)
  show "x < pow2 (rat_log2 x + 1)"
    using upper half by (simp add: log pow2_Suc)
qed

lemma pow2_less_imp: "pow2 e < pow2 f \<Longrightarrow> e < f"
  using pow2_mono [of f e] by (meson leD linorder_le_less_linear)

lemma rat_log2_mono:
  assumes "0 < x" and "x \<le> y"
  shows "rat_log2 x \<le> rat_log2 y"
proof -
  have "pow2 (rat_log2 x) < pow2 (rat_log2 y + 1)"
    using rat_log2_bounds(1) [OF assms(1)] rat_log2_bounds(2) [of y] assms by linarith
  then show ?thesis using pow2_less_imp by fastforce
qed

section \<open>The values and their rounding\<close>

datatype f64 = Fin rat | Infinite | NegInfinite | NaN

definition ulp_exp :: "rat \<Rightarrow> int" where
  "ulp_exp x = max (rat_log2 x - 52) (-1074)"

text \<open>The nearest multiple of the unit in the last place, for a positive argument.\<close>

definition round_pos :: "rat \<Rightarrow> rat" where
  "round_pos x = of_int (round_even (x / pow2 (ulp_exp x))) * pow2 (ulp_exp x)"

definition f64_round :: "rat \<Rightarrow> f64" where
  "f64_round x =
     (if x = 0 then Fin 0
      else if 0 < x then (if pow2 1024 \<le> round_pos x then Infinite else Fin (round_pos x))
      else (if pow2 1024 \<le> round_pos (- x) then NegInfinite else Fin (- round_pos (- x))))"

lemma round_pos_nonneg: "0 < x \<Longrightarrow> 0 \<le> round_pos x"
  using round_even_ge [of 0 "x / pow2 (ulp_exp x)"]
  unfolding round_pos_def by (intro mult_nonneg_nonneg) simp_all

lemma round_pos_mono:
  assumes "0 < x" and "x \<le> y"
  shows "round_pos x \<le> round_pos y"
proof (cases "ulp_exp x = ulp_exp y")
  case True
  have "x / pow2 (ulp_exp y) \<le> y / pow2 (ulp_exp y)"
    using assms(2) by (rule divide_right_mono) simp
  then have "round_even (x / pow2 (ulp_exp y)) \<le> round_even (y / pow2 (ulp_exp y))"
    by (rule round_even_mono)
  then show ?thesis by (simp add: round_pos_def True mult_right_mono)
next
  case False
  let ?e = "ulp_exp x" and ?f = "ulp_exp y"
  have "rat_log2 x \<le> rat_log2 y" using assms by (rule rat_log2_mono)
  with False have less: "?e + 1 \<le> ?f" and f: "?f = rat_log2 y - 52"
    by (auto simp: ulp_exp_def)
  have "x < pow2 (rat_log2 x + 1)" using assms(1) by (rule rat_log2_bounds)
  also have "\<dots> \<le> pow2 (?e + int 53)" by (intro pow2_mono) (simp add: ulp_exp_def)
  also have "\<dots> = pow2 ?e * 2 ^ 53" by (rule pow2_add_nat)
  finally have "x / pow2 ?e \<le> of_int (2 ^ 53)" by (simp add: field_simps)
  then have "round_even (x / pow2 ?e) \<le> 2 ^ 53" by (rule round_even_le)
  then have "of_int (round_even (x / pow2 ?e)) \<le> (of_int (2 ^ 53) :: rat)"
    by (simp only: of_int_le_iff)
  then have "round_pos x \<le> 2 ^ 53 * pow2 ?e"
    unfolding round_pos_def by (intro mult_right_mono) simp_all
  also have "\<dots> = 2 ^ 52 * pow2 (?e + 1)" by (simp add: pow2_Suc)
  also have "\<dots> \<le> 2 ^ 52 * pow2 ?f" using less by (simp add: pow2_mono)
  also have "\<dots> \<le> round_pos y"
  proof -
    have "pow2 (rat_log2 y) = pow2 ?f * 2 ^ 52"
      using pow2_add_nat [of ?f 52] f by simp
    with rat_log2_bounds(1) [of y] assms have "of_int (2 ^ 52) \<le> y / pow2 ?f"
      by (simp add: field_simps)
    then have "2 ^ 52 \<le> round_even (y / pow2 ?f)" by (rule round_even_ge)
    then have "(of_int (2 ^ 52) :: rat) \<le> of_int (round_even (y / pow2 ?f))"
      by (simp only: of_int_le_iff)
    then show ?thesis unfolding round_pos_def by (intro mult_right_mono) simp_all
  qed
  finally show ?thesis .
qed

text \<open>Multiples of a unit that is not below the last place are exact.\<close>

lemma round_pos_exact:
  assumes "x = of_int n * pow2 k" and "ulp_exp x \<le> k"
  shows "round_pos x = x"
proof -
  have "pow2 k = pow2 (ulp_exp x) * 2 ^ nat (k - ulp_exp x)"
    using pow2_add_nat [of "ulp_exp x" "nat (k - ulp_exp x)"] assms(2) by simp
  with assms(1) have "x / pow2 (ulp_exp x) = of_int (n * 2 ^ nat (k - ulp_exp x))"
    by (simp add: field_simps)
  then have "round_even (x / pow2 (ulp_exp x)) = n * 2 ^ nat (k - ulp_exp x)"
    by (simp only: round_even_of_int)
  with \<open>x / pow2 (ulp_exp x) = _\<close> show ?thesis
    unfolding round_pos_def by (metis nonzero_divide_eq_eq pow2_neq_0)
qed

text \<open>IEEE comparisons; every one is false on a NaN.\<close>

fun f64_le :: "f64 \<Rightarrow> f64 \<Rightarrow> bool" where
  "f64_le NaN _ = False"
| "f64_le _ NaN = False"
| "f64_le NegInfinite _ = True"
| "f64_le _ Infinite = True"
| "f64_le (Fin a) (Fin b) = (a \<le> b)"
| "f64_le _ _ = False"

definition f64_lt :: "f64 \<Rightarrow> f64 \<Rightarrow> bool" where
  "f64_lt a b \<longleftrightarrow> f64_le a b \<and> a \<noteq> b"

lemma f64_lt_Fin [simp]: "f64_lt (Fin a) (Fin b) \<longleftrightarrow> a < b"
  by (auto simp: f64_lt_def)

lemma f64_le_antisym: "f64_le a b \<Longrightarrow> f64_le b a \<Longrightarrow> a = b"
  by (cases a; cases b) auto

lemma f64_round_sign:
  "0 \<le> x \<Longrightarrow> f64_le (Fin 0) (f64_round x)"
  "x \<le> 0 \<Longrightarrow> f64_le (f64_round x) (Fin 0)"
  using round_pos_nonneg [of x] round_pos_nonneg [of "- x"] by (auto simp: f64_round_def)

lemma f64_le_trans_zero: "f64_le x (Fin 0) \<Longrightarrow> f64_le (Fin 0) y \<Longrightarrow> f64_le x y"
  by (cases x; cases y) auto

lemma f64_round_mono:
  assumes "x \<le> y"
  shows "f64_le (f64_round x) (f64_round y)"
proof -
  consider "0 < x" | "y < 0" | "x \<le> 0" "0 \<le> y" by linarith
  then show ?thesis
  proof cases
    case 1
    with assms round_pos_mono [of x y] show ?thesis by (auto simp: f64_round_def)
  next
    case 2
    with assms round_pos_mono [of "- y" "- x"] show ?thesis by (auto simp: f64_round_def)
  next
    case 3
    then show ?thesis
      by (rule f64_le_trans_zero [OF f64_round_sign(2) f64_round_sign(1)])
  qed
qed

text \<open>Integers of at most 53 bits are exact.\<close>

lemma f64_round_int:
  assumes "\<bar>n\<bar> \<le> 2 ^ 53"
  shows "f64_round (of_int n) = Fin (of_int n)"
proof -
  have exact: "round_pos (of_int k) = of_int k" if "0 < k" "k \<le> 2 ^ 53" for k :: int
  proof (cases "k = 2 ^ 53")
    case True
    have log: "rat_log2 (of_int k) < 54"
    proof -
      have "pow2 (rat_log2 (of_int k)) \<le> of_int k" using that by (intro rat_log2_bounds) simp
      also have "\<dots> < pow2 54" using True by (simp add: pow2_def)
      finally show ?thesis by (rule pow2_less_imp)
    qed
    show ?thesis
      by (rule round_pos_exact [of _ 1 53]) (use True log in \<open>simp_all add: pow2_def ulp_exp_def\<close>)
  next
    case False
    have "rat_log2 (of_int k) < 53"
    proof -
      have "pow2 (rat_log2 (of_int k)) \<le> of_int k" using that by (intro rat_log2_bounds) simp
      also have "\<dots> < of_int (2 ^ 53)" using False that by (simp only: of_int_less_iff)
      also have "\<dots> = pow2 53" by (simp add: pow2_def)
      finally show ?thesis by (rule pow2_less_imp)
    qed
    then show ?thesis
      by (intro round_pos_exact [of _ k 0]) (simp_all add: pow2_def ulp_exp_def)
  qed
  have small: "(of_int k :: rat) < pow2 1024" if "k \<le> 2 ^ 53" for k :: int
  proof -
    have "(of_int k :: rat) \<le> of_int (2 ^ 53)" using that by (simp only: of_int_le_iff)
    also have "\<dots> = pow2 53" by (simp add: pow2_def)
    also have "\<dots> < pow2 1024" by (simp add: pow2_def)
    finally show ?thesis .
  qed
  show ?thesis
    using exact [of n] exact [of "- n"] small [of n] small [of "- n"] assms
    by (auto simp: f64_round_def not_le)
qed

section \<open>Arithmetic and casts\<close>

text \<open>Only the operand kinds the sources can produce are given a value other than NaN's rules.\<close>

definition f64_of_nat :: "nat \<Rightarrow> f64" where
  "f64_of_nat n = f64_round (of_nat n)"

definition f64_of_int :: "int \<Rightarrow> f64" where
  "f64_of_int n = f64_round (of_int n)"

definition f64_neg_inf :: "bool \<Rightarrow> f64" where
  "f64_neg_inf neg = (if neg then NegInfinite else Infinite)"

fun f64_sign :: "f64 \<Rightarrow> rat" where
  "f64_sign (Fin a) = sgn a"
| "f64_sign Infinite = 1"
| "f64_sign NegInfinite = -1"
| "f64_sign NaN = 0"

definition f64_mul :: "f64 \<Rightarrow> f64 \<Rightarrow> f64" where
  "f64_mul x y =
     (case (x, y) of
        (Fin a, Fin b) \<Rightarrow> f64_round (a * b)
      | (NaN, _) \<Rightarrow> NaN
      | (_, NaN) \<Rightarrow> NaN
      | _ \<Rightarrow> (let s = f64_sign x * f64_sign y in
              if s = 0 then NaN else if 0 < s then Infinite else NegInfinite))"

text \<open>Division of non-negative operands, by a zero of positive sign included.\<close>

definition f64_div :: "f64 \<Rightarrow> f64 \<Rightarrow> f64" where
  "f64_div x y =
     (case (x, y) of
        (Fin a, Fin b) \<Rightarrow>
          if b \<noteq> 0 then f64_round (a / b)
          else if a = 0 then NaN else if 0 < a then Infinite else NegInfinite
      | (NaN, _) \<Rightarrow> NaN
      | (_, NaN) \<Rightarrow> NaN
      | (Fin a, _) \<Rightarrow> Fin 0
      | (_, Fin b) \<Rightarrow> (if 0 \<le> b then x else if x = Infinite then NegInfinite else Infinite)
      | _ \<Rightarrow> NaN)"

definition f64_add :: "f64 \<Rightarrow> f64 \<Rightarrow> f64" where
  "f64_add x y =
     (case (x, y) of
        (Fin a, Fin b) \<Rightarrow> f64_round (a + b)
      | (NaN, _) \<Rightarrow> NaN
      | (_, NaN) \<Rightarrow> NaN
      | (Fin a, _) \<Rightarrow> y
      | (_, Fin b) \<Rightarrow> x
      | _ \<Rightarrow> (if x = y then x else NaN))"

fun f64_neg :: "f64 \<Rightarrow> f64" where
  "f64_neg (Fin a) = Fin (- a)"
| "f64_neg Infinite = NegInfinite"
| "f64_neg NegInfinite = Infinite"
| "f64_neg NaN = NaN"

definition f64_sub :: "f64 \<Rightarrow> f64 \<Rightarrow> f64" where
  "f64_sub x y = f64_add x (f64_neg y)"

text \<open>\<open>f64::min\<close> returns the other operand when one is NaN.\<close>

definition f64_min :: "f64 \<Rightarrow> f64 \<Rightarrow> f64" where
  "f64_min x y = (if x = NaN then y else if y = NaN then x else if f64_le x y then x else y)"

text \<open>The cast \<open>as u64\<close> or \<open>as usize\<close>: truncation, saturating at the ends, NaN to zero.\<close>

fun f64_to_u64 :: "f64 \<Rightarrow> nat" where
  "f64_to_u64 (Fin a) = (if a < 0 then 0 else min (nat \<lfloor>a\<rfloor>) (2 ^ 64 - 1))"
| "f64_to_u64 Infinite = 2 ^ 64 - 1"
| "f64_to_u64 NegInfinite = 0"
| "f64_to_u64 NaN = 0"

lemma f64_of_nat_exact: "n \<le> 2 ^ 53 \<Longrightarrow> f64_of_nat n = Fin (of_nat n)"
  using f64_round_int [of "int n"] by (simp add: f64_of_nat_def)

lemma f64_of_nat_mono: "m \<le> n \<Longrightarrow> f64_le (f64_of_nat m) (f64_of_nat n)"
  by (simp add: f64_of_nat_def f64_round_mono)

lemma f64_to_u64_mono: "f64_le x y \<Longrightarrow> f64_to_u64 x \<le> f64_to_u64 y"
proof (cases x; cases y)
  fix a b assume "f64_le x y" "x = Fin a" "y = Fin b"
  then have "nat \<lfloor>a\<rfloor> \<le> nat \<lfloor>b\<rfloor>" by (intro nat_mono floor_mono) simp
  with \<open>x = Fin a\<close> \<open>y = Fin b\<close> \<open>f64_le x y\<close> show ?thesis by (auto simp: min_def)
qed auto

lemma f64_to_u64_bound: "f64_to_u64 x < 2 ^ 64"
  by (cases x) auto

lemma f64_round_between:
  assumes "0 \<le> x" and "x \<le> of_nat n" and "n \<le> 2 ^ 53"
  obtains a where "f64_round x = Fin a" and "0 \<le> a" and "a \<le> of_nat n"
proof -
  from assms f64_round_mono [of x "of_nat n"] f64_of_nat_exact [of n]
  have "f64_le (f64_round x) (Fin (of_nat n))" by (simp add: f64_of_nat_def)
  moreover from assms have "f64_le (Fin 0) (f64_round x)" by (simp add: f64_round_sign)
  ultimately show ?thesis using that by (cases "f64_round x") auto
qed

lemma f64_round_ge_int:
  assumes "of_nat n \<le> x" and "n \<le> 2 ^ 53"
  shows "f64_le (Fin (of_nat n)) (f64_round x)"
  using f64_round_mono [OF assms(1)] f64_of_nat_exact [OF assms(2)] by (simp add: f64_of_nat_def)

end
