(* ===== verification/Retry.thy ===== *)
theory Retry
  imports Models F64
begin

text \<open>
  Retrying: \<open>with_retry\<close>, its configuration and the error classification of
  \<open>src/error/retry.rs\<close>, and the exponential backoff and retry manager of
  \<open>src/recovery/retry_v2.rs\<close> (\<open>src/recovery/retry.rs\<close> is an unexported copy of it).

  The operation is the function \<open>op\<close> from the number of the attempt to its result, the
  random choices are functions of the attempt as well, and a run returns the result with the
  list of the delays slept. A panic of \<open>Duration::mul_f64\<close> is \<open>None\<close>.
\<close>

section \<open>Classification of errors\<close>

fun io_is_retryable :: "io_kind \<Rightarrow> bool" where
  "io_is_retryable OtherKind = False"
| "io_is_retryable _ = True"

fun error_is_retryable :: "error \<Rightarrow> bool" where
  "error_is_retryable (Io _ _) = True"
| "error_is_retryable (Database _) = True"
| "error_is_retryable (Meilisearch msg) =
     (str_contains msg ''timeout'' \<or> str_contains msg ''connection'' \<or>
      str_contains msg ''unavailable'' \<or> str_contains msg ''Too Many Requests'')"
| "error_is_retryable (Configuration _) = False"
| "error_is_retryable (Validation _) = False"
| "error_is_retryable _ = False"

text \<open>
  What the classification reads of a \<open>tokio_postgres::Error\<close>: its SQLSTATE, whether the
  connection is closed, and the kind of an underlying I/O error.
\<close>

record pg_error =
  pe_code :: "string option"
  pe_is_closed :: bool
  pe_io_source :: "io_kind option"

text \<open>
  \<open>CONNECTION_EXCEPTION\<close>, \<open>CONNECTION_DOES_NOT_EXIST\<close>, \<open>CONNECTION_FAILURE\<close>,
  \<open>SQLCLIENT_UNABLE_TO_ESTABLISH_SQLCONNECTION\<close>, \<open>TRANSACTION_ROLLBACK\<close>,
  \<open>LOCK_NOT_AVAILABLE\<close>, \<open>T_R_DEADLOCK_DETECTED\<close> and \<open>T_R_SERIALIZATION_FAILURE\<close>.
\<close>

definition retryable_sql_states :: "string list" where
  "retryable_sql_states =
     [''08000'', ''08003'', ''08006'', ''08001'', ''40000'', ''55P03'', ''40P01'', ''40001'']"

definition pg_is_retryable :: "pg_error \<Rightarrow> bool" where
  "pg_is_retryable e =
     (case pe_code e of
        Some code \<Rightarrow> code \<in> set retryable_sql_states
      | None \<Rightarrow>
          if pe_is_closed e then True
          else (case pe_io_source e of
                  None \<Rightarrow> False
                | Some kind \<Rightarrow> kind \<in> {ConnectionRefused, ConnectionReset, ConnectionAborted,
                    NotConnected, BrokenPipe, TimedOut, Interrupted, UnexpectedEof}))"

section \<open>\<open>with_retry\<close>\<close>

record retry_config =
  rc_max_retries :: nat
  rc_initial_delay_ms :: nat
  rc_max_delay_ms :: nat
  rc_multiplier :: f64
  rc_jitter :: bool

definition retry_config_default :: retry_config where
  "retry_config_default =
     \<lparr>rc_max_retries = 3, rc_initial_delay_ms = 1000, rc_max_delay_ms = 60000,
      rc_multiplier = Fin 2, rc_jitter = True\<rparr>"

text \<open>\<open>delay_ms.saturating_add(jitter)\<close>, with the random \<open>jitter\<close> drawn from \<open>0..=delay_ms / 4\<close>.\<close>

definition jittered_ms :: "retry_config \<Rightarrow> nat \<Rightarrow> nat \<Rightarrow> nat" where
  "jittered_ms config jitter delay_ms =
     (if rc_jitter config then min (delay_ms + min jitter (delay_ms div 4)) (2 ^ 64 - 1)
      else delay_ms)"

definition next_delay_ms :: "retry_config \<Rightarrow> nat \<Rightarrow> nat" where
  "next_delay_ms config delay_ms =
     (let d = f64_to_u64 (f64_mul (f64_of_nat delay_ms) (rc_multiplier config))
      in if d > rc_max_delay_ms config then rc_max_delay_ms config else d)"

function with_retry_loop ::
  "retry_config \<Rightarrow> ('e \<Rightarrow> bool) \<Rightarrow> ('e \<Rightarrow> error) \<Rightarrow> (nat \<Rightarrow> 'e + 'a) \<Rightarrow> (nat \<Rightarrow> nat) \<Rightarrow>
     nat \<Rightarrow> nat \<Rightarrow> 'a result \<times> nat list" where
  "with_retry_loop config retryable into op jit attempt delay_ms =
     (case op attempt of
        Inr x \<Rightarrow> (Inr x, [])
      | Inl err \<Rightarrow>
          if \<not> retryable err \<or> attempt \<ge> rc_max_retries config then (Inl (into err), [])
          else
            (let actual_delay = jittered_ms config (jit attempt) delay_ms;
                 (r, slept) = with_retry_loop config retryable into op jit (attempt + 1)
                                (next_delay_ms config delay_ms)
             in (r, actual_delay # slept)))"
  by pat_completeness auto
termination
  by (relation "measure (\<lambda>(config, retryable, into, op, jit, attempt, delay_ms).
        rc_max_retries config - attempt)") auto

declare with_retry_loop.simps [simp del]

definition with_retry ::
  "retry_config \<Rightarrow> ('e \<Rightarrow> bool) \<Rightarrow> ('e \<Rightarrow> error) \<Rightarrow> (nat \<Rightarrow> 'e + 'a) \<Rightarrow> (nat \<Rightarrow> nat) \<Rightarrow>
     'a result \<times> nat list" where
  "with_retry config retryable into op jit =
     with_retry_loop config retryable into op jit 0 (rc_initial_delay_ms config)"

datatype retry_mode = NoRetry | DefaultRetry | CustomRetry retry_config

fun retry_mode_config :: "retry_mode \<Rightarrow> retry_config option" where
  "retry_mode_config NoRetry = None"
| "retry_mode_config DefaultRetry = Some retry_config_default"
| "retry_mode_config (CustomRetry config) = Some config"

section \<open>Exponential backoff\<close>

record retry_policy =
  rp_max_retries :: u32
  rp_initial_delay :: duration
  rp_max_delay :: duration
  rp_multiplier :: f64
  rp_jitter :: bool

definition retry_policy_new :: retry_policy where
  "retry_policy_new =
     \<lparr>rp_max_retries = 3, rp_initial_delay = millis 100, rp_max_delay = secs 60,
      rp_multiplier = Fin 2, rp_jitter = True\<rparr>"

definition policy_fast :: retry_policy where
  "policy_fast = retry_policy_new\<lparr>rp_max_retries := 3, rp_initial_delay := millis 50,
     rp_max_delay := secs 1, rp_multiplier := Fin 2\<rparr>"

definition policy_standard :: retry_policy where
  "policy_standard = retry_policy_new\<lparr>rp_max_retries := 5, rp_initial_delay := millis 100,
     rp_max_delay := secs 30, rp_multiplier := Fin 2\<rparr>"

definition policy_rate_limited :: retry_policy where
  "policy_rate_limited = retry_policy_new\<lparr>rp_max_retries := 10, rp_initial_delay := secs 1,
     rp_max_delay := secs 300, rp_multiplier := Fin (3 / 2)\<rparr>"

definition policy_aggressive :: retry_policy where
  "policy_aggressive = retry_policy_new\<lparr>rp_max_retries := 20, rp_initial_delay := millis 100,
     rp_max_delay := secs 60, rp_multiplier := Fin (3 / 2), rp_jitter := True\<rparr>"

text \<open>
  \<open>Duration::mul_f64\<close>: the seconds as a float, times the factor, rounded to the nearest
  nanosecond; it panics when the product is negative, not finite or needs more than 64 bits
  of seconds.
\<close>

definition as_secs_f64 :: "duration \<Rightarrow> f64" where
  "as_secs_f64 d =
     f64_add (f64_of_nat (d div 1000000000))
       (f64_div (f64_of_nat (d mod 1000000000)) (f64_of_nat 1000000000))"

definition from_secs_f64 :: "f64 \<Rightarrow> duration option" where
  "from_secs_f64 s =
     (case s of
        Fin a \<Rightarrow>
          if a < 0 then None
          else (let ns = round_even (a * 1000000000)
                in if ns < 2 ^ 64 * 1000000000 then Some (nat ns) else None)
      | _ \<Rightarrow> None)"

definition duration_mul_f64 :: "duration \<Rightarrow> f64 \<Rightarrow> duration option" where
  "duration_mul_f64 d m = from_secs_f64 (f64_mul m (as_secs_f64 d))"

record backoff =
  bo_policy :: retry_policy
  bo_current_retry :: u32
  bo_current_delay :: duration

definition backoff_new :: "retry_policy \<Rightarrow> backoff" where
  "backoff_new policy =
     \<lparr>bo_policy = policy, bo_current_retry = 0, bo_current_delay = rp_initial_delay policy\<rparr>"

definition backoff_reset :: "backoff \<Rightarrow> backoff" where
  "backoff_reset b = b\<lparr>bo_current_retry := 0, bo_current_delay := rp_initial_delay (bo_policy b)\<rparr>"

definition backoff_next_delay :: "f64 \<Rightarrow> backoff \<Rightarrow> (duration option \<times> backoff) option" where
  "backoff_next_delay jitter_factor b =
     (if bo_current_retry b \<ge> rp_max_retries (bo_policy b) then Some (None, b)
      else
        (case (if rp_jitter (bo_policy b) then duration_mul_f64 (bo_current_delay b) jitter_factor
               else Some (bo_current_delay b)) of
           None \<Rightarrow> None
         | Some delay \<Rightarrow>
             (case duration_mul_f64 (bo_current_delay b) (rp_multiplier (bo_policy b)) of
                None \<Rightarrow> None
              | Some next \<Rightarrow>
                  Some (Some delay,
                    b\<lparr>bo_current_retry := bo_current_retry b + 1,
                      bo_current_delay :=
                        (if next > rp_max_delay (bo_policy b) then rp_max_delay (bo_policy b)
                         else next)\<rparr>))))"

definition backoff_retries_remaining :: "backoff \<Rightarrow> u32" where
  "backoff_retries_remaining b =
     (if bo_current_retry b \<le> rp_max_retries (bo_policy b)
      then rp_max_retries (bo_policy b) - bo_current_retry b else 0)"

lemma u32_Suc_below: "(x :: u32) < y \<Longrightarrow> unat (x + 1) = Suc (unat x)"
  using unsigned_less [of y, where 'a = nat] by (simp add: word_less_nat_alt unat_word_ariths)

lemma backoff_next_delay_SomeE:
  assumes "backoff_next_delay j b = Some (Some d, b')"
  shows "unat (bo_current_retry b') = Suc (unat (bo_current_retry b))"
    and "unat (bo_current_retry b) < unat (rp_max_retries (bo_policy b))"
    and "bo_policy b' = bo_policy b"
  using assms u32_Suc_below [of "bo_current_retry b" "rp_max_retries (bo_policy b)"]
  by (auto simp: backoff_next_delay_def not_le word_less_nat_alt split: if_splits option.splits)

lemma backoff_next_delay_measure:
  "backoff_next_delay j b = Some (Some d, b') \<Longrightarrow>
     unat (rp_max_retries (bo_policy b')) - unat (bo_current_retry b') <
     unat (rp_max_retries (bo_policy b)) - unat (bo_current_retry b)"
  using backoff_next_delay_SomeE [of j b d b'] by simp

function conditional_retry_loop ::
  "(error \<Rightarrow> bool) \<Rightarrow> (nat \<Rightarrow> 'a result) \<Rightarrow> (nat \<Rightarrow> f64) \<Rightarrow> backoff \<Rightarrow>
     ('a result \<times> duration list) option" where
  "conditional_retry_loop should_retry op jit b =
     (case op (unat (bo_current_retry b)) of
        Inr x \<Rightarrow> Some (Inr x, [])
      | Inl err \<Rightarrow>
          if \<not> should_retry err then Some (Inl err, [])
          else
            (case backoff_next_delay (jit (unat (bo_current_retry b))) b of
               None \<Rightarrow> None
             | Some (None, b') \<Rightarrow> Some (Inl err, [])
             | Some (Some delay, b') \<Rightarrow>
                 map_option (\<lambda>(r, slept). (r, delay # slept))
                   (conditional_retry_loop should_retry op jit b')))"
  by pat_completeness auto
termination
  by (relation "measure (\<lambda>(should_retry, op, jit, b).
        unat (rp_max_retries (bo_policy b)) - unat (bo_current_retry b))")
    (auto dest: backoff_next_delay_measure)

declare conditional_retry_loop.simps [simp del]

definition execute_with_conditional_retry ::
  "retry_policy \<Rightarrow> (error \<Rightarrow> bool) \<Rightarrow> (nat \<Rightarrow> 'a result) \<Rightarrow> (nat \<Rightarrow> f64) \<Rightarrow>
     ('a result \<times> duration list) option" where
  "execute_with_conditional_retry policy should_retry op jit =
     conditional_retry_loop should_retry op jit (backoff_new policy)"

text \<open>\<open>execute_with_retry\<close> is the same loop without the test of the error.\<close>

definition execute_with_retry ::
  "retry_policy \<Rightarrow> (nat \<Rightarrow> 'a result) \<Rightarrow> (nat \<Rightarrow> f64) \<Rightarrow> ('a result \<times> duration list) option" where
  "execute_with_retry policy op jit =
     conditional_retry_loop (\<lambda>_. True) op jit (backoff_new policy)"

section \<open>The loop of \<open>with_retry\<close>\<close>

text \<open>The delay before jitter of the attempt \<open>i\<close>.\<close>

definition base_delay :: "retry_config \<Rightarrow> nat \<Rightarrow> nat \<Rightarrow> nat" where
  "base_delay config d i = (next_delay_ms config ^^ i) d"

lemma base_delay_0 [simp]: "base_delay config d 0 = d"
  by (simp add: base_delay_def)

lemma base_delay_Suc: "base_delay config d (Suc i) = base_delay config (next_delay_ms config d) i"
  by (simp add: base_delay_def funpow_swap1)

lemma base_delay_Suc_outer:
  "base_delay config d (Suc i) = next_delay_ms config (base_delay config d i)"
  by (simp add: base_delay_def)

lemma next_delay_ms_le: "next_delay_ms config d \<le> rc_max_delay_ms config"
  by (simp add: next_delay_ms_def Let_def)

lemma next_delay_ms_grows:
  assumes "rc_multiplier config = Fin m" and "1 \<le> m"
    and "d \<le> rc_max_delay_ms config" and "rc_max_delay_ms config \<le> 2 ^ 53"
  shows "d \<le> next_delay_ms config d"
proof -
  from assms have d: "d \<le> 2 ^ 53" by simp
  have "(of_nat d :: rat) * 1 \<le> of_nat d * m" by (rule mult_left_mono) (use assms in simp_all)
  then have "f64_le (Fin (of_nat d)) (f64_round (of_nat d * m))"
    using f64_round_ge_int [of d "of_nat d * m"] d by simp
  from f64_to_u64_mono [OF this] d
  have "d \<le> f64_to_u64 (f64_mul (f64_of_nat d) (rc_multiplier config))"
    by (simp add: assms(1) f64_of_nat_exact f64_mul_def min_def split: if_splits)
  with assms(3) show ?thesis by (simp add: next_delay_ms_def Let_def)
qed

lemma base_delay_grows:
  assumes "rc_multiplier config = Fin m" and "1 \<le> m"
    and "d \<le> rc_max_delay_ms config" and "rc_max_delay_ms config \<le> 2 ^ 53"
  shows "base_delay config d i \<le> base_delay config d (Suc i)"
proof -
  have "base_delay config d i \<le> rc_max_delay_ms config"
    using assms(3) by (cases i) (simp_all add: base_delay_Suc_outer next_delay_ms_le)
  with next_delay_ms_grows [OF assms(1,2) _ assms(4)] show ?thesis
    by (simp add: base_delay_Suc_outer)
qed

lemma with_retry_loop_outcome:
  assumes "with_retry_loop config retryable into op jit k d = (r, slept)"
    and "k \<le> rc_max_retries config"
  shows "k + length slept \<le> rc_max_retries config \<and>
     r = (case op (k + length slept) of Inr x \<Rightarrow> Inr x | Inl e \<Rightarrow> Inl (into e)) \<and>
     (\<forall>i < length slept. \<exists>e. op (k + i) = Inl e \<and> retryable e) \<and>
     ((\<exists>e. op (k + length slept) = Inl e \<and> retryable e) \<longrightarrow>
        k + length slept = rc_max_retries config) \<and>
     slept = map (\<lambda>i. jittered_ms config (jit (k + i)) (base_delay config d i)) [0..<length slept]"
  using assms
proof (induction config retryable into op jit k d arbitrary: r slept rule: with_retry_loop.induct)
  case (1 config retryable into op jit k d)
  show ?case
  proof (cases "\<exists>e. op k = Inl e \<and> retryable e \<and> k < rc_max_retries config")
    case False
    with 1(2,3) show ?thesis
      by (subst (asm) with_retry_loop.simps) (auto split: sum.splits if_splits)
  next
    case True
    then obtain e where e: "op k = Inl e" "retryable e" "k < rc_max_retries config" by blast
    obtain r' slept' where rec: "with_retry_loop config retryable into op jit (k + 1)
        (next_delay_ms config d) = (r', slept')" by fastforce
    with 1(2) e have out: "r = r'" "slept = jittered_ms config (jit k) d # slept'"
      by (simp_all add: with_retry_loop.simps [of config retryable into op jit k] Let_def)
    from 1(1) [OF e(1) _ refl rec] e
    have IH: "k + 1 + length slept' \<le> rc_max_retries config"
      "r' = (case op (k + 1 + length slept') of Inr x \<Rightarrow> Inr x | Inl e \<Rightarrow> Inl (into e))"
      "\<forall>i < length slept'. \<exists>e. op (k + 1 + i) = Inl e \<and> retryable e"
      "(\<exists>e. op (k + 1 + length slept') = Inl e \<and> retryable e) \<longrightarrow>
         k + 1 + length slept' = rc_max_retries config"
      "slept' = map (\<lambda>i. jittered_ms config (jit (k + 1 + i))
         (base_delay config (next_delay_ms config d) i)) [0..<length slept']"
      by auto
    have earlier: "\<exists>e. op (k + i) = Inl e \<and> retryable e" if "i < length slept" for i
      using that e IH(3) out(2) by (cases i) auto
    have "slept = map (\<lambda>i. jittered_ms config (jit (k + i)) (base_delay config d i))
        [0..<length slept]"
      unfolding out(2) by (subst IH(5)) (simp add: upt_conv_Cons map_Suc_upt [symmetric]
        base_delay_Suc o_def del: upt_Suc)
    with IH(1,2,4) earlier out show ?thesis by simp
  qed
qed


text \<open>Two failures and a success, with the default configuration and no random jitter.\<close>

definition two_failures :: "nat \<Rightarrow> error + nat" where
  "two_failures n = (if n < 2 then Inl (Database ''down'') else Inr n)"

lemma next_delay_ms_integral:
  assumes "rc_multiplier config = Fin (of_nat k)" and "k \<le> 2 ^ 53" and "d \<le> 2 ^ 53"
    and "d * k \<le> 2 ^ 53"
  shows "next_delay_ms config d = min (d * k) (rc_max_delay_ms config)"
proof -
  have "f64_mul (f64_of_nat d) (rc_multiplier config) = Fin (of_nat (d * k))"
    using f64_of_nat_exact [OF assms(4)] f64_of_nat_exact [OF assms(3)] assms(1)
    by (simp add: f64_of_nat_def f64_mul_def)
  moreover have "f64_to_u64 (Fin (of_nat (d * k))) = d * k"
    using assms(4) by (simp add: min_def floor_of_nat del: of_nat_mult)
  ultimately show ?thesis by (simp add: next_delay_ms_def Let_def min_def)
qed

lemma two_failures_run:
  "with_retry retry_config_default error_is_retryable (\<lambda>e. e) two_failures (\<lambda>_. 0) =
     (Inr 2, [1000, 2000])"
  using next_delay_ms_integral [of retry_config_default 2]
  by (simp add: with_retry_def with_retry_loop.simps two_failures_def
    retry_config_default_def jittered_ms_def)


text \<open>With a multiplier of at least one and a maximum below the 53 bits of a float, the
  delays of \<open>with_retry\<close> without jitter never decrease and never exceed the maximum.\<close>

theorem with_retry_delays_grow_and_cap:
  assumes "with_retry config retryable into op jit = (r, slept)"
    and "rc_multiplier config = Fin m" and "1 \<le> m" and "\<not> rc_jitter config"
    and "rc_initial_delay_ms config \<le> rc_max_delay_ms config"
    and "rc_max_delay_ms config \<le> 2 ^ 53"
  shows "sorted slept \<and> (\<forall>d \<in> set slept. rc_initial_delay_ms config \<le> d \<and>
     d \<le> rc_max_delay_ms config)"
proof -
  let ?d = "rc_initial_delay_ms config" and ?n = "length slept"
  have slept: "slept = map (base_delay config ?d) [0..<?n]"
    using with_retry_loop_outcome [of config retryable into op jit 0 ?d r slept] assms(1,4)
    by (simp add: with_retry_def jittered_ms_def)
  have mono: "base_delay config ?d i \<le> base_delay config ?d j" if "i \<le> j" for i j
    using that lift_Suc_mono_le [of "base_delay config ?d"] base_delay_grows [OF assms(2,3,5,6)]
    by blast
  have "base_delay config ?d i \<le> rc_max_delay_ms config" for i
    using assms(5) by (cases i) (simp_all add: base_delay_Suc_outer next_delay_ms_le)
  moreover have "sorted (map (base_delay config ?d) [0..<?n])"
    by (simp add: sorted_iff_nth_mono mono)
  ultimately show ?thesis using mono [of 0] slept by (metis (no_types, lifting)
    base_delay_0 ex_map_conv le0)
qed

definition no_jitter_config :: retry_config where
  "no_jitter_config = retry_config_default\<lparr>rc_jitter := False, rc_max_delay_ms := 1500\<rparr>"

lemma no_jitter_run:
  "with_retry no_jitter_config error_is_retryable (\<lambda>e. e) two_failures (\<lambda>_. 0) =
     (Inr 2, [1000, 1500])"
  using next_delay_ms_integral [of no_jitter_config 2]
  by (simp add: with_retry_def with_retry_loop.simps two_failures_def
    no_jitter_config_def retry_config_default_def jittered_ms_def)

theorem with_retry_delays_grow_and_cap_witness:
  "sorted [1000::nat, 1500] \<and> rc_initial_delay_ms no_jitter_config \<le> 1000 \<and>
     1500 \<le> rc_max_delay_ms no_jitter_config"
  using with_retry_delays_grow_and_cap [OF no_jitter_run, of 2]
  by (simp add: no_jitter_config_def retry_config_default_def)

section \<open>The loop of the retry manager\<close>

lemma as_secs_f64_bound:
  assumes "d \<le> secs 1000000000"
  obtains a where "as_secs_f64 d = Fin a" and "0 \<le> a" and "a \<le> 1000000001"
proof -
  have q: "f64_of_nat (d div 1000000000) = Fin (of_nat (d div 1000000000))"
    using assms by (intro f64_of_nat_exact) (simp add: secs_def)
  have m: "f64_of_nat (d mod 1000000000) = Fin (of_nat (d mod 1000000000))"
    by (rule f64_of_nat_exact, rule order_trans [of _ 1000000000])
      (use mod_less_divisor [of 1000000000 d] in simp_all)
  have g: "f64_of_nat 1000000000 = Fin 1000000000"
    using f64_of_nat_exact [of 1000000000] by simp
  have "(of_nat (d mod 1000000000) :: rat) \<le> of_nat 1000000000"
    unfolding of_nat_le_iff using mod_less_divisor [of 1000000000 d] by linarith
  then obtain b where b: "f64_round (of_nat (d mod 1000000000) / 1000000000) = Fin b" "0 \<le> b" "b \<le> 1"
    using f64_round_between [of "of_nat (d mod 1000000000) / 1000000000" 1]
    by (auto simp: divide_le_eq)
  have "d div 1000000000 \<le> 1000000000" using assms by (simp add: secs_def)
  then have "(of_nat (d div 1000000000) :: rat) \<le> 1000000000"
    using of_nat_le_iff [of "d div 1000000000" 1000000000, where 'a = rat] by simp
  with b obtain a where "f64_round (of_nat (d div 1000000000) + b) = Fin a" "0 \<le> a" "a \<le> 1000000001"
    using f64_round_between [of "of_nat (d div 1000000000) + b" 1000000001] by auto
  with b that show ?thesis by (simp add: as_secs_f64_def q m g f64_div_def f64_add_def)
qed

lemma duration_mul_f64_defined:
  assumes "d \<le> secs 1000000000" and "0 \<le> m" and "m \<le> 1000"
  shows "\<exists>d'. duration_mul_f64 d (Fin m) = Some d'"
proof -
  obtain a where a: "as_secs_f64 d = Fin a" "0 \<le> a" "a \<le> 1000000001"
    using as_secs_f64_bound [OF assms(1)] .
  have "m * a \<le> 1000 * 1000000001" using assms a by (intro mult_mono) auto
  with a assms obtain b where b: "f64_round (m * a) = Fin b" "0 \<le> b" "b \<le> 1000000001000"
    using f64_round_between [of "m * a" 1000000001000] by auto
  have "round_even (b * 1000000000) \<le> 1000000001000 * 1000000000"
    by (rule round_even_le) (use b in simp)
  with a b show ?thesis by (simp add: duration_mul_f64_def f64_mul_def from_secs_f64_def Let_def)
qed

text \<open>
  A policy under which \<open>Duration::mul_f64\<close> cannot panic: delays of at most a billion seconds
  and a multiplier between 0 and 1000. The random factor is drawn from \<open>0.5..1.5\<close>.
\<close>

definition policy_sane :: "retry_policy \<Rightarrow> bool" where
  "policy_sane p \<longleftrightarrow>
     rp_initial_delay p \<le> secs 1000000000 \<and> rp_max_delay p \<le> secs 1000000000 \<and>
     (case rp_multiplier p of Fin m \<Rightarrow> 0 \<le> m \<and> m \<le> 1000 | _ \<Rightarrow> False)"

definition jitter_factor_ok :: "f64 \<Rightarrow> bool" where
  "jitter_factor_ok j = (case j of Fin a \<Rightarrow> 1 / 2 \<le> a \<and> a < 3 / 2 | _ \<Rightarrow> False)"

lemma backoff_next_delay_defined:
  assumes "policy_sane (bo_policy b)" and "jitter_factor_ok j"
    and "bo_current_delay b \<le> secs 1000000000"
  shows "\<exists>d b'. backoff_next_delay j b = Some (d, b') \<and> bo_policy b' = bo_policy b \<and>
     bo_current_delay b' \<le> secs 1000000000"
proof -
  obtain m where m: "rp_multiplier (bo_policy b) = Fin m" "0 \<le> m" "m \<le> 1000"
    using assms(1) by (auto simp: policy_sane_def split: f64.splits)
  obtain a where a: "j = Fin a" "0 \<le> a" "a \<le> 1000"
    using assms(2) by (cases j) (auto simp: jitter_factor_ok_def)
  from m a assms obtain d1 d2
    where "duration_mul_f64 (bo_current_delay b) (rp_multiplier (bo_policy b)) = Some d1"
      "duration_mul_f64 (bo_current_delay b) j = Some d2"
    by (metis duration_mul_f64_defined)
  with assms show ?thesis by (auto simp: backoff_next_delay_def policy_sane_def)
qed

lemma conditional_retry_loop_outcome:
  assumes "policy_sane (bo_policy b)" and "\<And>i. jitter_factor_ok (jit i)"
    and "bo_current_delay b \<le> secs 1000000000"
    and "unat (bo_current_retry b) \<le> unat (rp_max_retries (bo_policy b))"
  shows "\<exists>n. (\<exists>slept. conditional_retry_loop should_retry op jit b =
         Some (op (unat (bo_current_retry b) + n), slept) \<and> length slept = n) \<and>
     unat (bo_current_retry b) + n \<le> unat (rp_max_retries (bo_policy b)) \<and>
     (\<forall>i < n. \<exists>e. op (unat (bo_current_retry b) + i) = Inl e \<and> should_retry e) \<and>
     ((\<exists>e. op (unat (bo_current_retry b) + n) = Inl e \<and> should_retry e) \<longrightarrow>
        unat (bo_current_retry b) + n = unat (rp_max_retries (bo_policy b)))"
  using assms
proof (induction should_retry op jit b rule: conditional_retry_loop.induct)
  case (1 should_retry op jit b)
  let ?k = "unat (bo_current_retry b)"
  show ?case
  proof (cases "\<exists>e. op ?k = Inl e \<and> should_retry e")
    case False
    then show ?thesis using 1(5)
      by (intro exI [of _ 0]) (auto simp: conditional_retry_loop.simps [of _ _ _ b] split: sum.splits)
  next
    case True
    then obtain e where e: "op ?k = Inl e" "should_retry e" by blast
    obtain d b' where nd: "backoff_next_delay (jit ?k) b = Some (d, b')"
        "bo_policy b' = bo_policy b" "bo_current_delay b' \<le> secs 1000000000"
      using backoff_next_delay_defined [OF 1(2) 1(3) 1(4)] by blast
    show ?thesis
    proof (cases d)
      case None
      with nd(1) have "?k = unat (rp_max_retries (bo_policy b))" using 1(5)
        by (auto simp: backoff_next_delay_def word_le_nat_alt split: if_splits option.splits)
      with None nd e show ?thesis
        by (intro exI [of _ 0]) (auto simp: conditional_retry_loop.simps [of _ _ _ b])
    next
      case (Some delay)
      note step = backoff_next_delay_SomeE [OF nd(1) [unfolded Some]]
      from 1(1) [OF e(1) _ nd(1) refl Some] e nd step 1(2,3)
      obtain n slept where IH: "conditional_retry_loop should_retry op jit b' =
           Some (op (Suc ?k + n), slept)" "length slept = n"
        "Suc ?k + n \<le> unat (rp_max_retries (bo_policy b))"
        "\<forall>i < n. \<exists>e. op (Suc ?k + i) = Inl e \<and> should_retry e"
        "(\<exists>e. op (Suc ?k + n) = Inl e \<and> should_retry e) \<longrightarrow>
           Suc ?k + n = unat (rp_max_retries (bo_policy b))"
        by auto
      have "\<exists>e. op (?k + i) = Inl e \<and> should_retry e" if "i < Suc n" for i
        using that e IH(4) by (cases i) auto
      with IH e nd Some show ?thesis
        by (intro exI [of _ "Suc n"]) (auto simp: conditional_retry_loop.simps [of _ _ _ b])
    qed
  qed
qed

text \<open>C18. Under a sane policy the retry manager never panics: it returns the result of an
  attempt \<open>n \<le> max_retries\<close> after \<open>n\<close> delays, all earlier attempts having failed with an
  error to retry, the last one only if the retries are used up.\<close>

theorem conditional_retry_outcome:
  assumes "policy_sane policy" and "\<And>i. jitter_factor_ok (jit i)"
  shows "\<exists>slept. execute_with_conditional_retry policy should_retry op jit =
         Some (op (length slept), slept) \<and>
     length slept \<le> unat (rp_max_retries policy) \<and>
     (\<forall>i < length slept. \<exists>e. op i = Inl e \<and> should_retry e) \<and>
     ((\<exists>e. op (length slept) = Inl e \<and> should_retry e) \<longrightarrow>
        length slept = unat (rp_max_retries policy))"
proof -
  have b: "bo_policy (backoff_new policy) = policy" "bo_current_retry (backoff_new policy) = 0"
    "bo_current_delay (backoff_new policy) \<le> secs 1000000000"
    using assms(1) by (simp_all add: backoff_new_def policy_sane_def)
  from conditional_retry_loop_outcome [of "backoff_new policy" jit should_retry op] assms b
  show ?thesis by (auto simp: execute_with_conditional_retry_def)
qed

lemma policy_standard_sane: "policy_sane policy_standard" "rp_max_retries policy_standard = 5"
  by (simp_all add: policy_sane_def policy_standard_def retry_policy_new_def secs_def millis_def)

theorem conditional_retry_outcome_witness:
  "\<exists>slept. execute_with_conditional_retry policy_standard error_is_retryable two_failures
     (\<lambda>_. Fin 1) = Some (Inr 2, slept) \<and> length slept = 2"
proof -
  have jit: "jitter_factor_ok (Fin 1)" by (simp add: jitter_factor_ok_def)
  obtain slept where run: "execute_with_conditional_retry policy_standard error_is_retryable
        two_failures (\<lambda>_. Fin 1) = Some (two_failures (length slept), slept)"
      "\<forall>i < length slept. \<exists>e. two_failures i = Inl e \<and> error_is_retryable e"
      "(\<exists>e. two_failures (length slept) = Inl e \<and> error_is_retryable e) \<longrightarrow>
         length slept = unat (rp_max_retries policy_standard)"
    using conditional_retry_outcome [OF policy_standard_sane(1) jit,
      where should_retry = error_is_retryable and op = two_failures] by blast
  have "\<nexists>e. two_failures 2 = Inl e" by (simp add: two_failures_def)
  with run(2) have "\<not> 2 < length slept" by blast
  moreover have "\<not> length slept < 2"
    using run(3) by (intro notI) (simp add: two_failures_def policy_standard_sane(2))
  ultimately have "length slept = 2" by simp
  with run(1) show ?thesis by (intro exI [of _ slept]) (simp add: two_failures_def)
qed

end
