(* ===== verification/Text.thy ===== *)
theory Text
  imports Prelude F64
begin

text \<open>
  The text operations of the Rust standard library that the parsers and the pipeline call:
  UTF-8 validation, trimming, replacing, case mapping, and \<open>str::parse\<close> for integers and
  for \<open>f64\<close>. A string is its UTF-8 bytes; the operations that look for ASCII characters
  only may therefore walk over the bytes where the code walks over the characters.
\<close>

abbreviation code :: "char \<Rightarrow> nat" where
  "code c \<equiv> of_char c"

section \<open>UTF-8\<close>

text \<open>\<open>Utf8Error\<close>: where the valid prefix ends, and the length of the offending sequence
  unless the input ends within it.\<close>

record utf8_error =
  valid_up_to :: nat
  error_len :: "nat option"

definition continuation :: "nat \<Rightarrow> bool" where
  "continuation b \<longleftrightarrow> 128 \<le> b \<and> b \<le> 191"

text \<open>The check of the remaining continuation bytes of a sequence, the second byte having its
  own range; the result is the error length or the rest of the input.\<close>

fun continuations :: "nat \<Rightarrow> nat \<Rightarrow> nat list \<Rightarrow> nat option + nat list" where
  "continuations k 0 bs = Inr bs"
| "continuations k (Suc n) [] = Inl None"
| "continuations k (Suc n) (b # bs) =
     (if continuation b then continuations (Suc k) n bs else Inl (Some k))"

definition utf8_sequence :: "nat \<Rightarrow> nat list \<Rightarrow> nat option + nat list" where
  "utf8_sequence b bs =
     (let second = (\<lambda>lo hi n. case bs of
             [] \<Rightarrow> Inl None
           | c # cs \<Rightarrow> if lo \<le> c \<and> c \<le> hi then continuations 2 n cs else Inl (Some 1))
      in if b < 128 then Inr bs
         else if 194 \<le> b \<and> b \<le> 223 then continuations 1 1 bs
         else if b = 224 then second 160 191 1
         else if b = 237 then second 128 159 1
         else if 225 \<le> b \<and> b \<le> 239 then second 128 191 1
         else if b = 240 then second 144 191 2
         else if 241 \<le> b \<and> b \<le> 243 then second 128 191 2
         else if b = 244 then second 128 143 2
         else Inl (Some 1))"

lemma continuations_length: "continuations k n bs = Inr r \<Longrightarrow> length r \<le> length bs"
  by (induction k n bs rule: continuations.induct) (auto split: if_splits)

lemma utf8_sequence_length: "utf8_sequence b bs = Inr r \<Longrightarrow> length r \<le> length bs"
  by (auto simp: utf8_sequence_def Let_def dest!: continuations_length
      split: if_splits list.splits)

function utf8_check :: "nat \<Rightarrow> nat list \<Rightarrow> utf8_error option" where
  "utf8_check i [] = None"
| "utf8_check i (b # bs) =
     (case utf8_sequence b bs of
        Inl len \<Rightarrow> Some \<lparr>valid_up_to = i, error_len = len\<rparr>
      | Inr r \<Rightarrow> utf8_check (i + (length bs - length r) + 1) r)"
  by pat_completeness auto
termination
  by (relation "measure (\<lambda>(i, bs). length bs)") (auto dest: utf8_sequence_length)

definition from_utf8 :: "string \<Rightarrow> utf8_error option" where
  "from_utf8 s = utf8_check 0 (map code s)"

definition utf8_valid :: "string \<Rightarrow> bool" where
  "utf8_valid s \<longleftrightarrow> from_utf8 s = None"

lemma utf8_check_ascii: "\<forall>b \<in> set bs. b < 128 \<Longrightarrow> utf8_check i bs = None"
  by (induction bs arbitrary: i) (auto simp: utf8_sequence_def)

lemma utf8_valid_ascii: "\<forall>c \<in> set s. code c < 128 \<Longrightarrow> utf8_valid s"
  by (simp add: utf8_valid_def from_utf8_def utf8_check_ascii)

section \<open>Decimal integers\<close>

definition is_digit :: "char \<Rightarrow> bool" where
  "is_digit c \<longleftrightarrow> 48 \<le> code c \<and> code c \<le> 57"

definition digits_value :: "string \<Rightarrow> nat" where
  "digits_value s = foldl (\<lambda>acc c. acc * 10 + (code c - 48)) 0 s"

definition all_digits :: "string \<Rightarrow> bool" where
  "all_digits s \<longleftrightarrow> s \<noteq> [] \<and> list_all is_digit s"

text \<open>\<open>parse::<uN>()\<close>: an optional plus sign and digits, within the range.\<close>

definition parse_unsigned :: "nat \<Rightarrow> string \<Rightarrow> nat option" where
  "parse_unsigned bits s =
     (let ds = (case s of c # cs \<Rightarrow> if c = CHR ''+'' then cs else s | [] \<Rightarrow> s)
      in if all_digits ds \<and> digits_value ds < 2 ^ bits then Some (digits_value ds) else None)"

text \<open>\<open>parse::<iN>()\<close>: an optional sign and digits, within the range.\<close>

definition parse_signed :: "nat \<Rightarrow> string \<Rightarrow> int option" where
  "parse_signed bits s =
     (let (neg, ds) = (case s of
             c # cs \<Rightarrow> if c = CHR ''+'' then (False, cs)
                       else if c = CHR ''-'' then (True, cs) else (False, s)
           | [] \<Rightarrow> (False, s));
          v = (if neg then - int (digits_value ds) else int (digits_value ds))
      in if all_digits ds \<and> - (2 ^ (bits - 1)) \<le> v \<and> v < 2 ^ (bits - 1) then Some v else None)"

fun show_nat :: "nat \<Rightarrow> string" where
  "show_nat n =
     (if n < 10 then [char_of (48 + n)] else show_nat (n div 10) @ [char_of (48 + n mod 10)])"

declare show_nat.simps [simp del]

definition show_int :: "int \<Rightarrow> string" where
  "show_int i = (if i < 0 then CHR ''-'' # show_nat (nat (- i)) else show_nat (nat i))"

lemma digit_code [simp]: "d < 10 \<Longrightarrow> code (char_of (48 + d)) = 48 + d"
  by simp

lemma digits_value_snoc: "digits_value (s @ [c]) = digits_value s * 10 + (code c - 48)"
  by (simp add: digits_value_def)

lemma show_nat_digits: "all_digits (show_nat n)"
proof (induction n rule: show_nat.induct)
  case (1 n)
  have "n mod 10 < 10" by simp
  then have "is_digit (char_of (48 + n mod 10))" by (simp add: is_digit_def)
  with 1 show ?case
    by (subst show_nat.simps) (auto simp: all_digits_def is_digit_def)
qed

lemma show_nat_value [simp]: "digits_value (show_nat n) = n"
proof (induction n rule: show_nat.induct)
  case (1 n)
  show ?case
  proof (cases "n < 10")
    case True
    then show ?thesis by (subst show_nat.simps) (simp add: digits_value_def)
  next
    case False
    with 1 show ?thesis
      by (subst show_nat.simps) (simp add: digits_value_snoc)
  qed
qed

lemma show_nat_hd: "\<exists>c cs. show_nat n = c # cs \<and> is_digit c"
  using show_nat_digits [of n] by (cases "show_nat n") (auto simp: all_digits_def)

lemma is_digit_neq: "is_digit c \<Longrightarrow> c \<noteq> CHR ''+''" "is_digit c \<Longrightarrow> c \<noteq> CHR ''-''"
  by (auto simp: is_digit_def)

lemma parse_show_nat: "parse_unsigned bits (show_nat n) = (if n < 2 ^ bits then Some n else None)"
proof -
  obtain c cs where c: "show_nat n = c # cs" "is_digit c" using show_nat_hd by blast
  then have "(case show_nat n of x # xs \<Rightarrow> if x = CHR ''+'' then xs else show_nat n
      | [] \<Rightarrow> show_nat n) = show_nat n"
    using is_digit_neq by simp
  then show ?thesis by (simp add: parse_unsigned_def show_nat_digits)
qed

lemma parse_show_signed:
  assumes "- (2 ^ (bits - 1)) \<le> i" and "i < 2 ^ (bits - 1)"
  shows "parse_signed bits (show_int i) = Some i"
proof (cases "i < 0")
  case True
  with assms show ?thesis by (simp add: show_int_def parse_signed_def show_nat_digits)
next
  case False
  obtain c cs where c: "show_nat (nat i) = c # cs" "is_digit c" using show_nat_hd by blast
  then have "(case show_nat (nat i) of
      x # xs \<Rightarrow> if x = CHR ''+'' then (False, xs) else if x = CHR ''-'' then (True, xs)
        else (False, show_nat (nat i))
    | [] \<Rightarrow> (False, show_nat (nat i))) = (False, show_nat (nat i))"
    using is_digit_neq by simp
  with False assms show ?thesis
    by (simp add: show_int_def parse_signed_def show_nat_digits)
qed

section \<open>Case, trimming, replacing\<close>

definition ascii_lower :: "char \<Rightarrow> char" where
  "ascii_lower c = (if 65 \<le> code c \<and> code c \<le> 90 then char_of (code c + 32) else c)"

definition ascii_upper :: "char \<Rightarrow> char" where
  "ascii_upper c = (if 97 \<le> code c \<and> code c \<le> 122 then char_of (code c - 32) else c)"

definition eq_ignore_ascii_case :: "string \<Rightarrow> string \<Rightarrow> bool" where
  "eq_ignore_ascii_case a b \<longleftrightarrow> map ascii_lower a = map ascii_lower b"

definition is_ascii :: "string \<Rightarrow> bool" where
  "is_ascii s \<longleftrightarrow> list_all (\<lambda>c. code c < 128) s"

text \<open>The Unicode case tables beyond ASCII are data of the standard library: two arguments.\<close>

record unicode_tables =
  uni_lower :: "string \<Rightarrow> string"
  uni_upper :: "string \<Rightarrow> string"

definition to_lowercase :: "unicode_tables \<Rightarrow> string \<Rightarrow> string" where
  "to_lowercase uni s = (if is_ascii s then map ascii_lower s else uni_lower uni s)"

definition to_uppercase :: "unicode_tables \<Rightarrow> string \<Rightarrow> string" where
  "to_uppercase uni s = (if is_ascii s then map ascii_upper s else uni_upper uni s)"

function strip_units :: "string list \<Rightarrow> string \<Rightarrow> string" where
  "strip_units ws s =
     (case List.find (\<lambda>w. w \<noteq> [] \<and> str_prefix w s) ws of
        None \<Rightarrow> s
      | Some w \<Rightarrow> strip_units ws (drop (length w) s))"
  by pat_completeness auto
termination
proof (relation "measure (\<lambda>(ws, s). length s)")
  fix ws :: "string list" and s w
  assume "List.find (\<lambda>w. w \<noteq> [] \<and> str_prefix w s) ws = Some w"
  then have "w \<noteq> [] \<and> str_prefix w s" by (auto simp: find_Some_iff)
  then show "((ws, drop (length w) s), (ws, s)) \<in> measure (\<lambda>(ws, s). length s)"
    by (auto simp: str_prefix_iff)
qed simp

declare strip_units.simps [simp del]

definition bytes_of :: "nat list \<Rightarrow> string" where
  "bytes_of = map char_of"

text \<open>The characters of the Unicode property \<open>White_Space\<close>, as UTF-8.\<close>

definition whitespace :: "string list" where
  "whitespace =
     map (\<lambda>n. [char_of n]) [9, 10, 11, 12, 13, 32 :: nat] @
     map bytes_of ([[194, 133], [194, 160], [225, 154, 128], [226, 128, 168], [226, 128, 169],
       [226, 128, 175], [226, 129, 159], [227, 128, 128]] @
       map (\<lambda>n. [226, 128, n]) [128..<139])"

definition trim_start :: "string \<Rightarrow> string" where
  "trim_start s = strip_units whitespace s"

definition trim_end :: "string \<Rightarrow> string" where
  "trim_end s = rev (strip_units (map rev whitespace) (rev s))"

definition trim :: "string \<Rightarrow> string" where
  "trim s = trim_end (trim_start s)"

definition trim_start_matches :: "char \<Rightarrow> string \<Rightarrow> string" where
  "trim_start_matches c s = dropWhile (\<lambda>x. x = c) s"

definition trim_end_matches :: "char \<Rightarrow> string \<Rightarrow> string" where
  "trim_end_matches c s = rev (dropWhile (\<lambda>x. x = c) (rev s))"

text \<open>\<open>str::replace\<close> with a non-empty pattern, leftmost matches first.\<close>

function str_replace :: "string \<Rightarrow> string \<Rightarrow> string \<Rightarrow> string" where
  "str_replace pat rep s =
     (case s of
        [] \<Rightarrow> []
      | c # cs \<Rightarrow>
          if pat \<noteq> [] \<and> str_prefix pat s then rep @ str_replace pat rep (drop (length pat) s)
          else c # str_replace pat rep cs)"
  by pat_completeness auto
termination
  by (relation "measure (\<lambda>(pat, rep, s). length s)") auto

declare str_replace.simps [simp del]

text \<open>\<open>starts_with\<close> and \<open>ends_with\<close> a character.\<close>

definition starts_with :: "char \<Rightarrow> string \<Rightarrow> bool" where
  "starts_with c s \<longleftrightarrow> (case s of [] \<Rightarrow> False | x # xs \<Rightarrow> x = c)"

definition ends_with :: "char \<Rightarrow> string \<Rightarrow> bool" where
  "ends_with c s \<longleftrightarrow> s \<noteq> [] \<and> last s = c"

text \<open>The slice \<open>s[1..s.len() - 1]\<close>, which panics when the string is shorter than two bytes.\<close>

definition inner :: "string \<Rightarrow> string option" where
  "inner s = (if length s < 2 then None else Some (butlast (tl s)))"

text \<open>Neither end of a string is the beginning or the end of a white-space character.\<close>

definition solid :: "string \<Rightarrow> bool" where
  "solid s \<longleftrightarrow> s = [] \<or> (33 \<le> code (hd s) \<and> code (hd s) < 127 \<and>
     33 \<le> code (last s) \<and> code (last s) < 127)"

lemma strip_units_none:
  assumes "\<And>w. w \<in> set ws \<Longrightarrow> w = [] \<or> \<not> str_prefix w s"
  shows "strip_units ws s = s"
proof -
  have "List.find (\<lambda>w. w \<noteq> [] \<and> str_prefix w s) ws = None"
    using assms by (auto simp: find_None_iff)
  then show ?thesis by (subst strip_units.simps) simp
qed

lemma whitespace_ends:
  "w \<in> set whitespace \<Longrightarrow>
     w \<noteq> [] \<and> \<not> (33 \<le> code (hd w) \<and> code (hd w) < 127) \<and>
     \<not> (33 \<le> code (last w) \<and> code (last w) < 127)"
  by (auto simp: whitespace_def bytes_of_def)

lemma trim_solid [simp]:
  assumes "solid s"
  shows "trim s = s"
proof (cases "s = []")
  case True
  then show ?thesis by (simp add: trim_def trim_start_def trim_end_def strip_units_none
      str_prefix_iff)
next
  case False
  have "trim_start s = s"
    unfolding trim_start_def using assms False whitespace_ends
    by (intro strip_units_none) (fastforce simp: solid_def str_prefix_iff)
  moreover have "strip_units (map rev whitespace) (rev s) = rev s"
  proof (rule strip_units_none)
    fix w assume "w \<in> set (map rev whitespace)"
    then obtain v where v: "w = rev v" "v \<in> set whitespace" by auto
    have "\<not> str_prefix (rev v) (rev s)"
    proof
      assume "str_prefix (rev v) (rev s)"
      then obtain t where "s = t @ v" by (metis rev_append rev_rev_ident str_prefix_iff)
      with assms False whitespace_ends [OF v(2)] show False by (auto simp: solid_def)
    qed
    with v show "w = [] \<or> \<not> str_prefix w (rev s)" by simp
  qed
  ultimately show ?thesis by (simp add: trim_def trim_end_def)
qed

lemma trim_leading_space:
  assumes "solid s" and "s \<noteq> []"
  shows "trim (CHR '' '' # s) = s"
proof -
  have chars: "char_of (32 :: nat) = CHR '' ''" "char_of (9 :: nat) \<noteq> CHR '' ''"
    "char_of (10 :: nat) \<noteq> CHR '' ''" "char_of (11 :: nat) \<noteq> CHR '' ''"
    "char_of (12 :: nat) \<noteq> CHR '' ''" "char_of (13 :: nat) \<noteq> CHR '' ''"
    by code_simp+
  have "List.find (\<lambda>w. w \<noteq> [] \<and> str_prefix w (CHR '' '' # s)) whitespace = Some '' ''"
    unfolding whitespace_def by (simp only: list.map append.simps find.simps chars str_prefix.simps
        list.distinct simp_thms if_True if_False)
  then have "trim_start (CHR '' '' # s) = trim_start s"
    by (subst trim_start_def, subst strip_units.simps) (simp add: trim_start_def)
  then show ?thesis using trim_solid [OF assms(1)] by (simp add: trim_def)
qed

lemma solid_around:
  "solid a \<Longrightarrow> a \<noteq> [] \<Longrightarrow> solid b \<Longrightarrow> b \<noteq> [] \<Longrightarrow> solid (a @ x @ b)"
  by (simp add: solid_def)

section \<open>Decimal floats\<close>

definition pow10 :: "int \<Rightarrow> rat" where
  "pow10 e = (if 0 \<le> e then 10 ^ nat e else 1 / 10 ^ nat (- e))"

definition parse_exponent :: "string \<Rightarrow> int option" where
  "parse_exponent s =
     (case s of
        [] \<Rightarrow> Some 0
      | c # cs \<Rightarrow>
          if c = CHR ''e'' \<or> c = CHR ''E'' then
            (let (neg, ds) = (case cs of
                  x # xs \<Rightarrow> if x = CHR ''+'' then (False, xs)
                            else if x = CHR ''-'' then (True, xs) else (False, cs)
                | [] \<Rightarrow> (False, cs))
             in if all_digits ds
                then Some (if neg then - int (digits_value ds) else int (digits_value ds))
                else None)
          else None)"

text \<open>Digits with an optional point and an optional exponent, at least one digit.\<close>

definition parse_decimal :: "string \<Rightarrow> rat option" where
  "parse_decimal s =
     (let whole = takeWhile is_digit s;
          r = dropWhile is_digit s;
          (frac, r') = (case r of
             c # cs \<Rightarrow> if c = CHR ''.'' then (takeWhile is_digit cs, dropWhile is_digit cs)
                       else ([], r)
           | [] \<Rightarrow> ([], r))
      in if whole = [] \<and> frac = [] then None
         else map_option (\<lambda>e. of_nat (digits_value (whole @ frac)) * pow10 (e - int (length frac)))
                (parse_exponent r'))"

definition parse_f64_unsigned :: "string \<Rightarrow> f64 option" where
  "parse_f64_unsigned s =
     (if map ascii_lower s \<in> {''inf'', ''infinity''} then Some Infinite
      else if map ascii_lower s = ''nan'' then Some NaN
      else map_option f64_round (parse_decimal s))"

definition parse_f64 :: "string \<Rightarrow> f64 option" where
  "parse_f64 s =
     (case s of
        [] \<Rightarrow> None
      | c # cs \<Rightarrow>
          if c = CHR ''-'' then map_option f64_neg (parse_f64_unsigned cs)
          else if c = CHR ''+'' then parse_f64_unsigned cs
          else parse_f64_unsigned s)"

lemma takeWhile_digits: "all_digits s \<Longrightarrow> takeWhile is_digit s = s \<and> dropWhile is_digit s = []"
  by (auto simp: all_digits_def list_all_iff takeWhile_eq_all_conv dropWhile_eq_Nil_conv)

text \<open>The \<open>Display\<close> text of \<open>Utf8Error\<close>.\<close>

definition utf8_error_text :: "utf8_error \<Rightarrow> string" where
  "utf8_error_text e =
     (case error_len e of
        Some n \<Rightarrow> ''invalid utf-8 sequence of '' @ show_nat n @ '' bytes from index ''
      | None \<Rightarrow> ''incomplete utf-8 byte sequence from index '') @ show_nat (valid_up_to e)"

end
