(* ===== verification/PgTypes.thy ===== *)
theory PgTypes
  imports Models Text
begin

text \<open>
  Decoding PostgreSQL values from their text form, \<open>src/source/postgres/types.rs\<close>. The JSON
  parser of \<open>serde_json\<close> is the argument \<open>from_str\<close>. A slice out of range panics: the outer
  option of the results.
\<close>

section \<open>Numbers as JSON\<close>

text \<open>The \<open>json!\<close> of an integer and of a float; a float that is not finite becomes null.\<close>

definition json_of_int :: "int \<Rightarrow> json" where
  "json_of_int i = Number (if 0 \<le> i then PosInt (word_of_int i) else NegInt (word_of_int i))"

fun json_of_f64 :: "f64 \<Rightarrow> json" where
  "json_of_f64 (Fin a) = Number (Float a)"
| "json_of_f64 _ = Null"

definition unwrap_or :: "'a \<Rightarrow> 'a option \<Rightarrow> 'a" where
  "unwrap_or d x = (case x of None \<Rightarrow> d | Some y \<Rightarrow> y)"

section \<open>Type identifiers\<close>

text \<open>\<open>mod oids\<close>: the scalar and the array types the code names.\<close>

definition array_oids :: "u32 list" where
  "array_oids =
     [1000, 1001, 1002, 1005, 1007, 1009, 1016, 1021, 1022, 1028, 199, 1115, 1182, 1183, 1185,
      1187, 1231, 1270, 2951, 3807, 1041, 1040]"

definition is_array_type :: "u32 \<Rightarrow> bool" where
  "is_array_type oid \<longleftrightarrow> oid \<in> set array_oids \<or> oid \<ge> 1000"

definition element_oids :: "(u32 \<times> u32) list" where
  "element_oids =
     [(1000, 16), (1005, 21), (1007, 23), (1016, 20), (1021, 700), (1022, 701), (1009, 25),
      (199, 114), (3807, 3802), (1115, 1114), (1185, 1184), (1182, 1082), (2951, 2950),
      (1231, 1700)]"

definition element_oid :: "u32 \<Rightarrow> u32" where
  "element_oid oid = unwrap_or 25 (map_of element_oids oid)"

section \<open>Scalars\<close>

definition decode_scalar :: "(string \<Rightarrow> json option) \<Rightarrow> string \<Rightarrow> u32 \<Rightarrow> json" where
  "decode_scalar from_str text oid =
     (if oid = 16 then Bool (text = ''t'' \<or> text = ''true'')
      else if oid = 21 then json_of_int (unwrap_or 0 (parse_signed 16 text))
      else if oid = 23 then json_of_int (unwrap_or 0 (parse_signed 32 text))
      else if oid = 20 then json_of_int (unwrap_or 0 (parse_signed 64 text))
      else if oid = 700 \<or> oid = 701 then json_of_f64 (unwrap_or (Fin 0) (parse_f64 text))
      else if oid = 1700 then
        (case parse_f64 text of Some f \<Rightarrow> json_of_f64 f | None \<Rightarrow> String text)
      else if oid = 790 then
        json_of_f64 (unwrap_or (Fin 0)
          (parse_f64 (str_replace '','' [] (trim_start_matches (CHR ''$'') text))))
      else if oid = 114 \<or> oid = 3802 then unwrap_or (String text) (from_str text)
      else String text)"

section \<open>Arrays\<close>

text \<open>
  The loop of \<open>decode_array\<close> over the characters between the braces, with its state
  \<open>in_quotes\<close>, \<open>escape_next\<close> and \<open>current\<close>; it yields the texts it hands to
  \<open>parse_array_element\<close>. The last argument is \<open>content.ends_with(',')\<close>.
\<close>

fun array_chunks :: "bool \<Rightarrow> bool \<Rightarrow> bool \<Rightarrow> string \<Rightarrow> string \<Rightarrow> string list" where
  "array_chunks trailing in_quotes escape_next current [] =
     (if current \<noteq> [] \<or> trailing then [current] else [])"
| "array_chunks trailing in_quotes escape_next current (ch # chars) =
     (if escape_next then array_chunks trailing in_quotes False (current @ [ch]) chars
      else if ch = CHR 0x5C \<and> in_quotes then array_chunks trailing in_quotes True current chars
      else if ch = CHR 0x22 then array_chunks trailing (\<not> in_quotes) False current chars
      else if ch = CHR '','' \<and> \<not> in_quotes
        then current # array_chunks trailing in_quotes False [] chars
      else array_chunks trailing in_quotes False (current @ [ch]) chars)"

text \<open>The elements in order; the first error or panic ends the loop.\<close>

fun decode_all :: "('a \<Rightarrow> 'b result option) \<Rightarrow> 'a list \<Rightarrow> 'b list result option" where
  "decode_all f [] = Some (Inr [])"
| "decode_all f (x # xs) =
     (case f x of
        None \<Rightarrow> None
      | Some (Inl e) \<Rightarrow> Some (Inl e)
      | Some (Inr y) \<Rightarrow> map_option (map_sum id (\<lambda>ys. y # ys)) (decode_all f xs))"

lemma decode_all_cong [fundef_cong]:
  "xs = ys \<Longrightarrow> (\<And>x. x \<in> set ys \<Longrightarrow> f x = g x) \<Longrightarrow> decode_all f xs = decode_all g ys"
proof (induction xs arbitrary: ys)
  case (Cons x xs)
  then show ?case by (cases ys) (auto split: option.splits sum.splits)
qed simp

text \<open>\<open>parse_array_element\<close> without its last call: null, or the text to decode.\<close>

definition element_text :: "string \<Rightarrow> string option option" where
  "element_text element =
     (let trimmed = trim element in
      if trimmed = ''NULL'' then Some None
      else if starts_with (CHR 0x22) trimmed \<and> ends_with (CHR 0x22) trimmed
      then map_option Some (inner trimmed)
      else Some (Some trimmed))"

text \<open>How often an element of the type can be an array itself.\<close>

definition array_depth :: "u32 \<Rightarrow> nat" where
  "array_depth oid =
     (if \<not> is_array_type oid then 0 else if is_array_type (element_oid oid) then 2 else 1)"

lemma element_oid_range:
  "element_oid oid \<in> {25, 16, 21, 23, 20, 700, 701, 114, 3802, 1114, 1184, 1082, 2950, 1700}"
  by (simp add: element_oid_def unwrap_or_def element_oids_def)

lemma element_of_element: "element_oid (element_oid oid) = 25"
  using element_oid_range [of oid] by (auto simp: element_oid_def unwrap_or_def element_oids_def)

lemma array_depth_element: "is_array_type oid \<Longrightarrow> array_depth (element_oid oid) < array_depth oid"
  by (simp add: array_depth_def element_of_element) (simp add: is_array_type_def array_oids_def)

function decode_value :: "(string \<Rightarrow> json option) \<Rightarrow> string \<Rightarrow> u32 \<Rightarrow> json result option" where
  "decode_value from_str text oid =
     (case from_utf8 text of
        Some e \<Rightarrow> Some (Inl (Source (''Invalid UTF-8: '' @ utf8_error_text e)))
      | None \<Rightarrow>
          if \<not> is_array_type oid then Some (Inr (decode_scalar from_str text oid))
          else if \<not> starts_with (CHR ''{'') text \<or> \<not> ends_with (CHR ''}'') text
          then Some (Inr (String text))
          else
            (case inner text of
               None \<Rightarrow> None
             | Some content \<Rightarrow>
                 if content = [] then Some (Inr (Array []))
                 else
                   map_option (map_sum id Array)
                     (decode_all
                       (\<lambda>element. case element_text element of
                          None \<Rightarrow> None
                        | Some None \<Rightarrow> Some (Inr Null)
                        | Some (Some t) \<Rightarrow> decode_value from_str t (element_oid oid))
                       (array_chunks (ends_with (CHR '','') content) False False [] content))))"
  by pat_completeness auto
termination
  by (relation "measure (\<lambda>(from_str, text, oid). array_depth oid)") (auto intro: array_depth_element)

declare decode_value.simps [simp del]

section \<open>Array literals\<close>

text \<open>
  What \<open>array_out\<close> of PostgreSQL prints: elements separated by commas, quoted when they are
  empty, spell NULL or contain a special character, with quotes and backslashes escaped.
\<close>

definition quote_element :: "string \<Rightarrow> string" where
  "quote_element e = CHR 0x22 #
     concat (map (\<lambda>c. if c = CHR 0x22 \<or> c = CHR 0x5C then [CHR 0x5C, c] else [c]) e) @ [CHR 0x22]"

definition needs_quotes :: "string \<Rightarrow> bool" where
  "needs_quotes e \<longleftrightarrow> e = [] \<or> eq_ignore_ascii_case e ''NULL'' \<or>
     list_ex (\<lambda>c. c \<in> {CHR 0x22, CHR 0x5C, CHR ''{'', CHR ''}'', CHR '','', CHR '' ''} \<or>
        (9 \<le> code c \<and> code c \<le> 13)) e"

definition print_element :: "string \<Rightarrow> string" where
  "print_element e = (if needs_quotes e then quote_element e else e)"

definition array_out :: "string list \<Rightarrow> string" where
  "array_out es = CHR ''{'' # join_with '','' (map print_element es) @ ''}''"

text \<open>The elements the decoder can read: not empty, without outer white space, not NULL and not
  in double quotes themselves.\<close>

definition plain_element :: "string \<Rightarrow> bool" where
  "plain_element e \<longleftrightarrow> e \<noteq> [] \<and> solid e \<and> e \<noteq> ''NULL'' \<and>
     \<not> (starts_with (CHR 0x22) e \<and> ends_with (CHR 0x22) e)"

lemma chunks_escaped:
  "array_chunks tr True False cur
     (concat (map (\<lambda>c. if c = CHR 0x22 \<or> c = CHR 0x5C then [CHR 0x5C, c] else [c]) e) @ CHR 0x22 # rest) =
   array_chunks tr False False (cur @ e) rest"
  by (induction e arbitrary: cur) auto

lemma chunks_bare:
  "CHR 0x22 \<notin> set e \<Longrightarrow> CHR '','' \<notin> set e \<Longrightarrow>
     array_chunks tr False False cur (e @ rest) = array_chunks tr False False (cur @ e) rest"
  by (induction e arbitrary: cur) auto

lemma chunks_print_element:
  "array_chunks tr False False [] (print_element e @ rest) = array_chunks tr False False e rest"
proof (cases "needs_quotes e")
  case True
  then show ?thesis using chunks_escaped [of tr "[]" e rest]
    by (simp add: print_element_def quote_element_def)
next
  case False
  then have "CHR 0x22 \<notin> set e" "CHR '','' \<notin> set e"
    by (auto simp: needs_quotes_def list_ex_iff)
  with False chunks_bare [of e tr "[]" rest] show ?thesis by (simp add: print_element_def)
qed

lemma chunks_array:
  "es \<noteq> [] \<Longrightarrow> last es \<noteq> [] \<Longrightarrow>
     array_chunks tr False False [] (join_with '','' (map print_element es)) = es"
proof (induction es rule: join_with.induct [of _ "undefined :: string"])
  case (2 sep e)
  then show ?case using chunks_print_element [of tr e "[]"] by simp
next
  case (3 sep e f es)
  then show ?case using chunks_print_element [of tr e "CHR '','' # join_with '','' (map print_element (f # es))"]
    by simp
qed simp

lemma plain_element_text: "plain_element e \<Longrightarrow> element_text e = Some (Some e)"
  by (auto simp: plain_element_def element_text_def)

lemma decode_array_out:
  assumes "is_array_type oid" and "utf8_valid (array_out es)" and "\<forall>e \<in> set es. plain_element e"
  shows "decode_value from_str (array_out es) oid =
     map_option (map_sum id Array) (decode_all (\<lambda>e. decode_value from_str e (element_oid oid)) es)"
proof (cases "es = []")
  case True
  with assms show ?thesis
    by (simp add: decode_value.simps [of from_str _ oid] array_out_def utf8_valid_def starts_with_def
        ends_with_def inner_def)
next
  case False
  let ?content = "join_with '','' (map print_element es)"
  have "?content \<noteq> []"
    using False by (cases es; cases "tl es") (auto simp: print_element_def quote_element_def needs_quotes_def)
  moreover have "array_chunks (ends_with (CHR '','') ?content) False False [] ?content = es"
    by (rule chunks_array) (use False assms(3) in \<open>auto simp: plain_element_def\<close>)
  moreover have "decode_all (\<lambda>element. case element_text element of None \<Rightarrow> None
      | Some None \<Rightarrow> Some (Inr Null)
      | Some (Some t) \<Rightarrow> decode_value from_str t (element_oid oid)) es =
      decode_all (\<lambda>e. decode_value from_str e (element_oid oid)) es"
    by (rule decode_all_cong) (use assms(3) in \<open>auto simp: plain_element_text\<close>)
  moreover have "inner (array_out es) = Some ?content"
    by (simp add: inner_def array_out_def butlast_append)
  ultimately show ?thesis using assms(1,2)
    by (subst decode_value.simps) (simp add: utf8_valid_def starts_with_def ends_with_def array_out_def)
qed

lemma decode_all_pure:
  "(\<And>x. x \<in> set xs \<Longrightarrow> f x = Some (Inr (g x))) \<Longrightarrow> decode_all f xs = Some (Inr (map g xs))"
  by (induction xs) auto

lemma decode_value_text: "utf8_valid t \<Longrightarrow> decode_value from_str t 25 = Some (Inr (String t))"
  by (subst decode_value.simps) (simp add: utf8_valid_def is_array_type_def array_oids_def
      decode_scalar_def)



section \<open>Integers\<close>

lemma show_nat_chars: "list_all is_digit (show_nat n)"
  using show_nat_digits [of n] by (simp add: all_digits_def)

lemma show_int_code: "c \<in> set (show_int i) \<Longrightarrow> 45 \<le> code c \<and> code c \<le> 57 \<and> code c \<noteq> 46"
proof -
  assume "c \<in> set (show_int i)"
  moreover have "is_digit d" if "d \<in> set (show_nat n)" for d n
    using show_nat_chars [of n] that by (simp add: list_all_iff)
  ultimately have "c = CHR ''-'' \<or> is_digit c" by (auto simp: show_int_def split: if_splits)
  then show ?thesis by (auto simp: is_digit_def)
qed

lemma show_int_not_Nil [simp]: "show_int i \<noteq> []"
  using show_nat_hd [of "nat i"] by (auto simp: show_int_def)

lemma show_int_absent: "\<not> (45 \<le> code c \<and> code c \<le> 57) \<Longrightarrow> c \<notin> set (show_int i)"
  using show_int_code by blast

lemma utf8_valid_show_int: "utf8_valid (show_int i)"
  by (rule utf8_valid_ascii) (use show_int_code in fastforce)

lemma solid_show_int: "solid (show_int i)"
proof -
  have "hd (show_int i) \<in> set (show_int i)" "last (show_int i) \<in> set (show_int i)" by simp_all
  from this [THEN show_int_code] show ?thesis by (simp add: solid_def)
qed

lemma plain_show_int: "plain_element (show_int i)"
proof -
  have "show_int i \<noteq> ''NULL''" using show_int_absent [of "CHR ''N''" i] by auto
  moreover have "\<not> starts_with (CHR 0x22) (show_int i)"
    using show_int_absent [of "CHR 0x22" i] by (cases "show_int i") (auto simp: starts_with_def)
  ultimately show ?thesis using solid_show_int [of i] by (simp add: plain_element_def)
qed

lemma lower_NULL: "map ascii_lower ''NULL'' = ''null''"
  by code_simp

lemma needs_quotes_show_int: "\<not> needs_quotes (show_int i)"
proof -
  have "map ascii_lower (show_int i) = show_int i"
    by (rule map_idI) (use show_int_code in \<open>fastforce simp: ascii_lower_def\<close>)
  moreover have "show_int i \<noteq> ''null''" using show_int_absent [of "CHR ''n''" i] by auto
  ultimately have "\<not> eq_ignore_ascii_case (show_int i) ''NULL''"
    unfolding eq_ignore_ascii_case_def lower_NULL by simp
  moreover have "c \<notin> {CHR 0x22, CHR 0x5C, CHR ''{'', CHR ''}'', CHR '','', CHR '' ''} \<and>
      \<not> (9 \<le> code c \<and> code c \<le> 13)" if "c \<in> set (show_int i)" for c
    using show_int_code [OF that] by auto
  ultimately show ?thesis by (auto simp: needs_quotes_def list_ex_iff)
qed

lemma join_with_chars: "set (join_with sep ps) \<subseteq> set sep \<union> \<Union> (set ` set ps)"
  by (induction sep ps rule: join_with.induct) auto

lemma utf8_valid_int_array: "utf8_valid (array_out (map show_int is))"
proof (rule utf8_valid_ascii, rule ballI)
  fix c assume c: "c \<in> set (array_out (map show_int is))"
  have "map (print_element \<circ> show_int) is = map show_int is"
    by (simp add: print_element_def needs_quotes_show_int)
  with c have "c \<in> {CHR ''{'', CHR ''}''} \<or> c \<in> set (join_with '','' (map show_int is))"
    by (auto simp: array_out_def)
  then have "c \<in> {CHR ''{'', CHR ''}'', CHR '',''} \<or> (\<exists>i. c \<in> set (show_int i))"
    using join_with_chars [of "'',''" "map show_int is"] by auto
  then show "code c < 128" using show_int_code by fastforce
qed

lemma decode_value_int8:
  assumes "- (2 ^ 63) \<le> i" and "i < 2 ^ 63"
  shows "decode_value from_str (show_int i) 20 = Some (Inr (json_of_int i))"
  using assms parse_show_signed [of 64 i] utf8_valid_show_int [of i]
  by (subst decode_value.simps) (simp add: utf8_valid_def is_array_type_def array_oids_def
      decode_scalar_def unwrap_or_def)

text \<open>64-bit integers, alone and in arrays, decode to the numbers they print.\<close>

theorem int8_roundtrip:
  assumes "\<forall>i \<in> set is. - (2 ^ 63) \<le> i \<and> i < 2 ^ 63"
  shows "decode_value from_str (array_out (map show_int is)) 1016 =
       Some (Inr (Array (map json_of_int is))) \<and>
     list_all (\<lambda>i. decode_value from_str (show_int i) 20 = Some (Inr (json_of_int i))) is"
proof -
  have "is_array_type 1016" "element_oid 1016 = 20"
    by (simp_all add: is_array_type_def element_oid_def element_oids_def unwrap_or_def)
  moreover have "decode_all (\<lambda>e. decode_value from_str e 20) (map show_int is) =
      Some (Inr (map json_of_int is))"
    using assms by (induction "is") (auto simp: decode_value_int8)
  ultimately have "decode_value from_str (array_out (map show_int is)) 1016 =
      Some (Inr (Array (map json_of_int is)))"
    using decode_array_out [of 1016 "map show_int is" from_str] utf8_valid_int_array
      plain_show_int by simp
  with assms show ?thesis by (auto simp: list_all_iff decode_value_int8)
qed

theorem int8_roundtrip_witness:
  "decode_value (\<lambda>s. None) (array_out (map show_int [1, -5])) 1016 =
     Some (Inr (Array [json_of_int 1, json_of_int (-5)]))"
  using int8_roundtrip [of "[1, -5]" "\<lambda>s. None"] by simp

text \<open>Array literals that are misread: a quoted NULL becomes null, a final empty string is
  lost, and the string of one double quote is a slice out of range. The JSONB type and the
  numeric type are taken for arrays: an object becomes an array of strings, a number a string.\<close>

theorem array_misreadings:
  "decode_value from_str (array_out [''NULL'']) 1009 = Some (Inr (Array [Null])) \<and>
   decode_value from_str (array_out [''a'', []]) 1009 = Some (Inr (Array [String ''a''])) \<and>
   decode_value from_str (array_out [[CHR 0x22]]) 1009 = None \<and>
   decode_value from_str (CHR ''{'' # CHR 0x22 # ''a'' @ CHR 0x22 # '': 1}'') 3802 =
     Some (Inr (Array [String ''a: 1''])) \<and>
   decode_value from_str ''12.5'' 1700 = Some (Inr (String ''12.5''))"
proof -
  have ascii: "from_utf8 s = None" if "list_all (\<lambda>c. code c < 128) s" for s
    using utf8_valid_ascii [of s] that by (simp add: utf8_valid_def list_all_iff)
  have solid: "trim ''NULL'' = ''NULL''" "trim ''a'' = ''a''" "trim [CHR 0x22] = [CHR 0x22]"
    "trim ''a: 1'' = ''a: 1''"
    by (rule trim_solid, simp add: solid_def)+
  note defs = decode_value.simps [of _ _ 1009] decode_value.simps [of _ _ 3802]
    decode_value.simps [of _ _ 1700] decode_value_text utf8_valid_def ascii
    is_array_type_def array_oids_def element_oid_def element_oids_def unwrap_or_def starts_with_def
    ends_with_def inner_def array_out_def print_element_def needs_quotes_def quote_element_def
    eq_ignore_ascii_case_def ascii_lower_def element_text_def solid Let_def
  show ?thesis by (intro conjI) (simp_all add: defs)
qed

end
