(* ===== verification/TestDecoder.thy ===== *)
theory TestDecoder
  imports PgTypes
begin

text \<open>
  The parser of the \<open>test_decoding\<close> messages, the source of every change event:
  \<open>src/source/postgres/replication/test_decoder.rs\<close>. The code walks over characters; all the
  characters it looks for are ASCII, so the model walks over the bytes.
\<close>

section \<open>Values\<close>

abbreviation quote :: char where "quote \<equiv> CHR 0x27"

definition sanitize_value :: "string \<Rightarrow> string" where
  "sanitize_value raw =
     (let trimmed = trim raw in
      if starts_with quote trimmed \<and> ends_with quote trimmed \<and> length trimmed \<ge> 2
      then str_replace [quote, quote] [quote] (butlast (tl trimmed))
      else trimmed)"

definition parse_value :: "string \<Rightarrow> json" where
  "parse_value text =
     (let v = trim text in
      if v = [] then Null
      else
        (case parse_signed 64 v of
           Some num \<Rightarrow> json_of_int num
         | None \<Rightarrow>
             (case parse_f64 v of
                Some (Fin a) \<Rightarrow> Number (Float a)
              | _ \<Rightarrow>
                  if eq_ignore_ascii_case v ''true'' then Bool True
                  else if eq_ignore_ascii_case v ''false'' then Bool False
                  else if eq_ignore_ascii_case v ''null'' then Null
                  else String v)))"

definition extract_column_name :: "string \<Rightarrow> string" where
  "extract_column_name col_info =
     takeWhile (\<lambda>c. c \<noteq> CHR ''['') (trim_end_matches (CHR '':'') (trim col_info))"

definition split_first_colon :: "string \<Rightarrow> (string \<times> string) option" where
  "split_first_colon part = map_option (\<lambda>(left, right). (trim left, trim right)) (split_once (CHR '':'') part)"

section \<open>Tokens\<close>

definition token_space :: "char \<Rightarrow> bool" where
  "token_space ch \<longleftrightarrow> ch = CHR '' '' \<or> ch = CHR 0x09 \<or> ch = CHR 0x0A"

text \<open>The loop with its state \<open>current\<close>, \<open>in_quotes\<close> and \<open>bracket_depth\<close>.\<close>

function tokenize :: "string \<Rightarrow> bool \<Rightarrow> nat \<Rightarrow> string \<Rightarrow> string list" where
  "tokenize current in_quotes depth [] = (if current \<noteq> [] then [trim current] else [])"
| "tokenize current in_quotes depth (ch # chars) =
     (if ch = quote then
        (if in_quotes \<and> starts_with quote chars
         then tokenize (current @ [ch, quote]) in_quotes depth (tl chars)
         else tokenize (current @ [ch]) (\<not> in_quotes) depth chars)
      else if ch = CHR ''['' then tokenize (current @ [ch]) in_quotes (min (depth + 1) (2 ^ 32 - 1)) chars
      else if ch = CHR '']'' then tokenize (current @ [ch]) in_quotes (depth - 1) chars
      else if token_space ch \<and> \<not> in_quotes \<and> depth = 0 then
        (if current \<noteq> [] then trim current # tokenize [] in_quotes depth chars
         else tokenize current in_quotes depth chars)
      else tokenize (current @ [ch]) in_quotes depth chars)"
  by pat_completeness auto
termination
  by (relation "measure (\<lambda>(current, in_quotes, depth, chars). length chars)") auto

definition tokenize_parts :: "string \<Rightarrow> string list" where
  "tokenize_parts input = filter (\<lambda>t. t \<noteq> []) (tokenize [] False 0 input)"

section \<open>Rows\<close>

text \<open>One token of a row: the column and its text, unless it has no colon.\<close>

definition token_field :: "string \<Rightarrow> (string \<times> string) option" where
  "token_field part =
     map_option (\<lambda>(col_info, value). (extract_column_name col_info, sanitize_value value))
       (split_first_colon part)"

definition primary_key_of :: "string option \<Rightarrow> string \<Rightarrow> string \<Rightarrow> string option" where
  "primary_key_of pk column sanitized =
     (if column = ''id'' \<and> pk = None then Some sanitized else pk)"

fun row_insert_loop :: "string option \<Rightarrow> fields \<Rightarrow> string list \<Rightarrow> string option \<times> fields" where
  "row_insert_loop pk fs [] = (pk, fs)"
| "row_insert_loop pk fs (part # parts) =
     (case token_field part of
        None \<Rightarrow> row_insert_loop pk fs parts
      | Some (column, sanitized) \<Rightarrow>
          row_insert_loop (primary_key_of pk column sanitized)
            (hm_insert column (parse_value sanitized) fs) parts)"

definition parse_insert_data :: "string list \<Rightarrow> string option \<times> json" where
  "parse_insert_data parts =
     (let (pk, fs) = row_insert_loop None [] parts in (pk, json_of_fields fs))"

definition parse_delete_data :: "string list \<Rightarrow> string option \<times> json" where
  "parse_delete_data parts =
     (let (pk, fs) = row_insert_loop None [] parts in (pk, json_of_fields fs))"

fun row_update_loop ::
  "bool \<Rightarrow> string option \<Rightarrow> fields \<Rightarrow> fields \<Rightarrow> string list \<Rightarrow> string option \<times> fields \<times> fields" where
  "row_update_loop is_new pk old_fields new_fields [] = (pk, old_fields, new_fields)"
| "row_update_loop is_new pk old_fields new_fields (part # parts) =
     (if part = ''new-key:'' then row_update_loop True pk old_fields new_fields parts
      else if part = ''old-key:'' then row_update_loop False pk old_fields new_fields parts
      else
        (case token_field part of
           None \<Rightarrow> row_update_loop is_new pk old_fields new_fields parts
         | Some (column, sanitized) \<Rightarrow>
             if is_new then
               row_update_loop is_new (primary_key_of pk column sanitized) old_fields
                 (hm_insert column (parse_value sanitized) new_fields) parts
             else
               row_update_loop is_new pk (hm_insert column (parse_value sanitized) old_fields)
                 new_fields parts))"

definition parse_update_data :: "string list \<Rightarrow> string option \<times> json" where
  "parse_update_data parts =
     (let (pk, old_fields, new_fields) = row_update_loop False None [] [] parts
      in (pk, json_of_fields (if new_fields \<noteq> [] then new_fields else old_fields)))"

section \<open>Messages\<close>

text \<open>Schema and table around the last dot.\<close>

definition split_table :: "string \<Rightarrow> string \<times> string" where
  "split_table table_full =
     (case split_once (CHR ''.'') (rev table_full) of
        Some (table, schema) \<Rightarrow> (rev schema, rev table)
      | None \<Rightarrow> (''public'', table_full))"

definition operation_of :: "string \<Rightarrow> event_type option" where
  "operation_of token =
     (if token = ''INSERT'' then Some EtCreate
      else if token = ''UPDATE'' then Some EtUpdate
      else if token = ''DELETE'' then Some EtDelete
      else None)"

definition row_of :: "event_type \<Rightarrow> string list \<Rightarrow> string option \<times> json" where
  "row_of ty parts =
     (case ty of
        EtUpdate \<Rightarrow> parse_update_data parts
      | EtDelete \<Rightarrow> parse_delete_data parts
      | _ \<Rightarrow> parse_insert_data parts)"

definition parse_test_decoding_message ::
  "time \<Rightarrow> string \<Rightarrow> string \<Rightarrow> stream_event option result" where
  "parse_test_decoding_message now lsn message =
     (if \<not> str_prefix ''table '' message then Inr None
      else
        (case split_once (CHR '':'') (trim (drop 6 message)) of
           None \<Rightarrow> Inr None
         | Some (table_part, rest1) \<Rightarrow>
             (case split_once (CHR '':'') (trim rest1) of
                None \<Rightarrow> Inr None
              | Some (op, data) \<Rightarrow>
                  let (schema, table) = split_table (trim_end_matches (CHR '':'') table_part) in
                  case operation_of (trim op) of
                    None \<Rightarrow> Inr None
                  | Some ty \<Rightarrow>
                      let (pk, row) = row_of ty (tokenize_parts (trim data)) in
                      Inr (Some (EvCdc
                        \<lparr>cdc_event_type = ty,
                         cdc_table = trim_end_matches (CHR '':'') table,
                         cdc_schema = schema,
                         cdc_data = (case row of Object m \<Rightarrow> m | _ \<Rightarrow> []),
                         cdc_timestamp = now,
                         cdc_position = Some (PostgreSQL lsn)\<rparr>)))))"

section \<open>The format\<close>

text \<open>What the \<open>test_decoding\<close> plugin prints for a row.\<close>

datatype pg_value = PgNull | PgInt int | PgBool bool | PgText string

fun double_quotes :: "string \<Rightarrow> string" where
  "double_quotes [] = []"
| "double_quotes (c # cs) = (if c = quote then [quote, quote] else [c]) @ double_quotes cs"

fun value_out :: "pg_value \<Rightarrow> string" where
  "value_out PgNull = ''null''"
| "value_out (PgInt i) = show_int i"
| "value_out (PgBool b) = (if b then ''true'' else ''false'')"
| "value_out (PgText s) = quote # double_quotes s @ [quote]"

fun value_json :: "pg_value \<Rightarrow> json" where
  "value_json PgNull = Null"
| "value_json (PgInt i) = json_of_int i"
| "value_json (PgBool b) = Bool b"
| "value_json (PgText s) = String s"

record pg_column =
  pc_name :: string
  pc_type :: string
  pc_value :: pg_value

definition column_out :: "pg_column \<Rightarrow> string" where
  "column_out c = pc_name c @ ''['' @ pc_type c @ '']:'' @ value_out (pc_value c)"

definition operation_out :: "event_type \<Rightarrow> string" where
  "operation_out ty =
     (case ty of EtCreate \<Rightarrow> ''INSERT'' | EtUpdate \<Rightarrow> ''UPDATE'' | EtDelete \<Rightarrow> ''DELETE''
      | EtTruncate \<Rightarrow> ''TRUNCATE'' | EtSchema \<Rightarrow> [])"

definition message_out :: "string \<Rightarrow> string \<Rightarrow> event_type \<Rightarrow> pg_column list \<Rightarrow> string" where
  "message_out schema table ty columns =
     ''table '' @ schema @ ''.'' @ table @ '': '' @ operation_out ty @ '': '' @
     join_with '' '' (map column_out columns)"

text \<open>Identifiers of printable ASCII that need no quoting; a type name may contain spaces.\<close>

definition ident_char :: "char \<Rightarrow> bool" where
  "ident_char c \<longleftrightarrow> 33 \<le> code c \<and> code c < 127 \<and> c \<notin> {quote, CHR ''['', CHR '']'', CHR '':'', CHR ''.''}"

definition ident_ok :: "string \<Rightarrow> bool" where
  "ident_ok s \<longleftrightarrow> s \<noteq> [] \<and> list_all ident_char s"

definition type_ok :: "string \<Rightarrow> bool" where
  "type_ok s \<longleftrightarrow> list_all (\<lambda>c. c \<notin> {quote, CHR ''['', CHR '']'', CHR '':''}) s"

text \<open>A text the decoder leaves alone: without outer white space or an opening bracket, and not
  readable as a number, a truth value or null.\<close>

definition textual :: "string \<Rightarrow> bool" where
  "textual s \<longleftrightarrow> s \<noteq> [] \<and> solid s \<and> CHR ''['' \<notin> set s \<and> parse_signed 64 s = None \<and>
     (case parse_f64 s of Some (Fin a) \<Rightarrow> False | _ \<Rightarrow> True) \<and>
     \<not> eq_ignore_ascii_case s ''true'' \<and> \<not> eq_ignore_ascii_case s ''false'' \<and>
     \<not> eq_ignore_ascii_case s ''null''"

fun value_ok :: "pg_value \<Rightarrow> bool" where
  "value_ok (PgInt i) = (- (2 ^ 63) \<le> i \<and> i < 2 ^ 63)"
| "value_ok (PgText s) = textual s"
| "value_ok _ = True"

definition column_ok :: "pg_column \<Rightarrow> bool" where
  "column_ok c \<longleftrightarrow> ident_ok (pc_name c) \<and> type_ok (pc_type c) \<and> value_ok (pc_value c)"

section \<open>Tokens of a row\<close>

lemma starts_with_simps [simp]:
  "starts_with c [] = False" "starts_with c (x # xs) = (x = c)"
  by (simp_all add: starts_with_def)

lemma token_space_simps [simp]: "\<not> token_space CHR '':''" "token_space CHR '' ''"
  by (simp_all add: token_space_def)

lemma takeWhile_before: "x \<notin> set n \<Longrightarrow> takeWhile (\<lambda>c. c \<noteq> x) (n @ x # r) = n"
  by (induction n) auto

lemma tokenize_bare:
  "(\<And>c. c \<in> set e \<Longrightarrow> c \<notin> {quote, CHR ''['', CHR '']''} \<and> \<not> token_space c) \<Longrightarrow>
     tokenize cur False 0 (e @ rest) = tokenize (cur @ e) False 0 rest"
  by (induction e arbitrary: cur) auto

lemma tokenize_type:
  "type_ok t \<Longrightarrow> tokenize cur False (Suc 0) (t @ rest) = tokenize (cur @ t) False (Suc 0) rest"
  by (induction t arbitrary: cur) (auto simp: type_ok_def)

lemma starts_with_double: "starts_with quote (double_quotes s @ [quote]) \<Longrightarrow> s = [] \<or> hd s = quote"
  by (cases s) (auto split: if_splits)

lemma tokenize_quoted:
  "CHR ''['' \<notin> set s \<Longrightarrow> \<not> starts_with quote rest \<Longrightarrow>
     tokenize cur True 0 (double_quotes s @ quote # rest) =
     tokenize (cur @ double_quotes s @ [quote]) False 0 rest"
proof (induction s arbitrary: cur)
  case (Cons c s)
  show ?case
  proof (cases "c = quote")
    case True
    with Cons.IH [of "cur @ [quote, quote]"] Cons.prems show ?thesis by simp
  next
    case False
    moreover from Cons.prems have "c \<noteq> CHR ''[''" by auto
    ultimately show ?thesis using Cons.IH [of "cur @ [c]"] Cons.prems by (cases "c = CHR '']''") simp_all
  qed
qed simp

lemma token_space_code: "token_space c \<Longrightarrow> code c < 33"
  unfolding token_space_def by (elim disjE) simp_all

lemma ident_charD: "ident_char c \<Longrightarrow> c \<notin> {quote, CHR ''['', CHR '']'', CHR '':'', CHR ''.''} \<and> \<not> token_space c"
  using token_space_code [of c] unfolding ident_char_def by (cases "token_space c") simp_all

lemma show_int_token: "c \<in> set (show_int i) \<Longrightarrow> c \<notin> {quote, CHR ''['', CHR '']''} \<and> \<not> token_space c"
  using show_int_code [of c i] token_space_code [of c] by auto

lemma tokenize_value:
  assumes "value_ok v" and "\<not> starts_with quote rest"
  shows "tokenize cur False 0 (value_out v @ rest) = tokenize (cur @ value_out v) False 0 rest"
proof (cases v)
  case (PgText s)
  with assms tokenize_quoted [of s rest "cur @ [quote]"] show ?thesis by (simp add: textual_def)
next
  case (PgInt i)
  then show ?thesis using tokenize_bare [of "show_int i" cur rest] show_int_token by simp
qed (simp_all add: tokenize_bare token_space_def)

lemma tokenize_column:
  assumes "column_ok c" and "\<not> starts_with quote rest"
  shows "tokenize [] False 0 (column_out c @ rest) = tokenize (column_out c) False 0 rest"
proof -
  from assms have ok: "ident_ok (pc_name c)" "type_ok (pc_type c)" "value_ok (pc_value c)"
    by (auto simp: column_ok_def)
  have "tokenize [] False 0 (pc_name c @ r) = tokenize (pc_name c) False 0 r" for r
    using tokenize_bare [of "pc_name c" "[]" r] ok(1) ident_charD
    by (auto simp: ident_ok_def list_all_iff)
  then show ?thesis
    using tokenize_type [OF ok(2), of "pc_name c @ ''[''" "'']:'' @ value_out (pc_value c) @ rest"]
      tokenize_value [OF ok(3) assms(2), of "pc_name c @ ''['' @ pc_type c @ '']:''"]
    by (simp add: column_out_def)
qed

lemma last_double [simp]: "last (x # double_quotes s @ [quote]) = quote"
  by simp

lemma value_out_solid: "value_out v \<noteq> [] \<and> solid (value_out v)"
  by (cases v) (auto simp: solid_show_int, auto simp: solid_def)

lemma column_out_solid: "column_ok c \<Longrightarrow> column_out c \<noteq> [] \<and> solid (column_out c)"
  using value_out_solid [of "pc_value c"]
  by (cases "pc_name c") (auto simp: column_out_def column_ok_def ident_ok_def solid_def ident_char_def)

lemma tokenize_columns:
  "list_all column_ok cs \<Longrightarrow>
     tokenize [] False 0 (join_with '' '' (map column_out cs)) = map column_out cs"
proof (induction cs rule: induct_list012)
  case (2 c)
  then show ?case using tokenize_column [of c "[]"] column_out_solid [of c] by simp
next
  case (3 c d cs)
  then show ?case
    using tokenize_column [of c "CHR '' '' # join_with '' '' (map column_out (d # cs))"]
      column_out_solid [of c] by (simp add: token_space_def)
qed simp

lemma tokenize_parts_columns:
  "list_all column_ok cs \<Longrightarrow> tokenize_parts (join_with '' '' (map column_out cs)) = map column_out cs"
  using column_out_solid by (auto simp: tokenize_parts_def tokenize_columns list_all_iff filter_id_conv)

section \<open>Fields of a row\<close>

lemma ident_no_colon: "ident_ok s \<Longrightarrow> CHR '':'' \<notin> set s \<and> CHR ''['' \<notin> set s \<and> CHR ''.'' \<notin> set s"
  using ident_charD by (fastforce simp: ident_ok_def list_all_iff)

lemma ident_solid: "ident_ok s \<Longrightarrow> s \<noteq> [] \<and> solid s"
  by (auto simp: ident_ok_def solid_def list_all_iff ident_char_def)

lemma replace_double: "str_replace [quote, quote] [quote] (double_quotes s) = s"
proof (induction s)
  case (Cons c s)
  then show ?case
    by (subst str_replace.simps) (auto split: list.splits)
qed (simp add: str_replace.simps)

lemma value_no_quote: "(\<nexists>s. v = PgText s) \<Longrightarrow> \<not> starts_with quote (value_out v)"
proof (cases v)
  case (PgInt i)
  then show ?thesis using show_int_absent [of quote i] by (cases "show_int i") auto
qed auto

lemma sanitize_value_out:
  "sanitize_value (value_out v) = (case v of PgText s \<Rightarrow> s | _ \<Rightarrow> value_out v)"
proof (cases "\<exists>s. v = PgText s")
  case True
  then show ?thesis using value_out_solid [of v]
    by (auto simp: sanitize_value_def ends_with_def butlast_append replace_double)
next
  case False
  with value_no_quote [of v] value_out_solid [of v] show ?thesis
    by (cases v) (auto simp: sanitize_value_def)
qed

lemma parse_value_keywords:
  "parse_value ''null'' = Null" "parse_value ''true'' = Bool True" "parse_value ''false'' = Bool False"
proof -
  have "trim ''null'' = ''null''" "trim ''true'' = ''true''" "trim ''false'' = ''false''"
    by (rule trim_solid, simp add: solid_def)+
  moreover have "parse_signed 64 ''null'' = None" "parse_signed 64 ''true'' = None"
    "parse_signed 64 ''false'' = None"
    by code_simp+
  moreover have "parse_f64 ''null'' = None" "parse_f64 ''true'' = None" "parse_f64 ''false'' = None"
    by (simp_all add: parse_f64_def parse_f64_unsigned_def parse_decimal_def is_digit_def
        ascii_lower_def)
  moreover have "\<not> eq_ignore_ascii_case ''null'' ''true''" "\<not> eq_ignore_ascii_case ''null'' ''false''"
    "\<not> eq_ignore_ascii_case ''false'' ''true''" "eq_ignore_ascii_case ''null'' ''null''"
    "eq_ignore_ascii_case ''true'' ''true''" "eq_ignore_ascii_case ''false'' ''false''"
    by code_simp+
  ultimately show "parse_value ''null'' = Null" "parse_value ''true'' = Bool True"
    "parse_value ''false'' = Bool False"
    by (simp_all add: parse_value_def)
qed

lemma parse_value_out:
  assumes "value_ok v"
  shows "parse_value (sanitize_value (value_out v)) = value_json v"
proof (cases v)
  case (PgText s)
  then have "sanitize_value (value_out v) = s" using sanitize_value_out [of v] by simp
  with PgText assms show ?thesis
    by (auto simp: parse_value_def textual_def split: option.splits f64.splits)
next
  case (PgInt i)
  with assms show ?thesis
    using parse_show_signed [of 64 i] solid_show_int [of i] sanitize_value_out [of v]
    by (simp add: parse_value_def)
qed (use sanitize_value_out [of v] in \<open>simp_all add: parse_value_keywords\<close>)

lemma token_field_column:
  assumes "column_ok c"
  shows "token_field (column_out c) = Some (pc_name c, sanitize_value (value_out (pc_value c)))"
proof -
  from assms have ok: "ident_ok (pc_name c)" "type_ok (pc_type c)" by (auto simp: column_ok_def)
  let ?info = "pc_name c @ ''['' @ pc_type c @ '']''"
  have "CHR '':'' \<notin> set ?info" using ident_no_colon [OF ok(1)] ok(2) by (auto simp: type_ok_def list_all_iff)
  then have split: "split_once (CHR '':'') (column_out c) = Some (?info, value_out (pc_value c))"
    using split_once_append [of "CHR '':''" ?info] by (simp add: column_out_def)
  have "solid ?info" using ident_solid [OF ok(1)] by (auto simp: solid_def)
  then have "extract_column_name ?info = pc_name c"
    using ident_no_colon [OF ok(1)]
    by (simp add: extract_column_name_def trim_end_matches_def takeWhile_before)
  with \<open>solid ?info\<close> split value_out_solid [of "pc_value c"] show ?thesis
    by (simp add: token_field_def split_first_colon_def)
qed

section \<open>The round trip\<close>

definition column_entry :: "pg_column \<Rightarrow> string \<times> json" where
  "column_entry c = (pc_name c, value_json (pc_value c))"

definition insert_columns :: "pg_column list \<Rightarrow> fields \<Rightarrow> fields" where
  "insert_columns cs fs = fold (\<lambda>c. hm_insert (pc_name c) (value_json (pc_value c))) cs fs"

lemma insert_columns_get: "hm_get (insert_columns cs fs) = hm_get fs ++ map_of (rev (map column_entry cs))"
  by (simp add: insert_columns_def hm_get_fold_insert column_entry_def [abs_def])

lemma insert_columns_ok: "hm_ok fs \<Longrightarrow> hm_ok (insert_columns cs fs)"
  by (simp add: insert_columns_def hm_ok_fold_insert)

lemma row_insert_loop_columns:
  "list_all column_ok cs \<Longrightarrow> \<exists>pk'. row_insert_loop pk fs (map column_out cs) = (pk', insert_columns cs fs)"
  unfolding insert_columns_def
  by (induction cs arbitrary: pk fs)
    (auto simp: token_field_column parse_value_out column_ok_def)

lemma column_out_not_marker: "column_out c \<noteq> ''new-key:'' \<and> column_out c \<noteq> ''old-key:''"
proof -
  have "CHR ''['' \<in> set (column_out c)" by (simp add: column_out_def)
  then show ?thesis by auto
qed

lemma row_update_loop_columns:
  "list_all column_ok cs \<Longrightarrow>
     row_update_loop False pk fs [] (map column_out cs) = (pk, insert_columns cs fs, [])"
  unfolding insert_columns_def
  by (induction cs arbitrary: fs)
    (auto simp: token_field_column parse_value_out column_ok_def column_out_not_marker)

lemma row_of_columns:
  assumes "list_all column_ok cs"
  shows "\<exists>pk. row_of ty (map column_out cs) = (pk, json_of_fields (insert_columns cs []))"
proof -
  obtain pk where "row_insert_loop None [] (map column_out cs) = (pk, insert_columns cs [])"
    using row_insert_loop_columns [OF assms] by blast
  with row_update_loop_columns [OF assms] show ?thesis
    by (cases ty) (simp_all add: row_of_def parse_insert_data_def parse_delete_data_def
        parse_update_data_def)
qed

lemma join_columns_solid:
  "cs \<noteq> [] \<Longrightarrow> list_all column_ok cs \<Longrightarrow>
     join_with '' '' (map column_out cs) \<noteq> [] \<and> solid (join_with '' '' (map column_out cs))"
proof (induction cs rule: induct_list012)
  case (2 c)
  then show ?case using column_out_solid [of c] by simp
next
  case (3 c d cs)
  then show ?case
    using column_out_solid [of c] solid_around [of "column_out c" "join_with '' '' (map column_out (d # cs))" "'' ''"]
    by simp
qed simp

lemma split_table_names:
  assumes "ident_ok table"
  shows "split_table (schema @ ''.'' @ table) = (schema, table)"
  using split_once_append [of "CHR ''.''" "rev table" "rev schema"] ident_no_colon [OF assms]
  by (simp add: split_table_def)

lemma trim_colon_names:
  assumes "ident_ok table"
  shows "trim_end_matches (CHR '':'') (p @ table) = p @ table"
proof -
  from assms have "table \<noteq> []" by (simp add: ident_ok_def)
  then have "last table \<noteq> CHR '':''" using ident_no_colon [OF assms] last_in_set [of table] by metis
  with \<open>table \<noteq> []\<close> show ?thesis
    by (cases table rule: rev_cases) (simp_all add: trim_end_matches_def)
qed


definition demo_columns :: "pg_column list" where
  "demo_columns =
     [\<lparr>pc_name = ''id'', pc_type = ''integer'', pc_value = PgInt 7\<rparr>,
      \<lparr>pc_name = ''name'', pc_type = ''character varying'', pc_value = PgText ''O'Neil, a: b''\<rparr>,
      \<lparr>pc_name = ''gone'', pc_type = ''boolean'', pc_value = PgNull\<rparr>]"

lemma demo_text_is_textual: "textual ''O'Neil, a: b''"
proof -
  have "parse_signed 64 ''O'Neil, a: b'' = None" by code_simp
  moreover have "parse_f64 ''O'Neil, a: b'' = None"
    by (simp add: parse_f64_def parse_f64_unsigned_def parse_decimal_def is_digit_def ascii_lower_def)
  moreover have "\<not> eq_ignore_ascii_case ''O'Neil, a: b'' ''true''"
    "\<not> eq_ignore_ascii_case ''O'Neil, a: b'' ''false''"
    "\<not> eq_ignore_ascii_case ''O'Neil, a: b'' ''null''"
    by code_simp+
  ultimately show ?thesis by (simp add: textual_def solid_def)
qed


text \<open>Rows that are not read as they were written: a text column of digits becomes a number,
  an unchanged TOAST column the text of its marker, the marker \<open>new-tuple:\<close> of an update that
  changes its key a column, and after an opening bracket in a text the rest of the row is part
  of that column.\<close>

theorem test_decoding_misreadings:
  "value_json (PgText ''007'') = String ''007'' \<and>
   parse_value (sanitize_value (value_out (PgText ''007''))) = json_of_int 7 \<and>
   parse_value (sanitize_value ''unchanged-toast-datum'') = String ''unchanged-toast-datum'' \<and>
   row_of EtUpdate [''old-key:'', ''id[integer]:1'', ''new-tuple:'', ''id[integer]:2''] =
     (None, Object [(''id'', json_of_int 2), (''new-tuple'', Null)]) \<and>
   tokenize_parts (column_out \<lparr>pc_name = ''a'', pc_type = ''text'', pc_value = PgText ''x[''\<rparr> @ '' b[text]:null'') =
     [column_out \<lparr>pc_name = ''a'', pc_type = ''text'', pc_value = PgText ''x[''\<rparr> @ '' b[text]:null'']"
proof (intro conjI)
  have "trim ''007'' = ''007''" by (rule trim_solid) (simp add: solid_def)
  moreover have "parse_signed 64 ''007'' = Some 7" by code_simp
  moreover have "sanitize_value (value_out (PgText ''007'')) = ''007''"
    using sanitize_value_out [of "PgText ''007''"] by simp
  ultimately show "parse_value (sanitize_value (value_out (PgText ''007''))) = json_of_int 7"
    by (simp add: parse_value_def)
next
  let ?t = "''unchanged-toast-datum''"
  have "trim ?t = ?t" by (rule trim_solid) (simp add: solid_def)
  moreover have "parse_signed 64 ?t = None" by code_simp
  moreover have "parse_f64 ?t = None"
    by (simp add: parse_f64_def parse_f64_unsigned_def parse_decimal_def is_digit_def ascii_lower_def)
  moreover have "\<not> eq_ignore_ascii_case ?t ''true''" "\<not> eq_ignore_ascii_case ?t ''false''"
    "\<not> eq_ignore_ascii_case ?t ''null''"
    by code_simp+
  ultimately show "parse_value (sanitize_value ?t) = String ?t"
    by (simp add: parse_value_def sanitize_value_def)
next
  have trims: "trim ''2'' = ''2''" "trim ''1'' = ''1''" "trim [] = []"
    "trim ''id[integer]'' = ''id[integer]''" "trim ''new-tuple'' = ''new-tuple''"
    by (rule trim_solid, simp add: solid_def)+
  have fields: "token_field ''id[integer]:1'' = Some (''id'', ''1'')"
    "token_field ''id[integer]:2'' = Some (''id'', ''2'')"
    "token_field ''new-tuple:'' = Some (''new-tuple'', [])"
    by (simp_all add: token_field_def split_first_colon_def extract_column_name_def
        trim_end_matches_def sanitize_value_def trims)
  note trims
  moreover have "parse_signed 64 ''2'' = Some 2" "parse_signed 64 ''1'' = Some 1" by code_simp+
  ultimately have "parse_value ''2'' = json_of_int 2" "parse_value ''1'' = json_of_int 1"
    "parse_value [] = Null"
    by (simp_all add: parse_value_def)
  moreover have "sort_key fst [(''id'', x), (''new-tuple'', y)] = [(''id'', x), (''new-tuple'', y)]" for x y :: json
  proof -
    have "sorted [''id'', ''new-tuple'']" by code_simp
    then show ?thesis by simp
  qed
  ultimately show "row_of EtUpdate [''old-key:'', ''id[integer]:1'', ''new-tuple:'', ''id[integer]:2''] =
     (None, Object [(''id'', json_of_int 2), (''new-tuple'', Null)])"
    by (simp add: row_of_def parse_update_data_def fields json_of_fields_def)
next
  let ?row = "column_out \<lparr>pc_name = ''a'', pc_type = ''text'', pc_value = PgText ''x[''\<rparr> @ '' b[text]:null''"
  have "?row \<noteq> []" "trim ?row = ?row"
    by (simp add: column_out_def) (rule trim_solid, simp add: column_out_def solid_def)
  then show "tokenize_parts ?row = [?row]"
    by (simp add: tokenize_parts_def column_out_def token_space_def)
qed simp

end
