(* ===== verification/PgOutput.thy ===== *)
theory PgOutput
  imports Models Text
begin

text \<open>
  The parser of the \<open>pgoutput\<close> replication protocol, \<open>src/source/postgres/pgoutput.rs\<close>:
  the messages, the big-endian readers of the \<open>byteorder\<close> crate over a cursor, and the
  parser with its table of relations. A reader maps the bytes after the cursor to an error or
  to a value and the bytes that remain.
\<close>

section \<open>Messages\<close>

text \<open>Signed fields keep their word; \<open>sint\<close> reads them.\<close>

record begin_message =
  bm_final_lsn :: u64
  bm_timestamp :: u64
  bm_xid :: u32

record commit_message =
  cm_flags :: u8
  cm_commit_lsn :: u64
  cm_end_lsn :: u64
  cm_timestamp :: u64

record origin_message =
  om_commit_lsn :: u64
  om_name :: string

record column =
  col_flags :: u8
  col_name :: string
  col_type_id :: u32
  col_type_modifier :: u32

record relation_message =
  rm_relation_id :: u32
  rm_namespace :: string
  rm_relation_name :: string
  rm_replica_identity :: u8
  rm_columns :: "column list"

record type_message =
  tm_type_id :: u32
  tm_namespace :: string
  tm_name :: string

record tuple_data =
  td_columns :: "u8 list option list"

record insert_message =
  im_relation_id :: u32
  im_tuple :: tuple_data

record update_message =
  um_relation_id :: u32
  um_old_tuple :: "tuple_data option"
  um_new_tuple :: tuple_data

record delete_message =
  dm_relation_id :: u32
  dm_old_tuple :: tuple_data

record truncate_message =
  tr_relation_count :: u32
  tr_options :: u8
  tr_relation_ids :: "u32 list"

record keepalive_message =
  km_wal_end :: u64
  km_timestamp :: u64
  km_reply_requested :: bool

datatype pgoutput_message =
    MBegin begin_message
  | MCommit commit_message
  | MOrigin origin_message
  | MRelation relation_message
  | MType type_message
  | MInsert insert_message
  | MUpdate update_message
  | MDelete delete_message
  | MTruncate truncate_message
  | MKeepalive keepalive_message

section \<open>Readers\<close>

type_synonym 'a reader = "u8 list \<Rightarrow> error + 'a \<times> u8 list"

definition rret :: "'a \<Rightarrow> 'a reader" where
  "rret x bs = Inr (x, bs)"

definition rfail :: "error \<Rightarrow> 'a reader" where
  "rfail e bs = Inl e"

definition rbind :: "'a reader \<Rightarrow> ('a \<Rightarrow> 'b reader) \<Rightarrow> 'b reader" where
  "rbind r f bs = (case r bs of Inl e \<Rightarrow> Inl e | Inr (x, bs') \<Rightarrow> f x bs')"

fun rtimes :: "nat \<Rightarrow> 'a reader \<Rightarrow> 'a list reader" where
  "rtimes 0 r = rret []"
| "rtimes (Suc n) r = rbind r (\<lambda>x. rbind (rtimes n r) (\<lambda>xs. rret (x # xs)))"

text \<open>\<open>read_exact\<close> at the end of a cursor.\<close>

definition eof :: error where
  "eof = Io UnexpectedEof ''failed to fill whole buffer''"

definition read_bytes :: "nat \<Rightarrow> u8 list reader" where
  "read_bytes n bs = (if length bs < n then Inl eof else Inr (take n bs, drop n bs))"

definition be_value :: "u8 list \<Rightarrow> nat" where
  "be_value bs = foldl (\<lambda>acc b. acc * 256 + unat b) 0 bs"

definition read_u8 :: "u8 reader" where
  "read_u8 = rbind (read_bytes 1) (\<lambda>bs. rret (hd bs))"

definition read_u16 :: "u16 reader" where
  "read_u16 = rbind (read_bytes 2) (\<lambda>bs. rret (of_nat (be_value bs)))"

definition read_u32 :: "u32 reader" where
  "read_u32 = rbind (read_bytes 4) (\<lambda>bs. rret (of_nat (be_value bs)))"

definition read_u64 :: "u64 reader" where
  "read_u64 = rbind (read_bytes 8) (\<lambda>bs. rret (of_nat (be_value bs)))"

definition string_of_bytes :: "u8 list \<Rightarrow> string" where
  "string_of_bytes bs = map (\<lambda>b. char_of (unat b)) bs"

text \<open>A byte printed as a \<open>char\<close>.\<close>

definition byte_as_char :: "u8 \<Rightarrow> string" where
  "byte_as_char b =
     (if unat b < 128 then [char_of (unat b)]
      else [char_of (192 + unat b div 64), char_of (128 + unat b mod 64)])"

text \<open>\<open>read_string\<close>: the bytes up to a NUL, then \<open>String::from_utf8\<close>.\<close>

fun read_until_nul :: "u8 list reader" where
  "read_until_nul [] = Inl eof"
| "read_until_nul (b # bs) =
     (if b = 0 then Inr ([], bs)
      else (case read_until_nul bs of
              Inl e \<Rightarrow> Inl e
            | Inr (xs, rest) \<Rightarrow> Inr (b # xs, rest)))"

definition check_utf8 :: "u8 list \<Rightarrow> string reader" where
  "check_utf8 bytes =
     (case from_utf8 (string_of_bytes bytes) of
        None \<Rightarrow> rret (string_of_bytes bytes)
      | Some e \<Rightarrow> rfail (Source (''Invalid UTF-8 string: '' @ utf8_error_text e)))"

definition read_string :: "string reader" where
  "read_string = rbind read_until_nul check_utf8"

section \<open>The parsers\<close>

definition parse_begin :: "begin_message reader" where
  "parse_begin =
     rbind read_u64 (\<lambda>final_lsn.
     rbind read_u64 (\<lambda>timestamp.
     rbind read_u32 (\<lambda>xid.
     rret \<lparr>bm_final_lsn = final_lsn, bm_timestamp = timestamp, bm_xid = xid\<rparr>)))"

definition parse_commit :: "commit_message reader" where
  "parse_commit =
     rbind read_u8 (\<lambda>flags.
     rbind read_u64 (\<lambda>commit_lsn.
     rbind read_u64 (\<lambda>end_lsn.
     rbind read_u64 (\<lambda>timestamp.
     rret \<lparr>cm_flags = flags, cm_commit_lsn = commit_lsn, cm_end_lsn = end_lsn,
            cm_timestamp = timestamp\<rparr>))))"

definition parse_origin :: "origin_message reader" where
  "parse_origin =
     rbind read_u64 (\<lambda>commit_lsn.
     rbind read_string (\<lambda>name.
     rret \<lparr>om_commit_lsn = commit_lsn, om_name = name\<rparr>))"

definition parse_column :: "column reader" where
  "parse_column =
     rbind read_u8 (\<lambda>flags.
     rbind read_string (\<lambda>name.
     rbind read_u32 (\<lambda>type_id.
     rbind read_u32 (\<lambda>type_modifier.
     rret \<lparr>col_flags = flags, col_name = name, col_type_id = type_id,
            col_type_modifier = type_modifier\<rparr>))))"

definition parse_relation :: "relation_message reader" where
  "parse_relation =
     rbind read_u32 (\<lambda>relation_id.
     rbind read_string (\<lambda>namespace.
     rbind read_string (\<lambda>relation_name.
     rbind read_u8 (\<lambda>replica_identity.
     rbind read_u16 (\<lambda>column_count.
     rbind (rtimes (unat column_count) parse_column) (\<lambda>columns.
     rret \<lparr>rm_relation_id = relation_id, rm_namespace = namespace,
            rm_relation_name = relation_name, rm_replica_identity = replica_identity,
            rm_columns = columns\<rparr>))))))"

definition parse_type :: "type_message reader" where
  "parse_type =
     rbind read_u32 (\<lambda>type_id.
     rbind read_string (\<lambda>namespace.
     rbind read_string (\<lambda>name.
     rret \<lparr>tm_type_id = type_id, tm_namespace = namespace, tm_name = name\<rparr>)))"

definition parse_tuple_column :: "u8 list option reader" where
  "parse_tuple_column =
     rbind read_u8 (\<lambda>tuple_type.
       if tuple_type = 110 then rret None
       else if tuple_type = 116 then
         rbind read_u32 (\<lambda>len. rbind (read_bytes (unat len)) (\<lambda>data. rret (Some data)))
       else if tuple_type = 117 then rret None
       else rfail (Source (''Unknown tuple data type: '' @ byte_as_char tuple_type)))"

definition parse_tuple_data :: "tuple_data reader" where
  "parse_tuple_data =
     rbind read_u16 (\<lambda>column_count.
     rbind (rtimes (unat column_count) parse_tuple_column) (\<lambda>columns.
     rret \<lparr>td_columns = columns\<rparr>))"

definition parse_insert :: "insert_message reader" where
  "parse_insert =
     rbind read_u32 (\<lambda>relation_id.
     rbind read_u8 (\<lambda>tuple_type.
       if tuple_type \<noteq> 78 then
         rfail (Source (''Expected 'N' tuple type for INSERT, got '' @ byte_as_char tuple_type))
       else
         rbind parse_tuple_data (\<lambda>tuple.
         rret \<lparr>im_relation_id = relation_id, im_tuple = tuple\<rparr>)))"

definition parse_delete :: "delete_message reader" where
  "parse_delete =
     rbind read_u32 (\<lambda>relation_id.
     rbind read_u8 (\<lambda>tuple_type.
       if tuple_type \<noteq> 79 \<and> tuple_type \<noteq> 75 then
         rfail (Source (''Expected 'O' or 'K' tuple type for DELETE, got '' @ byte_as_char tuple_type))
       else
         rbind parse_tuple_data (\<lambda>old_tuple.
         rret \<lparr>dm_relation_id = relation_id, dm_old_tuple = old_tuple\<rparr>)))"

definition parse_truncate :: "truncate_message reader" where
  "parse_truncate =
     rbind read_u32 (\<lambda>relation_count.
     rbind read_u8 (\<lambda>options.
     rbind (rtimes (unat relation_count) read_u32) (\<lambda>relation_ids.
     rret \<lparr>tr_relation_count = relation_count, tr_options = options,
            tr_relation_ids = relation_ids\<rparr>)))"

definition parse_keepalive :: "keepalive_message reader" where
  "parse_keepalive =
     rbind read_u64 (\<lambda>wal_end.
     rbind read_u64 (\<lambda>timestamp.
     rbind read_u8 (\<lambda>reply.
     rret \<lparr>km_wal_end = wal_end, km_timestamp = timestamp, km_reply_requested = (reply \<noteq> 0)\<rparr>)))"

section \<open>Laws of the readers\<close>

text \<open>
  A \<open>streaming\<close> reader decides from the bytes it consumes: more input behind them changes
  nothing, and less input is an end-of-file error. It never goes back.
\<close>

definition streaming :: "'a reader \<Rightarrow> bool" where
  "streaming r \<longleftrightarrow>
     (\<forall>bs x rest. r bs = Inr (x, rest) \<longrightarrow>
        length rest \<le> length bs \<and> (\<forall>t. r (bs @ t) = Inr (x, rest @ t)) \<and>
        (\<forall>p t. bs = p @ t \<longrightarrow> r p = Inl eof \<or> (\<exists>rest'. rest = rest' @ t \<and> r p = Inr (x, rest'))))"

lemma streamingD:
  assumes "streaming r" and "r bs = Inr (x, rest)"
  shows "length rest \<le> length bs" and "r (bs @ t) = Inr (x, rest @ t)"
  using assms by (auto simp: streaming_def)

lemma streaming_cut:
  assumes "streaming r" and "r (p @ t) = Inr (x, rest)"
  obtains "r p = Inl eof" | rest' where "rest = rest' @ t" and "r p = Inr (x, rest')"
  using assms unfolding streaming_def by blast

lemma streaming_rret [intro!]: "streaming (rret x)"
  by (auto simp: streaming_def rret_def)

lemma streaming_rfail [intro!]: "streaming (rfail e)"
  by (auto simp: streaming_def rfail_def)

lemma streaming_rbind [intro!]:
  assumes "streaming r" and "\<And>x. streaming (f x)"
  shows "streaming (rbind r f)"
proof -
  have "length rest \<le> length bs \<and> (\<forall>t. rbind r f (bs @ t) = Inr (y, rest @ t)) \<and>
      (\<forall>p t. bs = p @ t \<longrightarrow> rbind r f p = Inl eof \<or>
         (\<exists>rest'. rest = rest' @ t \<and> rbind r f p = Inr (y, rest')))"
    if run: "rbind r f bs = Inr (y, rest)" for bs y rest
  proof -
    from run obtain x mid where r: "r bs = Inr (x, mid)" and f: "f x mid = Inr (y, rest)"
      by (auto simp: rbind_def split: sum.splits)
    note 1 = streamingD [OF assms(1) r] and 2 = streamingD [OF assms(2) f]
    have "rbind r f p = Inl eof \<or> (\<exists>rest'. rest = rest' @ t \<and> rbind r f p = Inr (y, rest'))"
      if bs: "bs = p @ t" for p t
    proof -
      from r bs have "r (p @ t) = Inr (x, mid)" by simp
      with assms(1) show ?thesis
      proof (cases rule: streaming_cut)
        case (2 mid')
        with f have "f x (mid' @ t) = Inr (y, rest)" by simp
        with assms(2) show ?thesis
          by (cases rule: streaming_cut) (use 2 in \<open>auto simp: rbind_def\<close>)
      qed (simp add: rbind_def)
    qed
    with 1 2 show ?thesis by (auto simp: rbind_def)
  qed
  then show ?thesis by (auto simp: streaming_def)
qed

lemma streaming_rtimes [intro!]: "streaming r \<Longrightarrow> streaming (rtimes n r)"
  by (induction n) auto

lemma streaming_read_bytes [intro!]: "streaming (read_bytes n)"
  by (auto simp: streaming_def read_bytes_def split: if_splits)

lemma streaming_numbers [intro!]:
  "streaming read_u8" "streaming read_u16" "streaming read_u32" "streaming read_u64"
  by (auto simp: read_u8_def read_u16_def read_u32_def read_u64_def)

lemma read_until_nul_run:
  "read_until_nul bs = Inr (xs, rest) \<longleftrightarrow> bs = xs @ 0 # rest \<and> 0 \<notin> set xs"
proof (induction bs arbitrary: xs)
  case (Cons b bs)
  show ?case
  proof (cases "b = 0")
    case True
    then show ?thesis by (cases xs) auto
  next
    case False
    then show ?thesis using Cons [of "tl xs"]
      by (cases xs; cases "read_until_nul bs") auto
  qed
qed simp

lemma read_until_nul_eof: "0 \<notin> set bs \<Longrightarrow> read_until_nul bs = Inl eof"
  by (induction bs) auto

lemma streaming_read_until_nul [intro!]: "streaming read_until_nul"
proof -
  have "read_until_nul p = Inl eof \<or>
      (\<exists>rest'. rest = rest' @ t \<and> read_until_nul p = Inr (xs, rest'))"
    if "p @ t = xs @ 0 # rest" "0 \<notin> set xs" for p t xs rest
  proof (cases "0 \<in> set p")
    case True
    then obtain a b where "p = a @ 0 # b" "0 \<notin> set a" by (meson split_list_first)
    with that show ?thesis
      by (auto simp: read_until_nul_run append_eq_append_conv2 Cons_eq_append_conv
          append_eq_Cons_conv)
  qed (simp add: read_until_nul_eof)
  then show ?thesis by (auto simp: streaming_def read_until_nul_run)
qed

lemma streaming_read_string [intro!]: "streaming read_string"
  unfolding read_string_def check_utf8_def by (auto split: option.splits)

lemma streaming_tuple [intro!]: "streaming parse_tuple_column" "streaming parse_tuple_data"
  by (auto simp: parse_tuple_column_def parse_tuple_data_def)

lemma streaming_parsers [intro!]:
  "streaming parse_begin" "streaming parse_commit" "streaming parse_origin"
  "streaming parse_relation" "streaming parse_type" "streaming parse_insert"
  "streaming parse_delete" "streaming parse_truncate" "streaming parse_keepalive"
  by (auto simp: parse_begin_def parse_commit_def parse_origin_def parse_column_def
      parse_relation_def parse_type_def parse_insert_def parse_delete_def parse_truncate_def
      parse_keepalive_def)

section \<open>The update message and the dispatch\<close>

text \<open>The loop runs while the cursor is before the end of the payload.\<close>

function update_loop ::
  "tuple_data option \<Rightarrow> tuple_data option \<Rightarrow> u8 list \<Rightarrow>
     error + tuple_data option \<times> tuple_data option" where
  "update_loop old_tuple new_tuple [] = Inr (old_tuple, new_tuple)"
| "update_loop old_tuple new_tuple (tuple_type # bs) =
     (if tuple_type = 79 \<or> tuple_type = 75 then
        (case parse_tuple_data bs of
           Inl e \<Rightarrow> Inl e
         | Inr (tuple, rest) \<Rightarrow> update_loop (Some tuple) new_tuple rest)
      else if tuple_type = 78 then
        (case parse_tuple_data bs of
           Inl e \<Rightarrow> Inl e
         | Inr (tuple, rest) \<Rightarrow> update_loop old_tuple (Some tuple) rest)
      else Inl (Source (''Unknown tuple type in UPDATE: '' @ byte_as_char tuple_type)))"
  by pat_completeness auto
termination
  by (relation "measure (\<lambda>(old, new, bs). length bs)")
    (auto dest!: streamingD(1) [OF streaming_tuple(2)])

definition parse_update :: "u8 list \<Rightarrow> update_message result" where
  "parse_update data =
     (case read_u32 data of
        Inl e \<Rightarrow> Inl e
      | Inr (relation_id, rest) \<Rightarrow>
          (case update_loop None None rest of
             Inl e \<Rightarrow> Inl e
           | Inr (old_tuple, None) \<Rightarrow> Inl (Source ''UPDATE missing new tuple'')
           | Inr (old_tuple, Some new_tuple) \<Rightarrow>
               Inr \<lparr>um_relation_id = relation_id, um_old_tuple = old_tuple,
                    um_new_tuple = new_tuple\<rparr>))"

record pgoutput_parser =
  po_relations :: "(u32, relation_message) hmap"

definition pgoutput_new :: pgoutput_parser where
  "pgoutput_new = \<lparr>po_relations = []\<rparr>"

definition get_relation :: "pgoutput_parser \<Rightarrow> u32 \<Rightarrow> relation_message option" where
  "get_relation parser relation_id = hm_get (po_relations parser) relation_id"

text \<open>The result of a parser as the message it builds; trailing bytes are not looked at.\<close>

definition message_of :: "('a \<Rightarrow> pgoutput_message) \<Rightarrow> error + 'a \<times> u8 list \<Rightarrow>
    pgoutput_message option result" where
  "message_of C r = (case r of Inl e \<Rightarrow> Inl e | Inr (x, rest) \<Rightarrow> Inr (Some (C x)))"

definition parse_message ::
  "pgoutput_parser \<Rightarrow> u8 list \<Rightarrow> pgoutput_message option result \<times> pgoutput_parser" where
  "parse_message parser data =
     (case data of
        [] \<Rightarrow> (Inr None, parser)
      | msg_type # payload \<Rightarrow>
          if msg_type = 66 then (message_of MBegin (parse_begin payload), parser)
          else if msg_type = 67 then (message_of MCommit (parse_commit payload), parser)
          else if msg_type = 79 then (message_of MOrigin (parse_origin payload), parser)
          else if msg_type = 82 then
            (case parse_relation payload of
               Inl e \<Rightarrow> (Inl e, parser)
             | Inr (relation, rest) \<Rightarrow>
                 (Inr (Some (MRelation relation)),
                  parser\<lparr>po_relations :=
                    hm_insert (rm_relation_id relation) relation (po_relations parser)\<rparr>))
          else if msg_type = 89 then (message_of MType (parse_type payload), parser)
          else if msg_type = 73 then (message_of MInsert (parse_insert payload), parser)
          else if msg_type = 85 then
            (case parse_update payload of
               Inl e \<Rightarrow> (Inl e, parser)
             | Inr m \<Rightarrow> (Inr (Some (MUpdate m)), parser))
          else if msg_type = 68 then (message_of MDelete (parse_delete payload), parser)
          else if msg_type = 84 then (message_of MTruncate (parse_truncate payload), parser)
          else if msg_type = 107 then (message_of MKeepalive (parse_keepalive payload), parser)
          else (Inr None, parser))"

section \<open>The protocol\<close>

text \<open>What PostgreSQL sends: the encoding the protocol documentation describes.\<close>

fun enc_be :: "nat \<Rightarrow> nat \<Rightarrow> u8 list" where
  "enc_be 0 v = []"
| "enc_be (Suc n) v = of_nat (v div 256 ^ n) # enc_be n v"

definition enc_u16 :: "u16 \<Rightarrow> u8 list" where "enc_u16 w = enc_be 2 (unat w)"
definition enc_u32 :: "u32 \<Rightarrow> u8 list" where "enc_u32 w = enc_be 4 (unat w)"
definition enc_u64 :: "u64 \<Rightarrow> u8 list" where "enc_u64 w = enc_be 8 (unat w)"

definition enc_string :: "string \<Rightarrow> u8 list" where
  "enc_string s = map (\<lambda>c. of_nat (code c)) s @ [0]"

definition string_ok :: "string \<Rightarrow> bool" where
  "string_ok s \<longleftrightarrow> CHR 0x00 \<notin> set s \<and> utf8_valid s"

lemma length_enc_be [simp]: "length (enc_be n v) = n"
  by (induction n) auto

lemma be_value_acc: "foldl (\<lambda>acc (b::u8). acc * 256 + unat b) a (enc_be n v) = a * 256 ^ n + v mod 256 ^ n"
proof (induction n arbitrary: a)
  case (Suc n)
  have "unat (of_nat (v div 256 ^ n) :: u8) = v div 256 ^ n mod 256"
    by (simp add: unat_of_nat)
  moreover have "v mod 256 ^ Suc n = v div 256 ^ n mod 256 * 256 ^ n + v mod 256 ^ n"
    using mod_mult2_eq [of v "256 ^ n" 256] by (simp add: mult.commute)
  ultimately show ?case using Suc by (simp add: algebra_simps)
qed simp

lemma be_value_enc_be: "v < 256 ^ n \<Longrightarrow> be_value (enc_be n v) = v"
  by (simp add: be_value_def be_value_acc)

lemma read_bytes_append: "length bs = n \<Longrightarrow> read_bytes n (bs @ rest) = Inr (bs, rest)"
  by (simp add: read_bytes_def)

named_theorems wire \<open>reading back what was encoded\<close>

lemma read_u8_enc [wire]: "read_u8 (b # rest) = Inr (b, rest)"
  by (simp add: read_u8_def rbind_def read_bytes_def rret_def)

lemma read_u16_enc [wire]: "read_u16 (enc_u16 w @ rest) = Inr (w, rest)"
  using unsigned_less [of w, where 'a = nat]
  by (simp add: read_u16_def enc_u16_def rbind_def read_bytes_append rret_def be_value_enc_be)

lemma read_u32_enc [wire]: "read_u32 (enc_u32 w @ rest) = Inr (w, rest)"
  using unsigned_less [of w, where 'a = nat]
  by (simp add: read_u32_def enc_u32_def rbind_def read_bytes_append rret_def be_value_enc_be)

lemma read_u64_enc [wire]: "read_u64 (enc_u64 w @ rest) = Inr (w, rest)"
  using unsigned_less [of w, where 'a = nat]
  by (simp add: read_u64_def enc_u64_def rbind_def read_bytes_append rret_def be_value_enc_be)

lemma code_less: "code c < 256"
  by (metis mod_less_divisor of_char_mod_256 zero_less_numeral)

lemma string_of_enc: "string_of_bytes (map (\<lambda>c. of_nat (code c)) s) = s"
  by (induction s) (auto simp: string_of_bytes_def unat_of_nat code_less)

lemma read_string_enc [wire]:
  assumes "string_ok s"
  shows "read_string (enc_string s @ rest) = Inr (s, rest)"
proof -
  have "of_nat (code c) \<noteq> (0 :: u8)" if "c \<in> set s" for c
  proof
    assume "of_nat (code c) = (0 :: u8)"
    then have "code c = 0" using code_less [of c] by (simp add: word_unat_eq_iff unat_of_nat)
    then have "c = CHR 0x00" by (simp flip: of_char_eq_iff [where 'a = nat])
    with that assms show False by (simp add: string_ok_def)
  qed
  then have "read_until_nul (enc_string s @ rest) = Inr (map (\<lambda>c. of_nat (code c)) s, rest)"
    by (auto simp: read_until_nul_run enc_string_def)
  with assms show ?thesis
    by (simp add: read_string_def rbind_def check_utf8_def string_of_enc string_ok_def
        utf8_valid_def rret_def)
qed

text \<open>A tuple column is NULL or a text; a count or a length must fit its field.\<close>

fun enc_tuple_column :: "u8 list option \<Rightarrow> u8 list" where
  "enc_tuple_column None = [110]"
| "enc_tuple_column (Some data) = 116 # enc_u32 (of_nat (length data)) @ data"

definition enc_tuple :: "tuple_data \<Rightarrow> u8 list" where
  "enc_tuple t = enc_u16 (of_nat (length (td_columns t))) @ concat (map enc_tuple_column (td_columns t))"

definition column_data_ok :: "u8 list option \<Rightarrow> bool" where
  "column_data_ok c \<longleftrightarrow> (case c of None \<Rightarrow> True | Some data \<Rightarrow> length data < 2 ^ 32)"

definition tuple_ok :: "tuple_data \<Rightarrow> bool" where
  "tuple_ok t \<longleftrightarrow> length (td_columns t) < 2 ^ 16 \<and> list_all column_data_ok (td_columns t)"

definition enc_column :: "column \<Rightarrow> u8 list" where
  "enc_column c = col_flags c # enc_string (col_name c) @ enc_u32 (col_type_id c) @
     enc_u32 (col_type_modifier c)"

fun enc_payload :: "pgoutput_message \<Rightarrow> u8 list" where
  "enc_payload (MBegin m) =
     enc_u64 (bm_final_lsn m) @ enc_u64 (bm_timestamp m) @ enc_u32 (bm_xid m)"
| "enc_payload (MCommit m) =
     cm_flags m # enc_u64 (cm_commit_lsn m) @ enc_u64 (cm_end_lsn m) @ enc_u64 (cm_timestamp m)"
| "enc_payload (MOrigin m) = enc_u64 (om_commit_lsn m) @ enc_string (om_name m)"
| "enc_payload (MRelation m) =
     enc_u32 (rm_relation_id m) @ enc_string (rm_namespace m) @ enc_string (rm_relation_name m) @
     rm_replica_identity m # enc_u16 (of_nat (length (rm_columns m))) @
     concat (map enc_column (rm_columns m))"
| "enc_payload (MType m) = enc_u32 (tm_type_id m) @ enc_string (tm_namespace m) @ enc_string (tm_name m)"
| "enc_payload (MInsert m) = enc_u32 (im_relation_id m) @ 78 # enc_tuple (im_tuple m)"
| "enc_payload (MUpdate m) =
     enc_u32 (um_relation_id m) @
     (case um_old_tuple m of None \<Rightarrow> [] | Some t \<Rightarrow> 79 # enc_tuple t) @ 78 # enc_tuple (um_new_tuple m)"
| "enc_payload (MDelete m) = enc_u32 (dm_relation_id m) @ 79 # enc_tuple (dm_old_tuple m)"
| "enc_payload (MTruncate m) =
     enc_u32 (tr_relation_count m) @ tr_options m # concat (map enc_u32 (tr_relation_ids m))"
| "enc_payload (MKeepalive m) =
     enc_u64 (km_wal_end m) @ enc_u64 (km_timestamp m) @ [if km_reply_requested m then 1 else 0]"

fun message_tag :: "pgoutput_message \<Rightarrow> u8" where
  "message_tag (MBegin m) = 66"
| "message_tag (MCommit m) = 67"
| "message_tag (MOrigin m) = 79"
| "message_tag (MRelation m) = 82"
| "message_tag (MType m) = 89"
| "message_tag (MInsert m) = 73"
| "message_tag (MUpdate m) = 85"
| "message_tag (MDelete m) = 68"
| "message_tag (MTruncate m) = 84"
| "message_tag (MKeepalive m) = 107"

definition enc_message :: "pgoutput_message \<Rightarrow> u8 list" where
  "enc_message m = message_tag m # enc_payload m"

fun message_ok :: "pgoutput_message \<Rightarrow> bool" where
  "message_ok (MOrigin m) = string_ok (om_name m)"
| "message_ok (MRelation m) =
     (string_ok (rm_namespace m) \<and> string_ok (rm_relation_name m) \<and>
      length (rm_columns m) < 2 ^ 16 \<and> list_all (\<lambda>c. string_ok (col_name c)) (rm_columns m))"
| "message_ok (MType m) = (string_ok (tm_namespace m) \<and> string_ok (tm_name m))"
| "message_ok (MInsert m) = tuple_ok (im_tuple m)"
| "message_ok (MUpdate m) = (pred_option tuple_ok (um_old_tuple m) \<and> tuple_ok (um_new_tuple m))"
| "message_ok (MDelete m) = tuple_ok (dm_old_tuple m)"
| "message_ok (MTruncate m) = (unat (tr_relation_count m) = length (tr_relation_ids m))"
| "message_ok _ = True"

lemma rtimes_enc:
  assumes "\<And>x rest. x \<in> set xs \<Longrightarrow> r (enc x @ rest) = Inr (x, rest)"
  shows "rtimes (length xs) r (concat (map enc xs) @ rest) = Inr (xs, rest)"
  using assms by (induction xs) (auto simp: rbind_def rret_def)

lemma tuple_column_enc: "column_data_ok c \<Longrightarrow> parse_tuple_column (enc_tuple_column c @ rest) = Inr (c, rest)"
  by (cases c) (simp_all add: parse_tuple_column_def rbind_def rret_def wire column_data_ok_def
      unat_of_nat read_bytes_append)

lemma tuple_enc [wire]:
  assumes "tuple_ok t"
  shows "parse_tuple_data (enc_tuple t @ rest) = Inr (t, rest)"
  using assms rtimes_enc [of "td_columns t" parse_tuple_column enc_tuple_column] tuple_column_enc
  by (cases t) (simp add: parse_tuple_data_def rbind_def rret_def wire enc_tuple_def tuple_ok_def
      list_all_iff unat_of_nat)

lemma column_enc: "string_ok (col_name c) \<Longrightarrow> parse_column (enc_column c @ rest) = Inr (c, rest)"
  by (cases c) (simp add: parse_column_def rbind_def rret_def wire enc_column_def)

text \<open>The interface of a reader with its encoder, and what follows for a whole payload.\<close>

locale codec =
  fixes rd :: "'a reader" and enc :: "'a \<Rightarrow> u8 list" and ok :: "'a \<Rightarrow> bool"
  assumes streams: "streaming rd"
    and reads_back: "ok x \<Longrightarrow> rd (enc x @ rest) = Inr (x, rest)"
begin

lemma whole: "ok x \<Longrightarrow> rd (enc x) = Inr (x, [])"
  using reads_back [of x "[]"] by simp

lemma cut:
  assumes "ok x" and "enc x = p @ t" and "t \<noteq> []"
  shows "rd p = Inl eof"
proof -
  from assms whole have "rd (p @ t) = Inr (x, [])" by metis
  with streams show ?thesis by (cases rule: streaming_cut) (use assms(3) in auto)
qed

lemma no_prefix:
  assumes "ok x" and "ok y" and "enc x = enc y @ t"
  shows "x = y \<and> t = []"
  using trans [OF sym [OF whole [OF assms(1), unfolded assms(3)]] reads_back [OF assms(2)]] by simp

end

interpretation tuple_codec: codec parse_tuple_data enc_tuple tuple_ok
  by unfold_locales (auto simp: wire)

abbreviation payload_ok :: "('a \<Rightarrow> pgoutput_message) \<Rightarrow> 'a \<Rightarrow> bool" where
  "payload_ok C x \<equiv> message_ok (C x)"

interpretation begin_msg: codec parse_begin "\<lambda>m. enc_payload (MBegin m)" "payload_ok MBegin"
  by unfold_locales (auto simp: wire parse_begin_def rbind_def rret_def)

interpretation commit_msg: codec parse_commit "\<lambda>m. enc_payload (MCommit m)" "payload_ok MCommit"
  by unfold_locales (auto simp: wire parse_commit_def rbind_def rret_def)

interpretation origin_msg: codec parse_origin "\<lambda>m. enc_payload (MOrigin m)" "payload_ok MOrigin"
  by unfold_locales (auto simp: wire parse_origin_def rbind_def rret_def)

interpretation relation_msg: codec parse_relation "\<lambda>m. enc_payload (MRelation m)" "payload_ok MRelation"
proof unfold_locales
  fix m rest assume ok: "payload_ok MRelation m"
  then have "rtimes (length (rm_columns m)) parse_column
      (concat (map enc_column (rm_columns m)) @ rest) = Inr (rm_columns m, rest)"
    by (intro rtimes_enc column_enc) (auto simp: list_all_iff)
  with ok show "parse_relation (enc_payload (MRelation m) @ rest) = Inr (m, rest)"
    by (simp add: wire parse_relation_def rbind_def rret_def unat_of_nat)
qed auto

interpretation type_msg: codec parse_type "\<lambda>m. enc_payload (MType m)" "payload_ok MType"
  by unfold_locales (auto simp: wire parse_type_def rbind_def rret_def)

interpretation insert_msg: codec parse_insert "\<lambda>m. enc_payload (MInsert m)" "payload_ok MInsert"
  by unfold_locales (auto simp: wire parse_insert_def rbind_def rret_def)

interpretation delete_msg: codec parse_delete "\<lambda>m. enc_payload (MDelete m)" "payload_ok MDelete"
  by unfold_locales (auto simp: wire parse_delete_def rbind_def rret_def)

interpretation truncate_msg: codec parse_truncate "\<lambda>m. enc_payload (MTruncate m)" "payload_ok MTruncate"
proof unfold_locales
  fix m rest assume ok: "payload_ok MTruncate m"
  have "rtimes (length (tr_relation_ids m)) read_u32
      (concat (map enc_u32 (tr_relation_ids m)) @ rest) = Inr (tr_relation_ids m, rest)"
    by (intro rtimes_enc read_u32_enc)
  with ok show "parse_truncate (enc_payload (MTruncate m) @ rest) = Inr (m, rest)"
    by (simp add: wire parse_truncate_def rbind_def rret_def)
qed auto

interpretation keepalive_msg: codec parse_keepalive "\<lambda>m. enc_payload (MKeepalive m)" "payload_ok MKeepalive"
  by unfold_locales (auto simp: wire parse_keepalive_def rbind_def rret_def)

lemma update_loop_enc:
  assumes "tuple_ok new" and "pred_option tuple_ok old"
  shows "update_loop None None ((case old of None \<Rightarrow> [] | Some t \<Rightarrow> 79 # enc_tuple t) @
     78 # enc_tuple new) = Inr (old, Some new)"
  using assms by (cases old) (auto simp: wire tuple_codec.whole)

lemma parse_update_enc:
  "message_ok (MUpdate m) \<Longrightarrow> parse_update (enc_payload (MUpdate m)) = Inr m"
  using update_loop_enc [of "um_new_tuple m" "um_old_tuple m"]
  by (simp add: parse_update_def wire)

lemma last_tuple_cut:
  assumes "tuple_ok new" and "78 # enc_tuple new = p @ t" and "t \<noteq> []"
  shows "update_loop old None p = (if p = [] then Inr (old, None) else Inl eof)"
proof (cases p)
  case (Cons c q)
  with assms have "c = 78" "enc_tuple new = q @ t" by auto
  with tuple_codec.cut [OF assms(1) _ assms(3)] Cons show ?thesis by simp
qed simp

lemma update_loop_cut:
  assumes "tuple_ok new" and "pred_option tuple_ok old"
    and "(case old of None \<Rightarrow> [] | Some t \<Rightarrow> 79 # enc_tuple t) @ 78 # enc_tuple new = p @ t" and "t \<noteq> []"
  shows "update_loop None None p = Inl eof \<or> (\<exists>tup. update_loop None None p = Inr (tup, None))"
proof (cases old)
  case None
  with assms last_tuple_cut [of new p t None] show ?thesis by auto
next
  case (Some tup)
  with assms(3) have eq: "(79 # enc_tuple tup) @ 78 # enc_tuple new = p @ t" by simp
  from Some assms(2) have tup: "tuple_ok tup" by simp
  show ?thesis
  proof (cases "length p < length (79 # enc_tuple tup)")
    case True
    with eq obtain u where u: "79 # enc_tuple tup = p @ u" "u \<noteq> []"
      by (elim append_eq_shorter)
    show ?thesis
    proof (cases p)
      case (Cons c q)
      with u have "c = 79" "enc_tuple tup = q @ u" by auto
      with tuple_codec.cut [OF tup _ u(2)] Cons show ?thesis by simp
    qed simp
  next
    case False
    then have "length (79 # enc_tuple tup) \<le> length p" by simp
    with eq obtain q where q: "p = (79 # enc_tuple tup) @ q" "78 # enc_tuple new = q @ t"
      by (elim append_eq_longer)
    with tup last_tuple_cut [OF assms(1) q(2) assms(4), of "Some tup"] show ?thesis
      by (auto simp: wire)
  qed
qed

lemma parse_update_cut:
  assumes "message_ok (MUpdate m)" and "enc_payload (MUpdate m) = p @ t" and "t \<noteq> []"
  shows "parse_update p = Inl eof \<or> parse_update p = Inl (Source ''UPDATE missing new tuple'')"
proof (cases "length p < 4")
  case True
  then have "read_u32 p = Inl eof" by (simp add: read_u32_def rbind_def read_bytes_def)
  then show ?thesis by (simp add: parse_update_def)
next
  case False
  then have "length (enc_u32 (um_relation_id m)) \<le> length p" by (simp add: enc_u32_def)
  then obtain q where q: "p = enc_u32 (um_relation_id m) @ q"
      "(case um_old_tuple m of None \<Rightarrow> [] | Some t \<Rightarrow> 79 # enc_tuple t) @ 78 # enc_tuple (um_new_tuple m) = q @ t"
    using assms(2) [unfolded enc_payload.simps] by (elim append_eq_longer [rotated])
  with update_loop_cut [OF _ _ q(2) assms(3)] assms(1) show ?thesis
    by (auto simp: parse_update_def wire)
qed

text \<open>C12. Whatever message PostgreSQL encodes is parsed back, and only a relation message
  changes the parser: it becomes the relation its identifier is looked up as.\<close>

theorem parse_message_roundtrip:
  assumes "message_ok m"
  shows "parse_message parser (enc_message m) =
     (Inr (Some m),
      (case m of
         MRelation r \<Rightarrow> parser\<lparr>po_relations := hm_insert (rm_relation_id r) r (po_relations parser)\<rparr>
       | _ \<Rightarrow> parser))"
  using assms
  by (cases m) (simp_all only: parse_message_def enc_message_def message_tag.simps list.case
      begin_msg.whole commit_msg.whole origin_msg.whole relation_msg.whole type_msg.whole
      insert_msg.whole delete_msg.whole truncate_msg.whole keepalive_msg.whole parse_update_enc
      message_of_def sum.case prod.case if_True if_False pgoutput_message.case
      word_eq_numeral_iff_iszero simp_thms, simp_all)

definition demo_relation :: relation_message where
  "demo_relation =
     \<lparr>rm_relation_id = 7, rm_namespace = ''public'', rm_relation_name = ''users'',
      rm_replica_identity = 100,
      rm_columns = [\<lparr>col_flags = 1, col_name = ''id'', col_type_id = 23, col_type_modifier = -1\<rparr>]\<rparr>"

lemma demo_relation_ok: "message_ok (MRelation demo_relation)"
  by (simp add: demo_relation_def string_ok_def utf8_valid_ascii)

theorem parse_message_roundtrip_witness:
  "parse_message pgoutput_new (enc_message (MRelation demo_relation)) =
     (Inr (Some (MRelation demo_relation)), \<lparr>po_relations = [(7, demo_relation)]\<rparr>)"
  using parse_message_roundtrip [OF demo_relation_ok, of pgoutput_new]
  by (simp add: pgoutput_new_def demo_relation_def)

text \<open>C13. A message cut off anywhere behind its tag is an error and leaves the parser as it
  was: the end of file of the reader, or for an update the missing new tuple.\<close>

theorem parse_message_truncated:
  assumes "message_ok m" and "enc_message m = p @ t" and "p \<noteq> []" and "t \<noteq> []"
  shows "\<exists>e. parse_message parser p = (Inl e, parser) \<and>
     (e = eof \<or> (\<exists>u. m = MUpdate u) \<and> e = Source ''UPDATE missing new tuple'')"
proof -
  from assms(2,3) obtain q where q: "p = message_tag m # q" "enc_payload m = q @ t"
    by (cases p) (auto simp: enc_message_def)
  show ?thesis
  proof (cases m)
    case (MUpdate u)
    with parse_update_cut [of u q t] assms(1,4) q show ?thesis
      by (auto simp: parse_message_def)
  qed (use q assms(1,4) in \<open>simp_all add: parse_message_def message_of_def begin_msg.cut commit_msg.cut
      origin_msg.cut relation_msg.cut type_msg.cut insert_msg.cut delete_msg.cut truncate_msg.cut
      keepalive_msg.cut del: enc_payload.simps message_ok.simps\<close>)
qed

definition demo_begin :: begin_message where
  "demo_begin = \<lparr>bm_final_lsn = 5, bm_timestamp = 0, bm_xid = 0\<rparr>"

theorem parse_message_truncated_witness:
  "\<exists>e. parse_message pgoutput_new (take 3 (enc_message (MBegin demo_begin))) = (Inl e, pgoutput_new)"
proof -
  have "length (enc_message (MBegin demo_begin)) = 21"
    by (simp add: enc_message_def enc_u64_def enc_u32_def)
  then have "take 3 (enc_message (MBegin demo_begin)) \<noteq> []" "drop 3 (enc_message (MBegin demo_begin)) \<noteq> []"
    by auto
  with parse_message_truncated [of "MBegin demo_begin" "take 3 (enc_message (MBegin demo_begin))"
      "drop 3 (enc_message (MBegin demo_begin))" pgoutput_new]
  show ?thesis by (metis append_take_drop_id message_ok.simps(8))
qed

text \<open>The parser erases the difference between a NULL and an unchanged TOAST value: a
  tuple whose columns are NULL or \<open>u\<close> is read as the tuple of all NULLs, whatever the marks.\<close>

theorem unchanged_toast_reads_as_null:
  assumes "length marks < 2 ^ 16"
  shows "parse_tuple_data (enc_u16 (of_nat (length marks)) @
       map (\<lambda>unchanged. if unchanged then 117 else 110) marks @ rest) =
     Inr (\<lparr>td_columns = replicate (length marks) None\<rparr>, rest)"
proof -
  have "rtimes (length marks) parse_tuple_column
      (map (\<lambda>unchanged. if unchanged then 117 else 110) marks @ rest) =
        Inr (replicate (length marks) None, rest)"
    by (induction marks) (auto simp: rbind_def rret_def parse_tuple_column_def wire)
  with assms show ?thesis
    by (simp add: parse_tuple_data_def rbind_def rret_def wire unat_of_nat)
qed

theorem unchanged_toast_reads_as_null_witness:
  "parse_tuple_data (enc_u16 2 @ [110, 117]) = Inr (\<lparr>td_columns = [None, None]\<rparr>, [])"
  using unchanged_toast_reads_as_null [of "[False, True]" "[]"] by simp

end
