(* ===== verification/WalConsumer.thy ===== *)
theory WalConsumer
  imports PgOutput PgTypes
begin

text \<open>
  From replication messages to change events, \<open>src/source/postgres/wal_consumer.rs\<close>: the
  events of \<open>pgoutput\<close> messages with their relation, and the parser of the text format. The
  polling task around them runs SQL and is not modelled.
\<close>

section \<open>Events of \<open>pgoutput\<close> messages\<close>

text \<open>The loop of \<open>_decode_tuple_data\<close>; columns beyond the relation are skipped, a decoding error is null.
  The outer option is the panic of \<open>decode_value\<close>.\<close>

fun decode_columns ::
  "(string \<Rightarrow> json option) \<Rightarrow> column list \<Rightarrow> u8 list option list \<Rightarrow> fields \<Rightarrow> fields option" where
  "decode_columns from_str columns [] data = Some data"
| "decode_columns from_str [] values data = Some data"
| "decode_columns from_str (column # columns) (value # values) data =
     (case value of
        None \<Rightarrow> decode_columns from_str columns values (hm_insert (col_name column) Null data)
      | Some bytes \<Rightarrow>
          (case decode_value from_str (string_of_bytes bytes) (col_type_id column) of
             None \<Rightarrow> None
           | Some r \<Rightarrow>
               decode_columns from_str columns values
                 (hm_insert (col_name column) (case r of Inl e \<Rightarrow> Null | Inr v \<Rightarrow> v) data)))"

definition decode_tuple_data ::
  "(string \<Rightarrow> json option) \<Rightarrow> tuple_data \<Rightarrow> relation_message \<Rightarrow> fields option" where
  "decode_tuple_data from_str tuple relation =
     decode_columns from_str (rm_columns relation) (td_columns tuple) []"

definition tuple_event ::
  "(string \<Rightarrow> json option) \<Rightarrow> time \<Rightarrow> event_type \<Rightarrow> pgoutput_parser \<Rightarrow> u32 \<Rightarrow> tuple_data \<Rightarrow>
     stream_event option option" where
  "tuple_event from_str now ty parser relation_id tuple =
     (case get_relation parser relation_id of
        None \<Rightarrow> Some None
      | Some relation \<Rightarrow>
          map_option (\<lambda>data. Some (EvCdc
              \<lparr>cdc_event_type = ty, cdc_table = rm_relation_name relation,
               cdc_schema = rm_namespace relation, cdc_data = data, cdc_timestamp = now,
               cdc_position = None\<rparr>))
            (decode_tuple_data from_str tuple relation))"

fun process_pgoutput_message ::
  "(string \<Rightarrow> json option) \<Rightarrow> time \<Rightarrow> pgoutput_message \<Rightarrow> pgoutput_parser \<Rightarrow> stream_event option option" where
  "process_pgoutput_message from_str now (MInsert m) parser =
     tuple_event from_str now EtCreate parser (im_relation_id m) (im_tuple m)"
| "process_pgoutput_message from_str now (MUpdate m) parser =
     tuple_event from_str now EtUpdate parser (um_relation_id m) (um_new_tuple m)"
| "process_pgoutput_message from_str now (MDelete m) parser =
     tuple_event from_str now EtDelete parser (dm_relation_id m) (dm_old_tuple m)"
| "process_pgoutput_message from_str now _ parser = Some None"

section \<open>The text format\<close>

abbreviation apos :: char where "apos \<equiv> CHR 0x27"

text \<open>The value of a completed field; the slice of a lone quote panics.\<close>

definition field_value :: "string \<Rightarrow> json option" where
  "field_value v =
     (if starts_with apos v \<and> ends_with apos v then map_option String (inner v)
      else if v = ''null'' then Some Null
      else
        (case parse_signed 64 v of
           Some n \<Rightarrow> Some (json_of_int n)
         | None \<Rightarrow>
             (case parse_f64 v of
                Some f \<Rightarrow> Some (json_of_f64 f)
              | None \<Rightarrow>
                  if v = ''true'' \<or> v = ''false'' then Some (Bool (v = ''true''))
                  else Some (String v))))"

definition field_name :: "string \<Rightarrow> string \<Rightarrow> string" where
  "field_name current_field current_value =
     (if CHR ''['' \<in> set current_value then trim (takeWhile (\<lambda>c. c \<noteq> CHR ''['') current_value)
      else current_field)"

fun field_loop :: "string \<Rightarrow> string \<Rightarrow> bool \<Rightarrow> bool \<Rightarrow> fields \<Rightarrow> string \<Rightarrow> fields option" where
  "field_loop current_field current_value in_quotes in_brackets data [] =
     (if current_field \<noteq> [] \<and> current_value \<noteq> []
      then map_option (\<lambda>v. hm_insert current_field v data) (field_value current_value)
      else Some data)"
| "field_loop current_field current_value in_quotes in_brackets data (ch # chars) =
     (if ch = CHR ''['' \<and> \<not> in_quotes then field_loop current_field current_value in_quotes True data chars
      else if ch = CHR '']'' \<and> \<not> in_quotes
        then field_loop current_field current_value in_quotes False data chars
      else if ch = apos \<and> \<not> in_brackets
        then field_loop current_field current_value (\<not> in_quotes) in_brackets data chars
      else if ch = CHR '':'' \<and> \<not> in_quotes \<and> \<not> in_brackets \<and> current_field = []
        then field_loop (field_name current_field current_value) [] in_quotes in_brackets data chars
      else if ch = CHR '' '' \<and> \<not> in_quotes \<and> current_field \<noteq> [] then
        (case field_value current_value of
           None \<Rightarrow> None
         | Some v \<Rightarrow> field_loop [] [] in_quotes in_brackets (hm_insert current_field v data) chars)
      else field_loop current_field (current_value @ [ch]) in_quotes in_brackets data chars)"

definition logical_operation :: "string \<Rightarrow> event_type option" where
  "logical_operation operation =
     (if operation = ''INSERT'' then Some EtCreate
      else if operation = ''UPDATE'' then Some EtUpdate
      else if operation = ''DELETE'' then Some EtDelete
      else None)"

definition parse_logical_decoding_message :: "time \<Rightarrow> string \<Rightarrow> stream_event option option" where
  "parse_logical_decoding_message now data =
     (let parts = split_on (CHR '':'') data in
      if length parts < 3 then Some None
      else
        let table_info = trim (parts ! 0) in
        if \<not> str_prefix ''table '' table_info then Some None
        else
          (case split_on (CHR ''.'') (drop 6 table_info) of
             [schema, table] \<Rightarrow>
               (case logical_operation (trim (parts ! 1)) of
                  None \<Rightarrow> Some None
                | Some ty \<Rightarrow>
                    map_option (\<lambda>m. Some (EvCdc
                        \<lparr>cdc_event_type = ty, cdc_table = table, cdc_schema = schema, cdc_data = m,
                         cdc_timestamp = now, cdc_position = None\<rparr>))
                      (field_loop [] [] False False [] (join_with '':'' (drop 2 parts))))
           | _ \<Rightarrow> Some None))"

section \<open>Tuples\<close>

text \<open>Each value next to the column it belongs to; the last of equal names counts.\<close>

definition column_json :: "(string \<Rightarrow> json option) \<Rightarrow> column \<times> u8 list option \<Rightarrow> json" where
  "column_json from_str cv =
     (case snd cv of
        None \<Rightarrow> Null
      | Some bytes \<Rightarrow>
          (case decode_value from_str (string_of_bytes bytes) (col_type_id (fst cv)) of
             Some (Inr v) \<Rightarrow> v | _ \<Rightarrow> Null))"

definition decodes :: "(string \<Rightarrow> json option) \<Rightarrow> column \<times> u8 list option \<Rightarrow> bool" where
  "decodes from_str cv \<longleftrightarrow>
     (case snd cv of
        None \<Rightarrow> True
      | Some bytes \<Rightarrow> decode_value from_str (string_of_bytes bytes) (col_type_id (fst cv)) \<noteq> None)"

lemma decode_columns_run:
  "list_all (decodes from_str) (zip columns values) \<Longrightarrow>
     decode_columns from_str columns values data =
     Some (fold (\<lambda>cv. hm_insert (col_name (fst cv)) (column_json from_str cv)) (zip columns values) data)"
proof (induction from_str "columns" "values" data rule: decode_columns.induct)
  case (3 fs c cs v vs data)
  then show ?case
    by (cases v) (auto simp: decodes_def column_json_def split: sum.splits)
qed simp_all

text \<open>C34. An insert, update or delete of a known relation becomes the event of that relation
  in which every column has the decoded value at its place, and an unknown relation no event.\<close>

theorem pgoutput_event_decodes_row:
  assumes "get_relation parser (im_relation_id m) = Some relation"
    and "list_all (decodes from_str) (zip (rm_columns relation) (td_columns (im_tuple m)))"
  shows "\<exists>cdc. process_pgoutput_message from_str now (MInsert m) parser = Some (Some (EvCdc cdc)) \<and>
     cdc_event_type cdc = EtCreate \<and> cdc_table cdc = rm_relation_name relation \<and>
     cdc_schema cdc = rm_namespace relation \<and>
     hm_get (cdc_data cdc) = map_of (rev (map (\<lambda>cv. (col_name (fst cv), column_json from_str cv))
       (zip (rm_columns relation) (td_columns (im_tuple m)))))"
  using decode_columns_run [OF assms(2), of "[]"] assms(1)
  by (auto simp: tuple_event_def decode_tuple_data_def hm_get_fold_insert)

definition demo_insert :: insert_message where
  "demo_insert = \<lparr>im_relation_id = 7, im_tuple = \<lparr>td_columns = [None]\<rparr>\<rparr>"

theorem pgoutput_event_decodes_row_witness:
  "\<exists>cdc. process_pgoutput_message (\<lambda>s. None) 0 (MInsert demo_insert)
       (snd (parse_message pgoutput_new (enc_message (MRelation demo_relation)))) = Some (Some (EvCdc cdc)) \<and>
     hm_get (cdc_data cdc) ''id'' = Some Null"
proof -
  let ?parser = "snd (parse_message pgoutput_new (enc_message (MRelation demo_relation)))"
  have "?parser = \<lparr>po_relations = [(7, demo_relation)]\<rparr>"
    using relation_msg.whole [OF demo_relation_ok]
    by (simp add: parse_message_def enc_message_def pgoutput_new_def demo_relation_def del: enc_payload.simps)
  then have "get_relation ?parser (im_relation_id demo_insert) = Some demo_relation"
    by (simp add: get_relation_def demo_insert_def)
  from pgoutput_event_decodes_row [OF this, of "\<lambda>s. None" 0] show ?thesis
    by (fastforce simp: demo_relation_def demo_insert_def decodes_def column_json_def)
qed

section \<open>Rows of the text format\<close>

text \<open>An opening bracket that the loop meets inside quotes.\<close>

fun quoted_bracket :: "bool \<Rightarrow> bool \<Rightarrow> string \<Rightarrow> bool" where
  "quoted_bracket in_quotes in_brackets [] = False"
| "quoted_bracket in_quotes in_brackets (ch # chars) =
     (if ch = CHR ''['' then in_quotes \<or> quoted_bracket in_quotes True chars
      else if ch = CHR '']'' \<and> \<not> in_quotes then quoted_bracket in_quotes False chars
      else if ch = apos \<and> \<not> in_brackets then quoted_bracket (\<not> in_quotes) in_brackets chars
      else quoted_bracket in_quotes in_brackets chars)"

lemma field_loop_empty:
  "\<not> quoted_bracket in_quotes in_brackets chars \<Longrightarrow> CHR ''['' \<notin> set current_value \<Longrightarrow>
     field_loop [] current_value in_quotes in_brackets data chars = Some data"
  by (induction chars arbitrary: current_value in_quotes in_brackets)
    (auto simp: field_name_def split: if_splits)


text \<open>The first example of the comment above the parser.\<close>

definition documented_example :: string where
  "documented_example = ''table public.users: INSERT: id[integer]:1 email[text]:'test@example.com'' @ [apos]"

lemma documented_example_parses:
  "\<exists>cdc. parse_logical_decoding_message 0 documented_example = Some (Some (EvCdc cdc)) \<and>
     cdc_table cdc = ''users''"
proof -
  have "trim ''table public.users'' = ''table public.users''" by (rule trim_solid) (simp add: solid_def)
  moreover have "trim '' INSERT'' = ''INSERT''"
    using trim_leading_space [of "''INSERT''"] by (simp add: solid_def)
  moreover have "field_loop [] [] False False [] (join_with '':''
      (drop 2 (split_on (CHR '':'') documented_example))) = Some []"
    by (rule field_loop_empty) (simp_all add: documented_example_def)
  ultimately show ?thesis
    by (simp add: parse_logical_decoding_message_def documented_example_def logical_operation_def)
qed


end
