(* ===== verification/EventFilter.thy ===== *)
theory EventFilter
  imports Models F64
begin

text \<open>
  The event filter, \<open>src/pipeline/filter.rs\<close>, and the soft-delete handler,
  \<open>src/pipeline/soft_delete.rs\<close>, with their configurations from \<open>src/config/\<close>.
\<close>

section \<open>Configuration\<close>

record table_filter =
  tf_whitelist :: "string list option"
  tf_blacklist :: "string list option"

datatype condition =
    CEquals string json
  | CNotEquals string json
  | CContains string json
  | CGreaterThan string json
  | CLessThan string json
  | CIn string "json list"
  | CIsNull string
  | CIsNotNull string
  | CAnd "condition list"
  | COr "condition list"

record filter_config =
  fc_tables :: table_filter
  fc_event_types :: "string list option"
  fc_conditions :: "condition list option"

section \<open>Conditions\<close>

text \<open>\<open>Number::as_f64\<close>.\<close>

fun number_as_f64 :: "json_number \<Rightarrow> f64" where
  "number_as_f64 (PosInt n) = f64_of_nat (unat n)"
| "number_as_f64 (NegInt n) = f64_of_int (sint n)"
| "number_as_f64 (Float a) = Fin a"

definition compare_values :: "json option \<Rightarrow> json \<Rightarrow> (f64 \<Rightarrow> f64 \<Rightarrow> bool) \<Rightarrow> bool" where
  "compare_values field_value compare_value cmp =
     (case (field_value, compare_value) of
        (Some (Number a), Number b) \<Rightarrow> cmp (number_as_f64 a) (number_as_f64 b)
      | _ \<Rightarrow> False)"

fun evaluate_condition :: "condition \<Rightarrow> fields \<Rightarrow> bool" where
  "evaluate_condition (CEquals field value) data = (hm_get data field = Some value)"
| "evaluate_condition (CNotEquals field value) data = (hm_get data field \<noteq> Some value)"
| "evaluate_condition (CContains field value) data =
     (case hm_get data field of
        Some (String s) \<Rightarrow> (case value of String pattern \<Rightarrow> str_contains s pattern | _ \<Rightarrow> False)
      | _ \<Rightarrow> False)"
| "evaluate_condition (CGreaterThan field value) data =
     compare_values (hm_get data field) value (\<lambda>a b. f64_lt b a)"
| "evaluate_condition (CLessThan field value) data =
     compare_values (hm_get data field) value (\<lambda>a b. f64_lt a b)"
| "evaluate_condition (CIn field values) data =
     (case hm_get data field of Some v \<Rightarrow> v \<in> set values | None \<Rightarrow> False)"
| "evaluate_condition (CIsNull field) data =
     (case hm_get data field of None \<Rightarrow> True | Some v \<Rightarrow> v = Null)"
| "evaluate_condition (CIsNotNull field) data =
     (case hm_get data field of None \<Rightarrow> False | Some v \<Rightarrow> v \<noteq> Null)"
| "evaluate_condition (CAnd conditions) data = list_all (\<lambda>c. evaluate_condition c data) conditions"
| "evaluate_condition (COr conditions) data = list_ex (\<lambda>c. evaluate_condition c data) conditions"

definition check_conditions :: "filter_config \<Rightarrow> fields \<Rightarrow> bool" where
  "check_conditions config data =
     (case fc_conditions config of
        Some conditions \<Rightarrow> list_all (\<lambda>c. evaluate_condition c data) conditions
      | None \<Rightarrow> True)"

section \<open>Events\<close>

definition is_table_allowed :: "filter_config \<Rightarrow> string \<Rightarrow> bool" where
  "is_table_allowed config table =
     ((case tf_whitelist (fc_tables config) of Some ws \<Rightarrow> table \<in> set ws | None \<Rightarrow> True) \<and>
      (case tf_blacklist (fc_tables config) of Some bs \<Rightarrow> table \<notin> set bs | None \<Rightarrow> True))"

definition is_event_type_allowed :: "filter_config \<Rightarrow> event_type \<Rightarrow> bool" where
  "is_event_type_allowed config ty =
     (case fc_event_types config of
        Some allowed \<Rightarrow>
          list_ex (\<lambda>t. t = ''create'' \<and> ty = EtCreate \<or> t = ''update'' \<and> ty = EtUpdate \<or>
            t = ''delete'' \<and> ty = EtDelete) allowed
      | None \<Rightarrow> True)"

text \<open>The conditions on a JSON row; a row that is not an object passes.\<close>

definition check_row :: "filter_config \<Rightarrow> json \<Rightarrow> bool" where
  "check_row config data =
     (case json_as_object data of Some obj \<Rightarrow> check_conditions config obj | None \<Rightarrow> True)"

definition check_typed :: "filter_config \<Rightarrow> string \<Rightarrow> event_type \<Rightarrow> json \<Rightarrow> bool" where
  "check_typed config table ty data =
     (is_table_allowed config table \<and> is_event_type_allowed config ty \<and> check_row config data)"

fun should_process :: "filter_config \<Rightarrow> stream_event \<Rightarrow> bool result" where
  "should_process config (EvCdc cdc) =
     Inr (is_table_allowed config (cdc_table cdc) \<and>
          is_event_type_allowed config (cdc_event_type cdc) \<and>
          check_conditions config (cdc_data cdc))"
| "should_process config (EvFullSync table data) =
     Inr (is_table_allowed config table \<and> check_row config data)"
| "should_process config (EvInsert table new_data position) = Inr (check_typed config table EtCreate new_data)"
| "should_process config (EvUpdate table old_data new_data position) = Inr (check_typed config table EtUpdate new_data)"
| "should_process config (EvDelete table old_data position) = Inr (check_typed config table EtDelete old_data)"
| "should_process config (EvCheckpoint position) = Inr True"
| "should_process config EvHeartbeat = Inr True"

section \<open>Soft deletes\<close>

record soft_delete_config =
  sd_field :: string
  sd_delete_values :: "json list"
  sd_handle_on_full_sync :: bool
  sd_handle_on_cdc :: bool

definition is_soft_deleted :: "soft_delete_config \<Rightarrow> json \<Rightarrow> bool" where
  "is_soft_deleted config v = list_ex (\<lambda>d. v = d) (sd_delete_values config)"

definition soft_deletes :: "soft_delete_config \<Rightarrow> json option \<Rightarrow> bool" where
  "soft_deletes config v = (case v of Some x \<Rightarrow> is_soft_deleted config x | None \<Rightarrow> False)"

fun transform_event :: "soft_delete_config \<Rightarrow> stream_event \<Rightarrow> stream_event option" where
  "transform_event config (EvCdc cdc) =
     (if cdc_event_type cdc \<noteq> EtUpdate then Some (EvCdc cdc)
      else if \<not> sd_handle_on_cdc config then Some (EvCdc cdc)
      else if soft_deletes config (hm_get (cdc_data cdc) (sd_field config))
      then Some (EvDelete (cdc_table cdc) (json_of_fields (cdc_data cdc)) (cdc_position cdc))
      else Some (EvCdc cdc))"
| "transform_event config (EvUpdate table old_data new_data position) =
     (if \<not> sd_handle_on_cdc config then Some (EvUpdate table old_data new_data position)
      else if soft_deletes config (json_get new_data (sd_field config))
      then Some (EvDelete table old_data position)
      else Some (EvUpdate table old_data new_data position))"
| "transform_event config (EvFullSync table data) =
     (if \<not> sd_handle_on_full_sync config then Some (EvFullSync table data)
      else if soft_deletes config (json_get data (sd_field config)) then None
      else Some (EvFullSync table data))"
| "transform_event config event = Some event"

section \<open>Properties of the filter\<close>

lemma evaluate_condition_cong:
  "hm_get data = hm_get data' \<Longrightarrow> evaluate_condition c data = evaluate_condition c data'"
  by (induction c) (auto simp: list_all_iff list_ex_iff)

lemma check_conditions_cong:
  "hm_get data = hm_get data' \<Longrightarrow> check_conditions config data = check_conditions config data'"
  using evaluate_condition_cong [of data data']
  by (auto simp: check_conditions_def list_all_iff split: option.splits)

text \<open>The typed event of a change event.\<close>

definition typed_event :: "cdc_event \<Rightarrow> stream_event" where
  "typed_event cdc =
     (let row = json_of_fields (cdc_data cdc) in
      case cdc_event_type cdc of
        EtCreate \<Rightarrow> EvInsert (cdc_table cdc) row (cdc_position cdc)
      | EtUpdate \<Rightarrow> EvUpdate (cdc_table cdc) Null row (cdc_position cdc)
      | EtDelete \<Rightarrow> EvDelete (cdc_table cdc) row (cdc_position cdc)
      | _ \<Rightarrow> EvCdc cdc)"

text \<open>C25. The filter decides the same whichever representation a change has, and a full
  synchronisation as the insertion of its row, unless operations are filtered.\<close>

theorem filter_independent_of_representation:
  assumes "hm_ok (cdc_data cdc)"
  shows "should_process config (typed_event cdc) = should_process config (EvCdc cdc) \<and>
     (is_event_type_allowed config EtCreate \<longrightarrow>
        should_process config (EvFullSync (cdc_table cdc) (json_of_fields (cdc_data cdc))) =
        should_process config (EvCdc (cdc\<lparr>cdc_event_type := EtCreate\<rparr>)))"
proof -
  have "check_row config (json_of_fields (cdc_data cdc)) = check_conditions config (cdc_data cdc)"
    using check_conditions_cong [of "sort_key fst (cdc_data cdc)" "cdc_data cdc"] map_of_sort_key [OF assms]
    by (simp add: check_row_def json_of_fields_def)
  then show ?thesis
    by (cases "cdc_event_type cdc") (simp_all add: typed_event_def Let_def check_typed_def)
qed

definition demo_cdc :: cdc_event where
  "demo_cdc = \<lparr>cdc_event_type = EtUpdate, cdc_table = ''users'', cdc_schema = ''public'',
     cdc_data = [(''id'', Number (PosInt 7)), (''deleted'', Bool True)], cdc_timestamp = 0,
     cdc_position = Some (PostgreSQL ''0/1'')\<rparr>"

definition demo_filter :: filter_config where
  "demo_filter = \<lparr>fc_tables = \<lparr>tf_whitelist = Some [''users''], tf_blacklist = None\<rparr>,
     fc_event_types = Some [''update''], fc_conditions = Some [CIsNotNull ''id'']\<rparr>"

theorem filter_independent_of_representation_witness:
  "should_process demo_filter (typed_event demo_cdc) = Inr True"
  using filter_independent_of_representation [of demo_cdc demo_filter]
  by (simp add: demo_cdc_def demo_filter_def hm_ok_def is_table_allowed_def
      is_event_type_allowed_def check_conditions_def)

text \<open>The integer a JSON number holds.\<close>

fun number_value :: "json_number \<Rightarrow> int option" where
  "number_value (PosInt n) = Some (uint n)"
| "number_value (NegInt n) = Some (sint n)"
| "number_value (Float a) = None"

lemma number_as_f64_exact:
  assumes "number_value a = Some i" and "\<bar>i\<bar> \<le> 2 ^ 53"
  shows "number_as_f64 a = Fin (of_int i)"
proof (cases a)
  case (PosInt n)
  with assms have "unat n \<le> 2 ^ 53" by (simp add: unat_eq_nat_uint)
  moreover have "(of_nat (unat n) :: rat) = of_int i"
    using PosInt assms(1) by (simp del: of_nat_unat) (metis of_int_of_nat_eq uint_nat)
  ultimately show ?thesis
    using PosInt f64_of_nat_exact [of "unat n"] by simp
next
  case (NegInt n)
  with assms show ?thesis using f64_round_int [of i] by (simp add: f64_of_int_def)
qed (use assms in simp)

text \<open>Comparisons of integers of at most 53 bits are exact; above, a number can be taken
  for its neighbour.\<close>

theorem numeric_conditions_exact:
  assumes "hm_get data field = Some (Number a)" and "number_value a = Some i" and "\<bar>i\<bar> \<le> 2 ^ 53"
    and "number_value b = Some k" and "\<bar>k\<bar> \<le> 2 ^ 53"
  shows "evaluate_condition (CGreaterThan field (Number b)) data = (k < i) \<and>
     evaluate_condition (CLessThan field (Number b)) data = (i < k)"
  using assms number_as_f64_exact [OF assms(2,3)] number_as_f64_exact [OF assms(4,5)]
  by (simp add: compare_values_def)

theorem numeric_conditions_exact_witness:
  "evaluate_condition (CGreaterThan ''n'' (Number (PosInt 2))) [(''n'', Number (PosInt 3))]"
  using numeric_conditions_exact [of "[(''n'', Number (PosInt 3))]" "''n''" "PosInt 3" 3 "PosInt 2" 2]
  by simp

section \<open>Properties of the soft-delete handler\<close>

text \<open>The row an event would write, and the operation it would perform.\<close>

fun event_field :: "stream_event \<Rightarrow> string \<Rightarrow> json option" where
  "event_field (EvCdc cdc) f = hm_get (cdc_data cdc) f"
| "event_field (EvUpdate table old_data new_data position) f = json_get new_data f"
| "event_field (EvFullSync table data) f = json_get data f"
| "event_field _ f = None"

fun is_update :: "stream_event \<Rightarrow> bool" where
  "is_update (EvCdc cdc) = (cdc_event_type cdc = EtUpdate)"
| "is_update (EvUpdate _ _ _ _) = True"
| "is_update _ = False"

fun is_full_sync :: "stream_event \<Rightarrow> bool" where
  "is_full_sync (EvFullSync _ _) = True"
| "is_full_sync _ = False"

fun is_deletion :: "stream_event \<Rightarrow> bool" where
  "is_deletion (EvDelete _ _ _) = True"
| "is_deletion _ = False"


definition demo_soft_delete :: soft_delete_config where
  "demo_soft_delete = \<lparr>sd_field = ''deleted'', sd_delete_values = [Bool True],
     sd_handle_on_full_sync = True, sd_handle_on_cdc = True\<rparr>"

lemma demo_soft_delete_run:
  "\<exists>row. transform_event demo_soft_delete (EvCdc demo_cdc) =
     Some (EvDelete ''users'' row (Some (PostgreSQL ''0/1'')))"
  by (simp add: demo_soft_delete_def demo_cdc_def soft_deletes_def is_soft_deleted_def)


end
