(* ===== verification/Transform.thy ===== *)
theory Transform
  imports EventFilter Text
begin

text \<open>
  The event transformer, \<open>src/pipeline/transformer.rs\<close>, and the field mapper,
  \<open>src/pipeline/mapper.rs\<close>. A configuration map is iterated in the order of its list. The
  arguments of the operations are the text \<open>serde_json\<close> prints for a value (\<open>json_text\<close>), the
  Unicode case tables (\<open>uni\<close>) and the RFC 3339 text of the current time (\<open>now_text\<close>). A panic is
  the outer \<open>None\<close>.
\<close>

section \<open>Nested values\<close>

text \<open>\<open>extract_path\<close>: one step per part; a part of an array must be an index.\<close>

fun extract_parts :: "json \<Rightarrow> string list \<Rightarrow> json option" where
  "extract_parts current [] = Some current"
| "extract_parts (Object obj) (part # parts) =
     (case map_of obj part of None \<Rightarrow> None | Some v \<Rightarrow> extract_parts v parts)"
| "extract_parts (Array arr) (part # parts) =
     (case parse_unsigned 64 part of
        None \<Rightarrow> None
      | Some index \<Rightarrow> if index < length arr then extract_parts (arr ! index) parts else None)"
| "extract_parts _ (part # parts) = None"

definition extract_path :: "json \<Rightarrow> string \<Rightarrow> json option" where
  "extract_path v path = extract_parts v (split_on (CHR ''.'') path)"

section \<open>The transformer\<close>

datatype field_transform =
    FtRename string string
  | FtConvert string string
  | FtExtract string string string
  | FtCompute string string

datatype global_transform =
    GtAddField string json
  | GtRemoveField string
  | GtAddTimestamp string
  | GtLowercase "string list"
  | GtUppercase "string list"

record transform_config =
  tc_fields :: "(string, (string, field_transform) hmap) hmap"
  tc_global_transforms :: "global_transform list option"

definition bool_text :: "bool \<Rightarrow> string" where
  "bool_text b = (if b then ''true'' else ''false'')"

text \<open>\<open>Number::as_i64\<close>.\<close>

fun number_as_i64 :: "json_number \<Rightarrow> int option" where
  "number_as_i64 (PosInt n) = (if uint n < 2 ^ 63 then Some (uint n) else None)"
| "number_as_i64 (NegInt n) = Some (sint n)"
| "number_as_i64 (Float a) = None"

fun convert_string :: "(json \<Rightarrow> string) \<Rightarrow> json \<Rightarrow> json" where
  "convert_string json_text (String s) = String s"
| "convert_string json_text (Bool b) = String (bool_text b)"
| "convert_string json_text v = String (json_text v)"

text \<open>\<open>Number::from_f64(n).unwrap()\<close> panics on a NaN or an infinity.\<close>

fun convert_number :: "json \<Rightarrow> json result option" where
  "convert_number (Number n) = Some (Inr (Number n))"
| "convert_number (String s) =
     (case parse_f64 s of
        Some (Fin a) \<Rightarrow> Some (Inr (Number (Float a)))
      | Some _ \<Rightarrow> None
      | None \<Rightarrow> Some (Inl (Pipeline (''Cannot convert '' @ [CHR 0x27] @ s @ [CHR 0x27] @ '' to number''))))"
| "convert_number _ = Some (Inl (Pipeline ''Cannot convert value to number''))"

fun convert_boolean :: "unicode_tables \<Rightarrow> json \<Rightarrow> json" where
  "convert_boolean uni (Bool b) = Bool b"
| "convert_boolean uni (String s) = Bool (to_lowercase uni s = ''true'' \<or> s = ''1'')"
| "convert_boolean uni (Number n) =
     Bool ((case number_as_i64 n of Some i \<Rightarrow> i | None \<Rightarrow> 0) \<noteq> 0)"
| "convert_boolean uni _ = Bool False"

fun convert_array :: "json \<Rightarrow> json" where
  "convert_array (Array a) = Array a"
| "convert_array other = Array [other]"

definition convert_type ::
  "(json \<Rightarrow> string) \<Rightarrow> unicode_tables \<Rightarrow> json \<Rightarrow> string \<Rightarrow> json result option" where
  "convert_type json_text uni v to_type =
     (if to_type = ''string'' then Some (Inr (convert_string json_text v))
      else if to_type = ''number'' then convert_number v
      else if to_type = ''boolean'' then Some (Inr (convert_boolean uni v))
      else if to_type = ''array'' then Some (Inr (convert_array v))
      else Some (Inl (Pipeline (''Unknown type conversion: '' @ to_type))))"

text \<open>\<open>evaluate_expression\<close>: only \<open>concat(...)\<close>.\<close>

definition concat_text :: "(json \<Rightarrow> string) \<Rightarrow> fields \<Rightarrow> string \<Rightarrow> string" where
  "concat_text json_text data field =
     (case hm_get data field of
        None \<Rightarrow> []
      | Some (String s) \<Rightarrow> s
      | Some v \<Rightarrow> json_text v)"

definition evaluate_expression :: "(json \<Rightarrow> string) \<Rightarrow> string \<Rightarrow> fields \<Rightarrow> json option" where
  "evaluate_expression json_text expression data =
     (if str_prefix ''concat('' expression \<and> ends_with (CHR '')'') expression then
        (let fs = map trim (split_on (CHR '','') (butlast (drop 7 expression)))
         in Some (String (concat (map (concat_text json_text data) fs))))
      else None)"

text \<open>One field transform on the remaining \<open>data\<close> and the \<open>result\<close>.\<close>

fun transform_step ::
  "(json \<Rightarrow> string) \<Rightarrow> unicode_tables \<Rightarrow> field_transform \<Rightarrow> fields \<Rightarrow> fields \<Rightarrow>
     (fields \<times> fields) result option" where
  "transform_step json_text uni (FtRename frm dest) data res =
     (case hm_get data frm of
        Some v \<Rightarrow> Some (Inr (hm_remove frm data, hm_insert dest v res))
      | None \<Rightarrow> Some (Inr (data, res)))"
| "transform_step json_text uni (FtConvert field to_type) data res =
     (case hm_get data field of
        Some v \<Rightarrow>
          map_option (map_sum id (\<lambda>converted. (data, hm_insert field converted res)))
            (convert_type json_text uni v to_type)
      | None \<Rightarrow> Some (Inr (data, res)))"
| "transform_step json_text uni (FtExtract frm path dest) data res =
     (case hm_get data frm of
        Some v \<Rightarrow>
          (case extract_path v path of
             Some extracted \<Rightarrow> Some (Inr (data, hm_insert dest extracted res))
           | None \<Rightarrow> Some (Inr (data, res)))
      | None \<Rightarrow> Some (Inr (data, res)))"
| "transform_step json_text uni (FtCompute expression dest) data res =
     (case evaluate_expression json_text expression data of
        Some computed \<Rightarrow> Some (Inr (data, hm_insert dest computed res))
      | None \<Rightarrow> Some (Inr (data, res)))"

fun transform_loop ::
  "(json \<Rightarrow> string) \<Rightarrow> unicode_tables \<Rightarrow> field_transform list \<Rightarrow> fields \<Rightarrow> fields \<Rightarrow>
     (fields \<times> fields) result option" where
  "transform_loop json_text uni [] data res = Some (Inr (data, res))"
| "transform_loop json_text uni (t # ts) data res =
     (case transform_step json_text uni t data res of
        None \<Rightarrow> None
      | Some (Inl e) \<Rightarrow> Some (Inl e)
      | Some (Inr (data', res')) \<Rightarrow> transform_loop json_text uni ts data' res')"

text \<open>\<open>result.entry(k).or_insert(v)\<close> for the fields that remain.\<close>

definition or_insert :: "'k \<times> 'v \<Rightarrow> ('k, 'v) hmap \<Rightarrow> ('k, 'v) hmap" where
  "or_insert kv m = (if hm_contains_key m (fst kv) then m else hm_insert (fst kv) (snd kv) m)"

definition transform_fields ::
  "(json \<Rightarrow> string) \<Rightarrow> unicode_tables \<Rightarrow> fields \<Rightarrow> (string, field_transform) hmap \<Rightarrow>
     fields result option" where
  "transform_fields json_text uni data field_config =
     map_option (map_sum id (\<lambda>(data', res). fold or_insert data' res))
       (transform_loop json_text uni (hm_values field_config) data [])"

definition map_string_field :: "(string \<Rightarrow> string) \<Rightarrow> string \<Rightarrow> fields \<Rightarrow> fields" where
  "map_string_field f field data =
     (case hm_get data field of Some (String s) \<Rightarrow> hm_insert field (String (f s)) data | _ \<Rightarrow> data)"

fun apply_transform :: "unicode_tables \<Rightarrow> string \<Rightarrow> fields \<Rightarrow> global_transform \<Rightarrow> fields" where
  "apply_transform uni now_text data (GtAddField name v) = hm_insert name v data"
| "apply_transform uni now_text data (GtRemoveField name) = hm_remove name data"
| "apply_transform uni now_text data (GtAddTimestamp field) = hm_insert field (String now_text) data"
| "apply_transform uni now_text data (GtLowercase fs) = fold (map_string_field (to_lowercase uni)) fs data"
| "apply_transform uni now_text data (GtUppercase fs) = fold (map_string_field (to_uppercase uni)) fs data"

definition global_transforms :: "transform_config \<Rightarrow> global_transform list" where
  "global_transforms config = (case tc_global_transforms config of Some ts \<Rightarrow> ts | None \<Rightarrow> [])"

fun transform_stream_event ::
  "(json \<Rightarrow> string) \<Rightarrow> unicode_tables \<Rightarrow> string \<Rightarrow> transform_config \<Rightarrow> stream_event \<Rightarrow>
     stream_event option result option" where
  "transform_stream_event json_text uni now_text config (EvCdc cdc) =
     map_option (map_sum id (\<lambda>data. Some (EvCdc (cdc\<lparr>cdc_data :=
         foldl (apply_transform uni now_text) data (global_transforms config)\<rparr>))))
       (case hm_get (tc_fields config) (cdc_table cdc) of
          Some field_config \<Rightarrow> transform_fields json_text uni (cdc_data cdc) field_config
        | None \<Rightarrow> Some (Inr (cdc_data cdc)))"
| "transform_stream_event json_text uni now_text config (EvFullSync table data) =
     (case hm_get (tc_fields config) table of
        None \<Rightarrow> Some (Inr (Some (EvFullSync table data)))
      | Some field_config \<Rightarrow>
          (case json_as_object data of
             None \<Rightarrow> Some (Inr (Some (EvFullSync table data)))
           | Some obj \<Rightarrow>
               map_option (map_sum id (\<lambda>m. Some (EvFullSync table (json_of_fields m))))
                 (transform_fields json_text uni obj field_config)))"
| "transform_stream_event json_text uni now_text config event = Some (Inr (Some event))"

section \<open>The mapper\<close>

record complex_mapping =
  xm_to :: "string option"
  xm_default :: "json option"
  xm_sources :: "string list option"
  xm_separator :: "string option"
  xm_path :: "string option"

datatype field_mapping = FmSimple string | FmComplex complex_mapping

record table_mapping =
  tb_name :: "string option"
  tb_fields :: "(string, field_mapping) hmap option"

record mapping_config =
  mc_tables :: "(string, table_mapping) hmap"
  mc_unmapped_fields_strategy :: string
  mc_unmapped_fields_prefix :: "string option"

fun value_to_string :: "(json \<Rightarrow> string) \<Rightarrow> json \<Rightarrow> string" where
  "value_to_string json_text (String s) = s"
| "value_to_string json_text (Bool b) = bool_text b"
| "value_to_string json_text Null = []"
| "value_to_string json_text v = json_text v"

definition present :: "fields \<Rightarrow> string list \<Rightarrow> string list" where
  "present data sources = filter (\<lambda>f. hm_contains_key data f) sources"

text \<open>One mapping on the \<open>result\<close> and the list \<open>mapped_sources\<close>.\<close>

fun mapping_step ::
  "(json \<Rightarrow> string) \<Rightarrow> fields \<Rightarrow> string \<Rightarrow> field_mapping \<Rightarrow> fields \<times> string list \<Rightarrow> fields \<times> string list" where
  "mapping_step json_text data source_field (FmSimple target_field) (res, mapped) =
     (case hm_get data source_field of
        Some v \<Rightarrow> (hm_insert target_field v res, mapped @ [source_field])
      | None \<Rightarrow> (res, mapped))"
| "mapping_step json_text data source_field (FmComplex x) (res, mapped) =
     (case xm_to x of
        None \<Rightarrow> (res, mapped)
      | Some target_field \<Rightarrow>
          (case xm_sources x of
             Some field_sources \<Rightarrow>
               (let fs = present data field_sources;
                    texts = map (\<lambda>f. value_to_string json_text (the (hm_get data f))) fs;
                    sep = (case xm_separator x of Some s \<Rightarrow> s | None \<Rightarrow> '','')
                in (if texts \<noteq> [] then hm_insert target_field (String (join_with sep texts)) res else res,
                    mapped @ fs))
           | None \<Rightarrow>
               (case xm_path x of
                  Some path_str \<Rightarrow>
                    (case Option.bind (hm_get data source_field) (\<lambda>v. extract_path v path_str) of
                       Some v \<Rightarrow> (hm_insert target_field v res, mapped @ [source_field])
                     | None \<Rightarrow> (res, mapped))
                | None \<Rightarrow>
                    (hm_insert target_field
                       (case hm_get data source_field of
                          Some v \<Rightarrow> v
                        | None \<Rightarrow> (case xm_default x of Some d \<Rightarrow> d | None \<Rightarrow> Null)) res,
                     mapped @ [source_field]))))"

definition include_unmapped :: "string list \<Rightarrow> string \<times> json \<Rightarrow> fields \<Rightarrow> fields" where
  "include_unmapped mapped kv res =
     (if fst kv \<notin> set mapped \<and> \<not> hm_contains_key res (fst kv) then hm_insert (fst kv) (snd kv) res
      else res)"

definition prefix_unmapped :: "string \<Rightarrow> string list \<Rightarrow> string \<times> json \<Rightarrow> fields \<Rightarrow> fields" where
  "prefix_unmapped prefix mapped kv res =
     (if fst kv \<notin> set mapped then hm_insert (prefix @ fst kv) (snd kv) res else res)"

definition map_fields ::
  "(json \<Rightarrow> string) \<Rightarrow> mapping_config \<Rightarrow> fields \<Rightarrow> (string, field_mapping) hmap \<Rightarrow> fields" where
  "map_fields json_text config data field_mappings =
     (let (res, mapped) = fold (\<lambda>(f, fm). mapping_step json_text data f fm) field_mappings ([], []);
          strategy = mc_unmapped_fields_strategy config
      in if strategy = ''include'' then fold (include_unmapped mapped) data res
         else if strategy = ''exclude'' then res
         else if strategy = ''prefix'' then
           fold (prefix_unmapped (case mc_unmapped_fields_prefix config of Some p \<Rightarrow> p | None \<Rightarrow> ''_'') mapped)
             data res
         else fold (include_unmapped mapped) data res)"

definition mapped_table :: "table_mapping \<Rightarrow> string \<Rightarrow> string" where
  "mapped_table tm table = (case tb_name tm of Some name \<Rightarrow> name | None \<Rightarrow> table)"

fun map_event :: "(json \<Rightarrow> string) \<Rightarrow> mapping_config \<Rightarrow> stream_event \<Rightarrow> stream_event result" where
  "map_event json_text config (EvCdc cdc) =
     (case hm_get (mc_tables config) (cdc_table cdc) of
        None \<Rightarrow> Inr (EvCdc cdc)
      | Some tm \<Rightarrow>
          Inr (EvCdc (cdc\<lparr>cdc_table := mapped_table tm (cdc_table cdc),
            cdc_data := (case tb_fields tm of
                Some fm \<Rightarrow> map_fields json_text config (cdc_data cdc) fm
              | None \<Rightarrow> cdc_data cdc)\<rparr>)))"
| "map_event json_text config (EvFullSync table data) =
     (case hm_get (mc_tables config) table of
        None \<Rightarrow> Inr (EvFullSync table data)
      | Some tm \<Rightarrow>
          Inr (EvFullSync (mapped_table tm table)
            (case (tb_fields tm, json_as_object data) of
               (Some fm, Some obj) \<Rightarrow> json_of_fields (map_fields json_text config obj fm)
             | _ \<Rightarrow> data)))"
| "map_event json_text config other = Inr other"

section \<open>Renaming\<close>

text \<open>
  What renaming the fields \<open>f\<close> to \<open>t\<close> means: the value of \<open>f\<close> is found under \<open>t\<close>, a renamed
  name that is no target of a present field is gone, and every other field is unchanged.
\<close>

definition renamed :: "(string \<times> string) list \<Rightarrow> (string \<Rightarrow> json option) \<Rightarrow> (string \<Rightarrow> json option) \<Rightarrow> bool" where
  "renamed rs old new \<longleftrightarrow>
     (\<forall>(f, t) \<in> set rs. \<forall>v. old f = Some v \<longrightarrow> new t = Some v) \<and>
     (\<forall>k. (\<forall>(f, t) \<in> set rs. t = k \<longrightarrow> old f = None) \<longrightarrow>
        new k = (if k \<in> fst ` set rs then None else old k))"

text \<open>The values under their new names.\<close>

fun targets :: "(string \<times> string) list \<Rightarrow> (string \<Rightarrow> json option) \<Rightarrow> (string \<Rightarrow> json option)" where
  "targets [] old = Map.empty"
| "targets ((f, t) # rs) old =
     (case old f of None \<Rightarrow> targets rs old | Some v \<Rightarrow> (targets rs old)(t \<mapsto> v))"

lemma targets_hit:
  "distinct (map snd rs) \<Longrightarrow> (f, t) \<in> set rs \<Longrightarrow> old f = Some v \<Longrightarrow> targets rs old t = Some v"
  by (induction rs old rule: targets.induct) (force split: option.splits)+

lemma targets_miss: "\<forall>(f, t) \<in> set rs. t = k \<longrightarrow> old f = None \<Longrightarrow> targets rs old k = None"
  by (induction rs old rule: targets.induct) (auto split: option.splits)

lemma targets_cong: "(\<And>f. f \<in> fst ` set rs \<Longrightarrow> old f = old' f) \<Longrightarrow> targets rs old = targets rs old'"
proof (induction rs old rule: targets.induct)
  case (2 f t rs old)
  then show ?case by (auto split: option.splits)
qed simp

lemma renamed_targets:
  assumes "distinct (map snd rs)"
  shows "renamed rs old ((old |` (- fst ` set rs)) ++ targets rs old)"
  unfolding renamed_def
  using targets_hit [OF assms] targets_miss [of rs _ old]
  by (auto simp: map_add_def restrict_map_def split: prod.splits)

lemma transform_loop_renames:
  assumes "distinct (map fst rs)" and "distinct (map snd rs)"
  shows "\<exists>data' res'. transform_loop json_text uni (map (\<lambda>(f, t). FtRename f t) rs) data res = Some (Inr (data', res')) \<and>
     hm_get data' = hm_get data |` (- fst ` set rs) \<and> hm_get res' = hm_get res ++ targets rs (hm_get data)"
  using assms
proof (induction rs arbitrary: data res)
  case Nil
  then show ?case by simp
next
  case (Cons r rs)
  obtain f t where r: "r = (f, t)" by fastforce
  show ?case
  proof (cases "hm_get data f")
    case None
    with Cons.IH [of data res] Cons.prems r show ?thesis
      by (auto simp: restrict_map_def fun_eq_iff)
  next
    case (Some v)
    have same: "targets rs (hm_get (hm_remove f data)) = targets rs (hm_get data)"
      using Cons.prems r by (intro targets_cong) (auto simp: hmap_simps)
    have new: "targets rs (hm_get data) t = None"
      using Cons.prems r by (intro targets_miss) force
    from Cons.IH [of "hm_remove f data" "hm_insert t v res"] Cons.prems r obtain data' res'
      where "transform_loop json_text uni (map (\<lambda>(f, t). FtRename f t) rs) (hm_remove f data)
            (hm_insert t v res) = Some (Inr (data', res'))"
        "hm_get data' = hm_get (hm_remove f data) |` (- fst ` set rs)"
        "hm_get res' = hm_get (hm_insert t v res) ++ targets rs (hm_get (hm_remove f data))"
      by auto
    with Some r same new show ?thesis
      by (auto simp: hmap_simps fun_eq_iff restrict_map_def map_add_def split: option.splits)
  qed
qed

lemma hm_get_fold_or_insert: "hm_get (fold or_insert xs m) = hm_get xs ++ hm_get m"
proof (induction xs arbitrary: m)
  case (Cons kv xs)
  then show ?case
    by (cases kv) (auto simp: or_insert_def hm_contains_key_def hmap_simps fun_eq_iff map_add_def
        split: option.splits)
qed simp

lemma mapping_renames:
  assumes "distinct (map fst rs)" and "distinct (map snd rs)"
  shows "\<exists>res' mapped'. fold (\<lambda>(f, fm). mapping_step json_text data f fm)
       (map (\<lambda>(f, t). (f, FmSimple t)) rs) (res, mapped) = (res', mapped') \<and>
     hm_get res' = hm_get res ++ targets rs (hm_get data) \<and>
     set mapped' = set mapped \<union> (fst ` set rs \<inter> dom (hm_get data))"
  using assms
proof (induction rs arbitrary: res mapped)
  case (Cons r rs)
  obtain f t where r: "r = (f, t)" by fastforce
  show ?case
  proof (cases "hm_get data f")
    case None
    with Cons.IH [of res mapped] Cons.prems r show ?thesis by auto
  next
    case (Some v)
    have "targets rs (hm_get data) t = None"
      using Cons.prems r by (intro targets_miss) force
    moreover from Cons.IH [of "hm_insert t v res" "mapped @ [f]"] Cons.prems r obtain res' mapped'
      where "fold (\<lambda>(f, fm). mapping_step json_text data f fm)
         (map (\<lambda>(f, t). (f, FmSimple t)) rs) (hm_insert t v res, mapped @ [f]) = (res', mapped')"
        "hm_get res' = hm_get (hm_insert t v res) ++ targets rs (hm_get data)"
        "set mapped' = set (mapped @ [f]) \<union> (fst ` set rs \<inter> dom (hm_get data))"
      by auto
    ultimately show ?thesis using Some r
      by (auto simp: hmap_simps fun_eq_iff map_add_def split: option.splits)
  qed
qed simp

lemma hm_get_fold_include:
  "hm_get (fold (include_unmapped mapped) xs m) =
     (\<lambda>k. case hm_get m k of Some v \<Rightarrow> Some v | None \<Rightarrow> if k \<in> set mapped then None else hm_get xs k)"
proof (induction xs arbitrary: m)
  case (Cons kv xs)
  then show ?case
    by (cases kv) (auto simp: include_unmapped_def hm_contains_key_def hmap_simps fun_eq_iff
        split: option.splits)
qed (auto split: option.splits)

text \<open>C22. A set of renamings with distinct names has one meaning, whatever the order in which
  the maps of the configuration are iterated, and the transformer and the mapper that includes
  the unmapped fields both implement it.\<close>

theorem renaming_refines_specification:
  assumes "distinct (map fst rs)" and "distinct (map snd rs)"
    and "hm_values field_config = map (\<lambda>(f, t). FtRename f t) rs"
    and "field_mappings = map (\<lambda>(f, t). (f, FmSimple t)) rs"
    and "mc_unmapped_fields_strategy config = ''include''"
  shows "\<exists>m. transform_fields json_text uni data field_config = Some (Inr m) \<and>
     renamed rs (hm_get data) (hm_get m) \<and>
     hm_get (map_fields json_text config data field_mappings) = hm_get m"
proof -
  let ?spec = "(hm_get data |` (- fst ` set rs)) ++ targets rs (hm_get data)"
  obtain data' res' where t: "transform_loop json_text uni (hm_values field_config) data [] =
        Some (Inr (data', res'))"
      "hm_get data' = hm_get data |` (- fst ` set rs)" "hm_get res' = targets rs (hm_get data)"
    using transform_loop_renames [OF assms(1,2), of json_text uni data "[]"] assms(3) by auto
  obtain res mapped where m: "fold (\<lambda>(f, fm). mapping_step json_text data f fm) field_mappings ([], []) = (res, mapped)"
      "hm_get res = targets rs (hm_get data)" "set mapped = fst ` set rs \<inter> dom (hm_get data)"
    using mapping_renames [OF assms(1,2), of json_text data "[]" "[]"] assms(4) by auto
  have "hm_get (map_fields json_text config data field_mappings) = ?spec"
    using assms(5) m by (auto simp: map_fields_def hm_get_fold_include fun_eq_iff map_add_def
        restrict_map_def split: option.splits)
  with t renamed_targets [OF assms(2), of "hm_get data"] show ?thesis
    by (auto simp: transform_fields_def hm_get_fold_or_insert)
qed

definition demo_mapping :: mapping_config where
  "demo_mapping = \<lparr>mc_tables = [], mc_unmapped_fields_strategy = ''include'',
     mc_unmapped_fields_prefix = None\<rparr>"

definition ascii_tables :: unicode_tables where
  "ascii_tables = \<lparr>uni_lower = (\<lambda>s. s), uni_upper = (\<lambda>s. s)\<rparr>"

theorem renaming_refines_specification_witness:
  "\<exists>m. transform_fields (\<lambda>v. []) ascii_tables [(''a'', Bool True), (''b'', Null)]
       [(''x'', FtRename ''a'' ''b''), (''y'', FtRename ''b'' ''a'')] = Some (Inr m) \<and>
     hm_get m ''b'' = Some (Bool True) \<and> hm_get m ''a'' = Some Null"
proof -
  let ?rs = "[(''a'', ''b''), (''b'', ''a'')]" and ?data = "[(''a'', Bool True), (''b'', Null)]"
  obtain m where "transform_fields (\<lambda>v. []) ascii_tables ?data
      [(''x'', FtRename ''a'' ''b''), (''y'', FtRename ''b'' ''a'')] = Some (Inr m)"
      "renamed ?rs (hm_get ?data) (hm_get m)"
    using renaming_refines_specification [of ?rs "[(''x'', FtRename ''a'' ''b''), (''y'', FtRename ''b'' ''a'')]"
        "map (\<lambda>(f, t). (f, FmSimple t)) ?rs" demo_mapping "\<lambda>v. []" ascii_tables ?data]
    by (auto simp: demo_mapping_def)
  then show ?thesis by (auto simp: renamed_def)
qed

section \<open>Conversions and global transforms\<close>

text \<open>C37. A conversion panics exactly on a text that parses as a NaN or an infinity and is to
  become a number, such as the text \<open>nan\<close>; no other value and no other target does.\<close>

theorem conversion_panics_on_non_finite_text:
  "(convert_type json_text uni v to_type = None) =
     (to_type = ''number'' \<and> (\<exists>s x. v = String s \<and> parse_f64 s = Some x \<and> (\<nexists>a. x = Fin a))) \<and>
   convert_type json_text uni (String ''nan'') ''number'' = None"
proof -
  have "parse_f64 ''nan'' = Some NaN"
  proof -
    have "map ascii_lower ''nan'' = ''nan''" by code_simp
    then show ?thesis by (simp add: parse_f64_def parse_f64_unsigned_def)
  qed
  then show ?thesis
    by (cases v) (auto simp: convert_type_def split: option.splits f64.splits)
qed

text \<open>The global transforms are applied to change events only: a row that arrives by full
  synchronisation is indexed without them.\<close>

theorem full_sync_skips_global_transforms:
  "transform_stream_event json_text uni now_text (config\<lparr>tc_global_transforms := ts\<rparr>) (EvFullSync table row) =
     transform_stream_event json_text uni now_text config (EvFullSync table row) \<and>
   transform_stream_event json_text uni now_text
       \<lparr>tc_fields = [], tc_global_transforms = Some [GtAddField ''origin'' (String ''pg'')]\<rparr> (EvCdc cdc) =
     Some (Inr (Some (EvCdc (cdc\<lparr>cdc_data := hm_insert ''origin'' (String ''pg'') (cdc_data cdc)\<rparr>))))"
  by (simp add: global_transforms_def split: option.splits)

end
