(* ===== verification/Dlq.thy ===== *)
theory Dlq
  imports Models
begin

text \<open>
  The dead letter queue of \<open>src/dlq/mod.rs\<close>: the storage trait as an interface, the in-memory
  storage, and the queue in front of it. The clock and the fresh identifiers are arguments; the
  reprocess channel is a function that tells whether the n-th send succeeds.
\<close>

section \<open>Entries\<close>

record dlq_entry =
  de_id :: string
  de_task_id :: string
  de_event :: event
  de_error :: string
  de_retry_count :: u32
  de_created_at :: time
  de_last_retry_at :: "time option"
  de_metadata :: "(string, string) hmap"

record dlq_statistics =
  dq_total_entries :: nat
  dq_entries_by_task :: "(string, nat) hmap"
  dq_entries_by_error :: "(string, nat) hmap"
  dq_oldest_entry :: "time option"
  dq_newest_entry :: "time option"

section \<open>The storage trait\<close>

record 's dlq_ops =
  dl_store :: "'s \<Rightarrow> dlq_entry \<Rightarrow> unit result \<times> 's"
  dl_get_by_task :: "'s \<Rightarrow> string \<Rightarrow> nat option \<Rightarrow> dlq_entry list result \<times> 's"
  dl_get :: "'s \<Rightarrow> string \<Rightarrow> dlq_entry option result \<times> 's"
  dl_remove :: "'s \<Rightarrow> string \<Rightarrow> unit result \<times> 's"
  dl_update :: "'s \<Rightarrow> dlq_entry \<Rightarrow> unit result \<times> 's"
  dl_get_statistics :: "'s \<Rightarrow> dlq_statistics result \<times> 's"
  dl_clear_task :: "'s \<Rightarrow> string \<Rightarrow> nat result \<times> 's"

section \<open>The queue\<close>

text \<open>The entry of a failed event.\<close>

definition failed_entry :: "string \<Rightarrow> time \<Rightarrow> string \<Rightarrow> event \<Rightarrow> error \<Rightarrow> u32 \<Rightarrow> dlq_entry" where
  "failed_entry uuid now task_id event err retry_count =
     \<lparr>de_id = uuid, de_task_id = task_id, de_event = event, de_error = error_to_string err,
      de_retry_count = retry_count, de_created_at = now,
      de_last_retry_at = (if retry_count > 0 then Some now else None), de_metadata = []\<rparr>"

definition add_failed_event ::
  "'s dlq_ops \<Rightarrow> string \<Rightarrow> time \<Rightarrow> string \<Rightarrow> event \<Rightarrow> error \<Rightarrow> u32 \<Rightarrow> 's \<Rightarrow> unit result \<times> 's" where
  "add_failed_event ops uuid now task_id event err retry_count s =
     dl_store ops s (failed_entry uuid now task_id event err retry_count)"

definition retried :: "time \<Rightarrow> dlq_entry \<Rightarrow> dlq_entry" where
  "retried now e = e\<lparr>de_retry_count := de_retry_count e + 1, de_last_retry_at := Some now\<rparr>"

text \<open>The loop: update, send, remove; the result, the entries sent and the storage.\<close>

fun reprocess_loop ::
  "'s dlq_ops \<Rightarrow> time \<Rightarrow> (nat \<Rightarrow> bool) \<Rightarrow> nat \<Rightarrow> dlq_entry list \<Rightarrow> 's \<Rightarrow>
     unit result \<times> dlq_entry list \<times> 's" where
  "reprocess_loop ops now sends i [] s = (Inr (), [], s)"
| "reprocess_loop ops now sends i (e # es) s =
     (let entry = retried now e in
      case dl_update ops s entry of
        (Inl err, s1) \<Rightarrow> (Inl err, [], s1)
      | (Inr _, s1) \<Rightarrow>
          if \<not> sends i then (Inl (Pipeline ''Failed to reprocess entry: channel closed''), [], s1)
          else
            (case dl_remove ops s1 (de_id entry) of
               (Inl err, s2) \<Rightarrow> (Inl err, [entry], s2)
             | (Inr _, s2) \<Rightarrow>
                 let (r, sent, s3) = reprocess_loop ops now sends (Suc i) es s2 in (r, entry # sent, s3)))"

definition reprocess_entries ::
  "'s dlq_ops \<Rightarrow> time \<Rightarrow> (nat \<Rightarrow> bool) option \<Rightarrow> string \<Rightarrow> nat option \<Rightarrow> 's \<Rightarrow>
     nat result \<times> dlq_entry list \<times> 's" where
  "reprocess_entries ops now reprocess_tx task_id limit s =
     (case dl_get_by_task ops s task_id limit of
        (Inl e, s1) \<Rightarrow> (Inl e, [], s1)
      | (Inr entries, s1) \<Rightarrow>
          if length entries = 0 then (Inr 0, [], s1)
          else
            (case reprocess_tx of
               None \<Rightarrow> (Inl (Configuration ''Reprocess channel not configured''), [], s1)
             | Some sends \<Rightarrow>
                 (case reprocess_loop ops now sends 0 entries s1 of
                    (Inl e, sent, s2) \<Rightarrow> (Inl e, sent, s2)
                  | (Inr _, sent, s2) \<Rightarrow> (Inr (length entries), sent, s2))))"

section \<open>The contract of a storage\<close>

text \<open>
  A storage is a map from identifiers to entries; a failed operation has not changed it. The
  entries of a task are listed oldest first, at most \<open>limit\<close> of them.
\<close>

locale dlq_storage =
  fixes ops :: "'s dlq_ops"
    and dinv :: "'s \<Rightarrow> bool"
    and held :: "'s \<Rightarrow> string \<Rightarrow> dlq_entry option"
  assumes held_id: "dinv s \<Longrightarrow> held s i = Some e \<Longrightarrow> de_id e = i"
    and store_ok: "dinv s \<Longrightarrow> dl_store ops s e = (Inr u, s') \<Longrightarrow>
      dinv s' \<and> held s' = (held s)(de_id e \<mapsto> e)"
    and store_err: "dinv s \<Longrightarrow> dl_store ops s e = (Inl x, s') \<Longrightarrow> dinv s' \<and> held s' = held s"
    and by_task_ok: "dinv s \<Longrightarrow> dl_get_by_task ops s t limit = (Inr es, s') \<Longrightarrow>
      dinv s' \<and> held s' = held s \<and> distinct (map de_id es) \<and> sorted (map de_created_at es) \<and>
      (\<forall>e \<in> set es. de_task_id e = t \<and> held s (de_id e) = Some e) \<and>
      (limit = None \<longrightarrow> (\<forall>i e. held s i = Some e \<and> de_task_id e = t \<longrightarrow> e \<in> set es)) \<and>
      (\<forall>n. limit = Some n \<longrightarrow> length es \<le> n)"
    and by_task_err: "dinv s \<Longrightarrow> dl_get_by_task ops s t limit = (Inl x, s') \<Longrightarrow>
      dinv s' \<and> held s' = held s"
    and remove_ok: "dinv s \<Longrightarrow> dl_remove ops s i = (Inr u, s') \<Longrightarrow>
      dinv s' \<and> held s' = (held s)(i := None)"
    and remove_err: "dinv s \<Longrightarrow> dl_remove ops s i = (Inl x, s') \<Longrightarrow> dinv s' \<and> held s' = held s"
    and update_ok: "dinv s \<Longrightarrow> dl_update ops s e = (Inr u, s') \<Longrightarrow>
      dinv s' \<and> held s' = (held s)(de_id e \<mapsto> e)"
    and update_err: "dinv s \<Longrightarrow> dl_update ops s e = (Inl x, s') \<Longrightarrow> dinv s' \<and> held s' = held s"
    and clear_ok: "dinv s \<Longrightarrow> dl_clear_task ops s t = (Inr n, s') \<Longrightarrow>
      dinv s' \<and> held s' = (\<lambda>i. case held s i of
        Some e \<Rightarrow> if de_task_id e = t then None else Some e | None \<Rightarrow> None)"
begin

text \<open>The event of an entry is still held or was sent.\<close>

definition kept :: "'s \<Rightarrow> dlq_entry list \<Rightarrow> dlq_entry \<Rightarrow> bool" where
  "kept s sent e \<longleftrightarrow>
     (\<exists>e'. held s (de_id e) = Some e' \<and> de_event e' = de_event e \<and> de_task_id e' = de_task_id e) \<or>
     (\<exists>e' \<in> set sent. de_id e' = de_id e \<and> de_event e' = de_event e)"

lemma reprocess_loop_keeps:
  assumes "dinv s" and "reprocess_loop ops now sends i es s = (r, sent, s')"
    and "\<forall>e \<in> set es. held s (de_id e) = Some e" and "distinct (map de_id es)"
  shows "dinv s' \<and> (\<forall>j e. held s j = Some e \<longrightarrow> kept s' sent e) \<and>
    (r = Inr () \<longrightarrow> sent = map (retried now) es \<and>
       held s' = (\<lambda>j. if j \<in> de_id ` set es then None else held s j))"
  using assms
proof (induction es arbitrary: i s r sent s')
  case Nil
  then show ?case by (auto simp: kept_def dest: held_id)
next
  case (Cons e es)
  let ?e = "retried now e"
  have id: "de_id ?e = de_id e" "de_event ?e = de_event e" "de_task_id ?e = de_task_id e"
    by (simp_all add: retried_def)
  obtain r1 s1 where up: "dl_update ops s ?e = (r1, s1)" by fastforce
  show ?case
  proof (cases r1)
    case (Inl x)
    with up Cons.prems update_err [OF Cons.prems(1)] show ?thesis
      by (auto simp: kept_def Let_def dest: held_id)
  next
    case (Inr u)
    with up update_ok [OF Cons.prems(1)] id have s1: "dinv s1" "held s1 = (held s)(de_id e \<mapsto> ?e)"
      by auto
    have kept1: "kept s1 [] d" if "held s j = Some d" for j d
      using that held_id [OF Cons.prems(1) that] Cons.prems(3) s1(2) id
      by (cases "j = de_id e") (auto simp: kept_def)
    show ?thesis
    proof (cases "sends i")
      case False
      with up Inr Cons.prems(2) s1 kept1 show ?thesis by (auto simp: Let_def)
    next
      case True
      obtain r2 s2 where rm: "dl_remove ops s1 (de_id e) = (r2, s2)" by fastforce
      show ?thesis
      proof (cases r2)
        case (Inl x)
        with up Inr True rm Cons.prems(2) id have fin: "r = Inl x" "sent = [?e]" "s' = s2"
          by (simp_all add: Let_def)
        from rm Inl remove_err [OF s1(1)] have s2: "dinv s2" "held s2 = held s1" by auto
        have "kept s' sent d" if "held s j = Some d" for j d
          using kept1 [OF that] s2(2) fin(3) by (simp add: kept_def)
        with s2(1) fin show ?thesis by blast
      next
        case Inr2: (Inr u2)
        with rm remove_ok [OF s1(1)] s1(2) have s2: "dinv s2" "held s2 = (held s)(de_id e := None)"
          by auto
        obtain r3 sent2 s3 where loop: "reprocess_loop ops now sends (Suc i) es s2 = (r3, sent2, s3)"
          by (cases "reprocess_loop ops now sends (Suc i) es s2") auto
        have "(r3, ?e # sent2, s3) = (r, sent, s')"
          using Cons.prems(2) by (simp add: Let_def up Inr True rm Inr2 id loop)
        with loop have rec: "reprocess_loop ops now sends (Suc i) es s2 = (r, sent2, s')"
            "sent = ?e # sent2" by simp_all
        have "de_id d \<noteq> de_id e" if "d \<in> set es" for d
          using Cons.prems(4) that by (metis distinct.simps(2) image_eqI list.set_map list.simps(9))
        with Cons.prems(3) s2(2) have "\<forall>d \<in> set es. held s2 (de_id d) = Some d" by simp
        moreover have "distinct (map de_id es)" using Cons.prems(4) by simp
        ultimately have rest: "\<forall>d \<in> set es. held s2 (de_id d) = Some d" "distinct (map de_id es)"
          by simp_all
        note IH = Cons.IH [OF s2(1) rec(1) rest]
        have "kept s' sent d" if "held s j = Some d" for j d
        proof (cases "de_id d = de_id e")
          case True
          have "held s (de_id e) = Some e" using Cons.prems(3) by simp
          then have "d = e" using held_id [OF Cons.prems(1) that] that True by simp
          then show ?thesis by (simp add: kept_def rec(2) id)
        next
          case False
          then have "held s2 j = Some d" using that held_id [OF Cons.prems(1) that] s2(2) by simp
          with IH have "kept s' sent2 d" by blast
          with rec(2) show ?thesis by (auto simp: kept_def)
        qed
        moreover have "r = Inr () \<longrightarrow> sent = map (retried now) (e # es) \<and>
            held s' = (\<lambda>j. if j \<in> de_id ` set (e # es) then None else held s j)"
          using IH by (simp add: rec(2) s2(2) fun_eq_iff)
        ultimately show ?thesis using IH by simp
      qed
    qed
  qed
qed

lemma reprocess_keeps:
  assumes "dinv s" and "reprocess_entries ops now tx t limit s = (r, sent, s')"
  shows "dinv s' \<and> (\<forall>j e. held s j = Some e \<longrightarrow> kept s' sent e) \<and>
    (\<forall>n. r = Inr n \<longrightarrow> n = length sent \<and> (\<forall>j e. held s j = Some e \<longrightarrow>
       held s' j = (if j \<in> de_id ` set sent then None else Some e)))"
proof -
  obtain r1 s1 where g: "dl_get_by_task ops s t limit = (r1, s1)" by fastforce
  have same: "kept s1 [] e" if "held s1 = held s" "held s j = Some e" for j e
    using that held_id [OF assms(1)] by (auto simp: kept_def)
  show ?thesis
  proof (cases r1)
    case (Inl x)
    with g assms by_task_err [OF assms(1), of t limit x s1] same show ?thesis
      by (auto simp: reprocess_entries_def)
  next
    case (Inr es)
    with g by_task_ok [OF assms(1), of t limit es s1] have s1: "dinv s1" "held s1 = held s"
        "distinct (map de_id es)" "\<forall>e \<in> set es. held s1 (de_id e) = Some e"
      by auto
    show ?thesis
    proof (cases "es = [] \<or> tx = None")
      case True
      with g Inr assms(2) s1 same show ?thesis by (auto simp: reprocess_entries_def split: if_splits)
    next
      case False
      then obtain sends where tx: "tx = Some sends" "es \<noteq> []" by auto
      obtain r2 where loop: "reprocess_loop ops now sends 0 es s1 = (r2, sent, s')"
          "r = (case r2 of Inl e \<Rightarrow> Inl e | Inr _ \<Rightarrow> Inr (length es))"
        using g Inr tx assms(2) by (auto simp: reprocess_entries_def split: prod.splits sum.splits)
      have ids: "de_id ` set (map (retried now) es) = de_id ` set es"
        by (simp add: image_image retried_def)
      from reprocess_loop_keeps [OF s1(1) loop(1) s1(4,3)] loop(2) s1(2) ids show ?thesis
        by (auto split: sum.splits)
    qed
  qed
qed

end

section \<open>The in-memory storage\<close>

type_synonym memory_dlq = "(string, dlq_entry) hmap"

definition mdlq_store :: "memory_dlq \<Rightarrow> dlq_entry \<Rightarrow> unit result \<times> memory_dlq" where
  "mdlq_store entries entry = (Inr (), hm_insert (de_id entry) entry entries)"

definition mdlq_get_by_task :: "memory_dlq \<Rightarrow> string \<Rightarrow> nat option \<Rightarrow> dlq_entry list result \<times> memory_dlq" where
  "mdlq_get_by_task entries task_id limit =
     (let task_entries = sort_key de_created_at (filter (\<lambda>e. de_task_id e = task_id) (hm_values entries))
      in (Inr (case limit of None \<Rightarrow> task_entries | Some n \<Rightarrow> take n task_entries), entries))"

definition mdlq_get :: "memory_dlq \<Rightarrow> string \<Rightarrow> dlq_entry option result \<times> memory_dlq" where
  "mdlq_get entries i = (Inr (hm_get entries i), entries)"

definition mdlq_remove :: "memory_dlq \<Rightarrow> string \<Rightarrow> unit result \<times> memory_dlq" where
  "mdlq_remove entries i = (Inr (), hm_remove i entries)"

definition mdlq_update :: "memory_dlq \<Rightarrow> dlq_entry \<Rightarrow> unit result \<times> memory_dlq" where
  "mdlq_update entries entry = (Inr (), hm_insert (de_id entry) entry entries)"

text \<open>\<open>error.lines().next()\<close>: up to the first line feed, less a carriage return before it.\<close>

definition first_line :: "string \<Rightarrow> string option" where
  "first_line s =
     (if s = [] then None
      else case split_once (CHR 0x0A) s of
        None \<Rightarrow> Some s
      | Some (l, _) \<Rightarrow> Some (if l \<noteq> [] \<and> last l = CHR 0x0D then butlast l else l))"

definition error_type :: "dlq_entry \<Rightarrow> string" where
  "error_type e = (case first_line (de_error e) of None \<Rightarrow> ''Unknown'' | Some l \<Rightarrow> l)"

text \<open>\<open>*map.entry(k).or_insert(0) += 1\<close>.\<close>

definition count_up :: "string \<Rightarrow> (string, nat) hmap \<Rightarrow> (string, nat) hmap" where
  "count_up k m = hm_insert k ((case hm_get m k of None \<Rightarrow> 0 | Some n \<Rightarrow> n) + 1) m"

definition older :: "time option \<Rightarrow> time \<Rightarrow> time option" where
  "older oldest t = (case oldest of None \<Rightarrow> Some t | Some old \<Rightarrow> if t < old then Some t else Some old)"

definition newer :: "time option \<Rightarrow> time \<Rightarrow> time option" where
  "newer newest t = (case newest of None \<Rightarrow> Some t | Some new \<Rightarrow> if t > new then Some t else Some new)"

definition mdlq_get_statistics :: "memory_dlq \<Rightarrow> dlq_statistics result \<times> memory_dlq" where
  "mdlq_get_statistics entries =
     (let es = hm_values entries in
      (Inr \<lparr>dq_total_entries = length entries,
            dq_entries_by_task = fold (\<lambda>e. count_up (de_task_id e)) es [],
            dq_entries_by_error = fold (\<lambda>e. count_up (error_type e)) es [],
            dq_oldest_entry = foldl older None (map de_created_at es),
            dq_newest_entry = foldl newer None (map de_created_at es)\<rparr>, entries))"

definition mdlq_clear_task :: "memory_dlq \<Rightarrow> string \<Rightarrow> nat result \<times> memory_dlq" where
  "mdlq_clear_task entries task_id =
     (let kept = filter (\<lambda>(k, e). de_task_id e \<noteq> task_id) entries
      in (Inr (length entries - length kept), kept))"

definition memory_dlq_ops :: "memory_dlq dlq_ops" where
  "memory_dlq_ops = \<lparr>dl_store = mdlq_store, dl_get_by_task = mdlq_get_by_task, dl_get = mdlq_get,
     dl_remove = mdlq_remove, dl_update = mdlq_update, dl_get_statistics = mdlq_get_statistics,
     dl_clear_task = mdlq_clear_task\<rparr>"

text \<open>Every entry is stored under its own identifier.\<close>

definition mdlq_inv :: "memory_dlq \<Rightarrow> bool" where
  "mdlq_inv m \<longleftrightarrow> hm_ok m \<and> (\<forall>(k, e) \<in> set m. de_id e = k)"

lemma mdlq_ops_simps [simp]:
  "dl_store memory_dlq_ops = mdlq_store" "dl_get_by_task memory_dlq_ops = mdlq_get_by_task"
  "dl_remove memory_dlq_ops = mdlq_remove" "dl_update memory_dlq_ops = mdlq_update"
  "dl_get_statistics memory_dlq_ops = mdlq_get_statistics"
  "dl_clear_task memory_dlq_ops = mdlq_clear_task"
  by (simp_all add: memory_dlq_ops_def)

lemmas mdlq_defs = mdlq_store_def mdlq_get_by_task_def mdlq_get_def mdlq_remove_def mdlq_update_def
  mdlq_clear_task_def Let_def

lemma mdlq_inv_keys: "mdlq_inv m \<Longrightarrow> map de_id (hm_values m) = hm_keys m"
  by (auto simp: mdlq_inv_def)

lemma mdlq_inv_distinct: "mdlq_inv m \<Longrightarrow> distinct (map de_id (hm_values m))"
  using mdlq_inv_keys [of m] by (metis hm_ok_def mdlq_inv_def)

lemma mdlq_inv_get: "mdlq_inv m \<Longrightarrow> hm_get m i = Some e \<longleftrightarrow> e \<in> set (hm_values m) \<and> de_id e = i"
  by (force simp: mdlq_inv_def hm_ok_def)

lemma mdlq_inv_insert: "mdlq_inv m \<Longrightarrow> mdlq_inv (hm_insert (de_id e) e m)"
  using set_hm_insert_subset [of "de_id e" e m] by (fastforce simp: mdlq_inv_def)

lemma mdlq_inv_remove: "mdlq_inv m \<Longrightarrow> mdlq_inv (hm_remove i m)"
  by (auto simp: mdlq_inv_def AList.delete_eq hm_ok_filter)

lemma mdlq_inv_filter: "mdlq_inv m \<Longrightarrow> mdlq_inv (filter P m)"
  by (auto simp: mdlq_inv_def hm_ok_filter)

lemma mdlq_by_task:
  assumes "mdlq_inv m" and "mdlq_get_by_task m t limit = (Inr es, m')"
  shows "m' = m" and "distinct (map de_id es)" and "sorted (map de_created_at es)"
    and "\<forall>e \<in> set es. de_task_id e = t \<and> hm_get m (de_id e) = Some e"
    and "limit = None \<Longrightarrow> \<forall>e \<in> set (hm_values m). de_task_id e = t \<longrightarrow> e \<in> set es"
    and "limit = Some n \<Longrightarrow> length es \<le> n"
proof -
  let ?all = "sort_key de_created_at (filter (\<lambda>e. de_task_id e = t) (hm_values m))"
  have es: "m' = m" "es = (case limit of None \<Rightarrow> ?all | Some n \<Rightarrow> take n ?all)"
    using assms(2) by (simp_all add: mdlq_get_by_task_def Let_def)
  have "distinct (map de_id (filter (\<lambda>e. de_task_id e = t) (hm_values m)))"
    using mdlq_inv_distinct [OF assms(1)] by (rule distinct_map_filter)
  then have all: "distinct (map de_id ?all)"
    by (simp add: distinct_map)
  have sub: "set es \<subseteq> set ?all"
    using es(2) set_take_subset by (fastforce split: option.splits)
  show "m' = m" by (rule es(1))
  show "distinct (map de_id es)"
    using all es(2) by (auto simp: take_map [symmetric] split: option.splits)
  show "sorted (map de_created_at es)"
    using es(2) by (auto simp: take_map [symmetric] sorted_wrt_take split: option.splits)
  show "\<forall>e \<in> set es. de_task_id e = t \<and> hm_get m (de_id e) = Some e"
    using sub mdlq_inv_get [OF assms(1)] by auto
  show "limit = None \<Longrightarrow> \<forall>e \<in> set (hm_values m). de_task_id e = t \<longrightarrow> e \<in> set es"
    using es(2) by simp
  show "limit = Some n \<Longrightarrow> length es \<le> n"
    using es(2) by simp
qed

interpretation mdlq: dlq_storage memory_dlq_ops mdlq_inv hm_get
proof (unfold_locales, goal_cases)
  case (4 s t limit es s')
  then show ?case
    using mdlq_by_task [of s t limit es s'] mdlq_inv_get [of s] by auto
next
  case (10 s t n s')
  then have "s' = filter (\<lambda>(k, e). de_task_id e \<noteq> t) s" by (simp add: mdlq_clear_task_def Let_def)
  then show ?case
    using 10 hm_get_filter_value [of s "\<lambda>e. de_task_id e \<noteq> t"]
    by (auto simp: hm_ok_filter fun_eq_iff mdlq_inv_def split: option.splits)
qed (auto simp: mdlq_defs hmap_simps mdlq_inv_insert mdlq_inv_remove mdlq_inv_get)

section \<open>Properties\<close>

text \<open>
  C27. Reprocessing never loses an event: whatever fails (no channel, a send in the middle),
  every entry that was in the queue still is, with the same event, or was sent to the pipeline.
  On success the entries sent are the oldest ones of the task, at most the limit of them, each
  with its retry recorded, and they are exactly the entries that left the queue.
\<close>

theorem dlq_reprocess_keeps_every_event:
  assumes "mdlq_inv m" and "reprocess_entries memory_dlq_ops now tx t limit m = (r, sent, m')"
  shows "mdlq_inv m' \<and>
    (\<forall>j e. hm_get m j = Some e \<longrightarrow>
       (\<exists>e'. hm_get m' j = Some e' \<and> de_event e' = de_event e \<and> de_task_id e' = de_task_id e) \<or>
       (\<exists>e' \<in> set sent. de_id e' = j \<and> de_event e' = de_event e)) \<and>
    (\<forall>n. r = Inr n \<longrightarrow> n = length sent \<and>
       (\<forall>j e. hm_get m j = Some e \<longrightarrow>
          hm_get m' j = (if j \<in> de_id ` set sent then None else Some e)))"
proof -
  note keeps = mdlq.reprocess_keeps [OF assms]
  have "de_id e = j" if "hm_get m j = Some e" for j e
    using that mdlq_inv_get [OF assms(1)] by simp
  with keeps show ?thesis unfolding mdlq.kept_def by blast
qed

definition demo_event :: "string \<Rightarrow> event" where
  "demo_event i = \<lparr>ev_id = i, ev_event_type = EtCreate,
     ev_source = \<lparr>es_database = ''app'', es_schema = ''public'', es_table = ''users''\<rparr>,
     ev_data = \<lparr>ed_key = Null, ed_old = None, ed_new = None\<rparr>,
     ev_metadata = \<lparr>em_transaction_id = None, em_position = ''0/10'', em_custom = []\<rparr>, ev_timestamp = 0\<rparr>"

definition demo_entry :: "string \<Rightarrow> time \<Rightarrow> dlq_entry" where
  "demo_entry i t = failed_entry i t ''users'' (demo_event i) (Meilisearch ''down'') 0"

definition demo_dlq :: memory_dlq where
  "demo_dlq = [(''b'', demo_entry ''b'' 7), (''a'', demo_entry ''a'' 3)]"

theorem dlq_reprocess_keeps_every_event_witness:
  "mdlq_inv demo_dlq \<and>
   (\<exists>m'. reprocess_entries memory_dlq_ops 9 (Some (\<lambda>i. i = 0)) ''users'' None demo_dlq =
      (Inl (Pipeline ''Failed to reprocess entry: channel closed''), [retried 9 (demo_entry ''a'' 3)], m') \<and>
      mdlq_inv m' \<and> hm_get m' ''b'' = Some (retried 9 (demo_entry ''b'' 7)))"
proof -
  have inv: "mdlq_inv demo_dlq" by code_simp
  obtain r sent m' where run: "reprocess_entries memory_dlq_ops 9 (Some (\<lambda>i. i = 0)) ''users'' None demo_dlq =
      (r, sent, m')" by (metis surj_pair)
  have out: "reprocess_entries memory_dlq_ops 9 (Some (\<lambda>i. i = 0)) ''users'' None demo_dlq =
      (Inl (Pipeline ''Failed to reprocess entry: channel closed''), [retried 9 (demo_entry ''a'' 3)],
       [(''b'', retried 9 (demo_entry ''b'' 7))])"
    by code_simp
  from dlq_reprocess_keeps_every_event [OF inv run] run out show ?thesis using inv by auto
qed

lemma hm_get_count_up:
  "hm_get (fold (\<lambda>e. count_up (f e)) es m) k =
     (let n = length (filter (\<lambda>e. f e = k) es) in
      if n = 0 then hm_get m k else Some ((case hm_get m k of None \<Rightarrow> 0 | Some j \<Rightarrow> j) + n))"
  by (induction es arbitrary: m) (auto simp: count_up_def Let_def hmap_simps split: option.splits)

lemma foldl_older: "foldl older (Some t) ts = Some (Min (insert t (set ts)))"
proof -
  have "foldl older (Some t) ts = Some (fold min ts t)"
    by (induction ts arbitrary: t) (auto simp: older_def min_def)
  then show ?thesis using Min.set_eq_fold [of t ts] by simp
qed

lemma foldl_newer: "foldl newer (Some t) ts = Some (Max (insert t (set ts)))"
proof -
  have "foldl newer (Some t) ts = Some (fold max ts t)"
    by (induction ts arbitrary: t) (auto simp: newer_def max_def)
  then show ?thesis using Max.set_eq_fold [of t ts] by simp
qed

text \<open>
  The statistics count every entry once by task and once by the first line of its error,
  and give the first and last creation time.
\<close>

theorem dlq_statistics_account:
  "\<exists>st. mdlq_get_statistics m = (Inr st, m) \<and>
     dq_total_entries st = length m \<and>
     (\<forall>t. (case hm_get (dq_entries_by_task st) t of None \<Rightarrow> 0 | Some n \<Rightarrow> n) =
        length (filter (\<lambda>e. de_task_id e = t) (hm_values m))) \<and>
     (\<forall>x. (case hm_get (dq_entries_by_error st) x of None \<Rightarrow> 0 | Some n \<Rightarrow> n) =
        length (filter (\<lambda>e. error_type e = x) (hm_values m))) \<and>
     dq_oldest_entry st = (if m = [] then None else Some (Min (de_created_at ` set (hm_values m)))) \<and>
     dq_newest_entry st = (if m = [] then None else Some (Max (de_created_at ` set (hm_values m))))"
proof -
  have "foldl older None (map de_created_at (hm_values m)) =
      (if m = [] then None else Some (Min (de_created_at ` set (hm_values m))))"
    by (cases m) (simp_all add: older_def foldl_older image_image)
  moreover have "foldl newer None (map de_created_at (hm_values m)) =
      (if m = [] then None else Some (Max (de_created_at ` set (hm_values m))))"
    by (cases m) (simp_all add: newer_def foldl_newer image_image)
  ultimately show ?thesis
    by (simp add: mdlq_get_statistics_def Let_def hm_get_count_up)
qed

end
