(* ===== verification/Settings.thy ===== *)
theory Settings
  imports EventFilter Transform
begin

text \<open>
  The configuration of \<open>src/config/*.rs\<close>: a record for every struct, its \<open>Default\<close>
  implementation, and what \<open>serde\<close> makes of a section that is absent or incomplete. A field
  with \<open>#[serde(default = "f")]\<close> that is absent takes the value of \<open>f\<close>; a section with
  \<open>#[serde(default)]\<close> that is absent takes the \<open>Default\<close> of its type. Where \<open>Default\<close> is
  derived the two disagree, because the derived one takes zero, \<open>false\<close> and the empty string.
\<close>

definition from_yaml :: "'a \<Rightarrow> 'a option \<Rightarrow> 'a" where
  "from_yaml dflt v = (case v of None \<Rightarrow> dflt | Some x \<Rightarrow> x)"

lemma from_yaml_simps [simp]: "from_yaml d None = d" "from_yaml d (Some x) = x"
  by (simp_all add: from_yaml_def)

section \<open>Sources: \<open>config/source.rs\<close>\<close>

record pool_config =
  pl_max_size :: u32
  pl_min_idle :: u32
  pl_connection_timeout :: "u64 option"
  pl_idle_timeout :: "u64 option"

definition pool_config_default :: pool_config where
  "pool_config_default = \<lparr>pl_max_size = 0, pl_min_idle = 0, pl_connection_timeout = None,
     pl_idle_timeout = None\<rparr>"

definition default_pool_size :: u32 where
  "default_pool_size = 10"

definition default_min_idle :: u32 where
  "default_min_idle = 1"

text \<open>The section of a configuration file: every field may be absent.\<close>

record pool_section =
  ys_max_size :: "u32 option"
  ys_min_idle :: "u32 option"
  ys_connection_timeout :: "u64 option option"
  ys_idle_timeout :: "u64 option option"

definition pool_of_section :: "pool_section option \<Rightarrow> pool_config" where
  "pool_of_section y =
     (case y of
        None \<Rightarrow> pool_config_default
      | Some s \<Rightarrow> \<lparr>pl_max_size = from_yaml default_pool_size (ys_max_size s),
                  pl_min_idle = from_yaml default_min_idle (ys_min_idle s),
                  pl_connection_timeout = from_yaml None (ys_connection_timeout s),
                  pl_idle_timeout = from_yaml None (ys_idle_timeout s)\<rparr>)"

datatype ssl_mode = SslDisable | SslPrefer | SslRequire | SslVerifyCa | SslVerifyFull

record ssl_config =
  ss_mode :: ssl_mode
  ss_ca_cert :: "string option"
  ss_client_cert :: "string option"
  ss_client_key :: "string option"

definition ssl_config_default :: ssl_config where
  "ssl_config_default = \<lparr>ss_mode = SslDisable, ss_ca_cert = None, ss_client_cert = None,
     ss_client_key = None\<rparr>"

record statement_cache_config =
  sc_enabled :: bool
  sc_max_size :: nat

definition statement_cache_config_default :: statement_cache_config where
  "statement_cache_config_default = \<lparr>sc_enabled = True, sc_max_size = 100\<rparr>"

record connection_parameters =
  cp_host :: string
  cp_port :: u16
  cp_database :: string
  cp_username :: string
  cp_password :: string

datatype postgresql_connection =
    ConnectionString string
  | Parameters connection_parameters

record postgresql_config =
  pg_connection :: postgresql_connection
  pg_slot_name :: string
  pg_publication :: string
  pg_pool :: pool_config
  pg_ssl :: ssl_config
  pg_statement_cache :: statement_cache_config

definition default_slot_name :: string where
  "default_slot_name = ''meilibridge''"

definition default_publication :: string where
  "default_publication = ''meilibridge_pub''"

datatype source_config =
    PostgreSQLSource postgresql_config
  | MySQLSource string
  | MongoDBSource string

record named_source_config =
  ns_name :: string
  ns_config :: source_config

section \<open>Meilisearch: \<open>config/meilisearch.rs\<close>\<close>

record circuit_breaker_settings =
  cb_enabled :: bool
  cb_error_rate :: f64
  cb_min_request_count :: u64
  cb_consecutive_failures :: u64
  cb_timeout_secs :: u64

definition circuit_breaker_settings_default :: circuit_breaker_settings where
  "circuit_breaker_settings_default = \<lparr>cb_enabled = True, cb_error_rate = Fin (1 / 2),
     cb_min_request_count = 10, cb_consecutive_failures = 5, cb_timeout_secs = 60\<rparr>"

record index_settings =
  ix_searchable_attributes :: "string list option"
  ix_displayed_attributes :: "string list option"
  ix_filterable_attributes :: "string list option"
  ix_sortable_attributes :: "string list option"
  ix_ranking_rules :: "string list option"
  ix_stop_words :: "string list option"
  ix_synonyms :: "(string, string list) hmap option"

definition index_settings_default :: index_settings where
  "index_settings_default = \<lparr>ix_searchable_attributes = None, ix_displayed_attributes = None,
     ix_filterable_attributes = None, ix_sortable_attributes = None, ix_ranking_rules = None,
     ix_stop_words = None, ix_synonyms = None\<rparr>"

record meilisearch_config =
  ms_url :: string
  ms_api_key :: "string option"
  ms_timeout :: u64
  ms_max_connections :: nat
  ms_index_settings :: index_settings
  ms_primary_key :: "string option"
  ms_batch_size :: nat
  ms_auto_create_index :: bool
  ms_circuit_breaker :: circuit_breaker_settings

text \<open>What a section with a URL, perhaps a key, and nothing else becomes.\<close>

definition meilisearch_minimal :: "string \<Rightarrow> string option \<Rightarrow> meilisearch_config" where
  "meilisearch_minimal url api_key = \<lparr>ms_url = url, ms_api_key = api_key, ms_timeout = 30,
     ms_max_connections = 10, ms_index_settings = index_settings_default, ms_primary_key = None,
     ms_batch_size = 1000, ms_auto_create_index = True,
     ms_circuit_breaker = circuit_breaker_settings_default\<rparr>"

section \<open>Redis: \<open>config/redis.rs\<close>\<close>

record checkpoint_retention_config =
  cr_max_checkpoints_per_task :: nat
  cr_cleanup_on_memory_pressure :: bool
  cr_memory_pressure_threshold :: f64

definition checkpoint_retention_default :: checkpoint_retention_config where
  "checkpoint_retention_default = \<lparr>cr_max_checkpoints_per_task = 10,
     cr_cleanup_on_memory_pressure = True, cr_memory_pressure_threshold = Fin 80\<rparr>"

record redis_pool_config =
  rp_max_size :: u32
  rp_min_idle :: u32
  rp_connection_timeout :: u64

definition redis_pool_default :: redis_pool_config where
  "redis_pool_default = \<lparr>rp_max_size = 10, rp_min_idle = 1, rp_connection_timeout = 5\<rparr>"

record redis_config =
  rc_url :: string
  rc_password :: "string option"
  rc_database :: u8
  rc_key_prefix :: string
  rc_pool :: redis_pool_config
  rc_checkpoint_retention :: checkpoint_retention_config

definition redis_minimal :: "string \<Rightarrow> redis_config" where
  "redis_minimal url = \<lparr>rc_url = url, rc_password = None, rc_database = 0,
     rc_key_prefix = ''meilibridge'', rc_pool = redis_pool_default,
     rc_checkpoint_retention = checkpoint_retention_default\<rparr>"

section \<open>Performance: \<open>config/performance.rs\<close>\<close>

record connection_pool_config =
  cn_max_connections :: u32
  cn_min_connections :: u32
  cn_connection_timeout :: u64
  cn_idle_timeout :: u64

definition connection_pool_default :: connection_pool_config where
  "connection_pool_default = \<lparr>cn_max_connections = 20, cn_min_connections = 5,
     cn_connection_timeout = 30, cn_idle_timeout = 600\<rparr>"

record adaptive_batching_config =
  ab_target_latency_ms :: u64
  ab_adjustment_factor :: f64
  ab_metric_window_size :: nat
  ab_adjustment_interval_ms :: u64
  ab_memory_pressure_threshold :: f64
  ab_per_table_optimization :: bool

text \<open>The literal \<open>0.2\<close> is the binary64 number nearest to it.\<close>

definition adaptive_batching_default :: adaptive_batching_config where
  "adaptive_batching_default = \<lparr>ab_target_latency_ms = 1000,
     ab_adjustment_factor = f64_round (2 / 10), ab_metric_window_size = 10,
     ab_adjustment_interval_ms = 5000, ab_memory_pressure_threshold = Fin 80,
     ab_per_table_optimization = True\<rparr>"

record batch_processing_config =
  bc_default_batch_size :: nat
  bc_max_batch_size :: nat
  bc_min_batch_size :: nat
  bc_batch_timeout_ms :: u64
  bc_adaptive_batching :: bool
  bc_adaptive_config :: adaptive_batching_config

definition batch_processing_default :: batch_processing_config where
  "batch_processing_default = \<lparr>bc_default_batch_size = 100, bc_max_batch_size = 1000,
     bc_min_batch_size = 10, bc_batch_timeout_ms = 5000, bc_adaptive_batching = True,
     bc_adaptive_config = adaptive_batching_default\<rparr>"

record parallel_processing_config =
  pp_enabled :: bool
  pp_workers_per_table :: nat
  pp_max_concurrent_events :: nat
  pp_work_stealing :: bool
  pp_work_steal_interval_ms :: u64
  pp_work_steal_threshold :: nat

definition parallel_processing_default :: parallel_processing_config where
  "parallel_processing_default = \<lparr>pp_enabled = True, pp_workers_per_table = 4,
     pp_max_concurrent_events = 1000, pp_work_stealing = True, pp_work_steal_interval_ms = 100,
     pp_work_steal_threshold = 50\<rparr>"

record memory_config =
  me_max_queue_memory_mb :: nat
  me_max_checkpoint_memory_mb :: nat
  me_monitor_memory_pressure :: bool

definition memory_config_default :: memory_config where
  "memory_config_default = \<lparr>me_max_queue_memory_mb = 512, me_max_checkpoint_memory_mb = 128,
     me_monitor_memory_pressure = True\<rparr>"

record rate_limit_config =
  rl_enabled :: bool
  rl_max_events_per_second :: u64
  rl_max_api_requests_per_second :: u64
  rl_burst_capacity :: u64

definition rate_limit_default :: rate_limit_config where
  "rate_limit_default = \<lparr>rl_enabled = False, rl_max_events_per_second = 0,
     rl_max_api_requests_per_second = 1000, rl_burst_capacity = 100\<rparr>"

record performance_config =
  pf_connection_pool :: connection_pool_config
  pf_batch_processing :: batch_processing_config
  pf_parallel_processing :: parallel_processing_config
  pf_memory :: memory_config
  pf_rate_limits :: rate_limit_config

definition performance_config_default :: performance_config where
  "performance_config_default = \<lparr>pf_connection_pool = connection_pool_default,
     pf_batch_processing = batch_processing_default,
     pf_parallel_processing = parallel_processing_default, pf_memory = memory_config_default,
     pf_rate_limits = rate_limit_default\<rparr>"

section \<open>Error handling: \<open>config/error_handling.rs\<close>\<close>

record retry_settings =
  rs_enabled :: bool
  rs_max_attempts :: u32
  rs_initial_backoff_ms :: u64
  rs_max_backoff_ms :: u64
  rs_backoff_multiplier :: f64
  rs_jitter_factor :: f64

definition retry_settings_default :: retry_settings where
  "retry_settings_default = \<lparr>rs_enabled = True, rs_max_attempts = 3, rs_initial_backoff_ms = 100,
     rs_max_backoff_ms = 30000, rs_backoff_multiplier = Fin 2,
     rs_jitter_factor = f64_round (1 / 10)\<rparr>"

record dlq_settings =
  ds_enabled :: bool
  ds_storage :: string
  ds_max_entries_per_task :: nat
  ds_retention_hours :: u64
  ds_auto_reprocess_interval_minutes :: u64

definition dlq_settings_default :: dlq_settings where
  "dlq_settings_default = \<lparr>ds_enabled = True, ds_storage = ''memory'',
     ds_max_entries_per_task = 10000, ds_retention_hours = 24,
     ds_auto_reprocess_interval_minutes = 0\<rparr>"

record eh_breaker_settings =
  eb_enabled :: bool
  eb_failure_threshold_percent :: u8
  eb_min_requests :: u32
  eb_reset_timeout_seconds :: u64
  eb_half_open_max_requests :: u32

definition eh_breaker_settings_default :: eh_breaker_settings where
  "eh_breaker_settings_default = \<lparr>eb_enabled = False, eb_failure_threshold_percent = 50,
     eb_min_requests = 10, eb_reset_timeout_seconds = 60, eb_half_open_max_requests = 5\<rparr>"

record error_handling_config =
  eh_retry :: retry_settings
  eh_dead_letter_queue :: dlq_settings
  eh_circuit_breaker :: eh_breaker_settings

definition error_handling_default :: error_handling_config where
  "error_handling_default = \<lparr>eh_retry = retry_settings_default,
     eh_dead_letter_queue = dlq_settings_default,
     eh_circuit_breaker = eh_breaker_settings_default\<rparr>"

section \<open>Monitoring, logging and the API: \<open>config/{monitoring,logging,api}.rs\<close>\<close>

record monitoring_config =
  mo_metrics_enabled :: bool
  mo_metrics_interval_seconds :: u64
  mo_health_checks_enabled :: bool
  mo_health_check_interval_seconds :: u64
  mo_tracing_enabled :: bool
  mo_tracing_backend :: string
  mo_tracing_endpoint :: "string option"

definition monitoring_config_default :: monitoring_config where
  "monitoring_config_default = \<lparr>mo_metrics_enabled = True, mo_metrics_interval_seconds = 60,
     mo_health_checks_enabled = True, mo_health_check_interval_seconds = 30,
     mo_tracing_enabled = False, mo_tracing_backend = ''otlp'', mo_tracing_endpoint = None\<rparr>"

datatype log_format = LogText | LogJson | LogPretty

datatype log_rotation = RotNever | RotDaily | RotHourly | RotSize u64

datatype log_output =
    LogStdout "log_format option" "string option"
  | LogStderr "log_format option" "string option"
  | LogFile string "log_format option" log_rotation "string option"

record logging_config =
  lg_level :: string
  lg_format :: log_format
  lg_outputs :: "log_output list"

definition logging_config_default :: logging_config where
  "logging_config_default = \<lparr>lg_level = ''info'', lg_format = LogText,
     lg_outputs = [LogStdout None None]\<rparr>"

record cors_config =
  co_enabled :: bool
  co_allowed_origins :: "string list"
  co_allowed_methods :: "string list"
  co_allowed_headers :: "string list"
  co_max_age :: u64

definition cors_config_default :: cors_config where
  "cors_config_default = \<lparr>co_enabled = False, co_allowed_origins = [], co_allowed_methods = [],
     co_allowed_headers = [], co_max_age = 0\<rparr>"

record api_key =
  ak_name :: string
  ak_key :: string
  ak_permissions :: "string list"

record auth_config =
  au_enabled :: bool
  au_jwt_secret :: "string option"
  au_token_expiry :: u64
  au_api_keys :: "api_key list"

definition auth_config_default :: auth_config where
  "auth_config_default = \<lparr>au_enabled = False, au_jwt_secret = None, au_token_expiry = 0,
     au_api_keys = []\<rparr>"

record api_rate_limit_config =
  ar_enabled :: bool
  ar_requests_per_minute :: u32
  ar_burst_size :: u32

definition api_rate_limit_default :: api_rate_limit_config where
  "api_rate_limit_default = \<lparr>ar_enabled = False, ar_requests_per_minute = 60, ar_burst_size = 10\<rparr>"

record api_config =
  ap_host :: string
  ap_port :: u16
  ap_cors :: cors_config
  ap_auth :: auth_config
  ap_rate_limit :: api_rate_limit_config

definition api_config_default :: api_config where
  "api_config_default = \<lparr>ap_host = ''127.0.0.1'', ap_port = 7701, ap_cors = cors_config_default,
     ap_auth = auth_config_default, ap_rate_limit = api_rate_limit_default\<rparr>"

section \<open>Sync tasks: \<open>config/sync_task.rs\<close>\<close>

record sync_retry_config =
  sr_max_retries :: u32
  sr_initial_delay :: u64
  sr_max_delay :: u64
  sr_multiplier :: f64

definition sync_retry_default :: sync_retry_config where
  "sync_retry_default = \<lparr>sr_max_retries = 3, sr_initial_delay = 1, sr_max_delay = 60,
     sr_multiplier = Fin 2\<rparr>"

record sync_options =
  so_batch_size :: nat
  so_batch_timeout_ms :: u64
  so_deduplicate :: bool
  so_retry :: sync_retry_config

definition sync_options_default :: sync_options where
  "sync_options_default = \<lparr>so_batch_size = 0, so_batch_timeout_ms = 0, so_deduplicate = False,
     so_retry = sync_retry_default\<rparr>"

definition default_batch_size :: nat where
  "default_batch_size = 1000"

definition default_batch_timeout :: u64 where
  "default_batch_timeout = 1000"

record sync_options_section =
  yo_batch_size :: "nat option"
  yo_batch_timeout_ms :: "u64 option"
  yo_deduplicate :: "bool option"
  yo_retry :: "sync_retry_config option"

definition options_of_section :: "sync_options_section option \<Rightarrow> sync_options" where
  "options_of_section y =
     (case y of
        None \<Rightarrow> sync_options_default
      | Some s \<Rightarrow> \<lparr>so_batch_size = from_yaml default_batch_size (yo_batch_size s),
                  so_batch_timeout_ms = from_yaml default_batch_timeout (yo_batch_timeout_ms s),
                  so_deduplicate = from_yaml False (yo_deduplicate s),
                  so_retry = from_yaml sync_retry_default (yo_retry s)\<rparr>)"

record sync_task_config =
  st_id :: string
  st_source_name :: string
  st_table :: string
  st_index :: string
  st_primary_key :: string
  st_filter :: "filter_config option"
  st_transform :: "transform_config option"
  st_mapping :: "mapping_config option"
  st_full_sync_on_start :: "bool option"
  st_options :: sync_options
  st_auto_start :: "bool option"
  st_soft_delete :: "soft_delete_config option"

section \<open>The whole configuration: \<open>config/mod.rs\<close>\<close>

record app_config =
  aa_name :: string
  aa_instance_id :: string
  aa_tags :: "(string, string) hmap"

definition app_config_default :: app_config where
  "app_config_default = \<lparr>aa_name = [], aa_instance_id = [], aa_tags = []\<rparr>"

record plugin_config =
  pu_directory :: "string option"
  pu_enabled :: "string list"

definition plugin_config_default :: plugin_config where
  "plugin_config_default = \<lparr>pu_directory = None, pu_enabled = []\<rparr>"

record feature_flags =
  ff_auto_recovery :: bool
  ff_health_checks :: bool
  ff_metrics_export :: bool
  ff_distributed_mode :: bool

definition feature_flags_default :: feature_flags where
  "feature_flags_default = \<lparr>ff_auto_recovery = False, ff_health_checks = False,
     ff_metrics_export = False, ff_distributed_mode = False\<rparr>"

record delivery_settings =
  dv_enabled :: bool
  dv_deduplication_window :: nat
  dv_transaction_timeout_secs :: u64
  dv_two_phase_commit :: bool
  dv_checkpoint_before_write :: bool

definition delivery_settings_default :: delivery_settings where
  "delivery_settings_default = \<lparr>dv_enabled = True, dv_deduplication_window = 10000,
     dv_transaction_timeout_secs = 30, dv_two_phase_commit = True,
     dv_checkpoint_before_write = True\<rparr>"

record config =
  cf_app :: app_config
  cf_source :: "source_config option"
  cf_sources :: "named_source_config list"
  cf_meilisearch :: meilisearch_config
  cf_sync_tasks :: "sync_task_config list"
  cf_redis :: redis_config
  cf_api :: api_config
  cf_logging :: logging_config
  cf_monitoring :: monitoring_config
  cf_error_handling :: error_handling_config
  cf_plugins :: plugin_config
  cf_features :: feature_flags
  cf_performance :: performance_config
  cf_at_least_once_delivery :: delivery_settings

end
