(* ===== verification/ConfigCheck.thy ===== *)
theory ConfigCheck
  imports Settings
begin

text \<open>
  Loading and checking a configuration: \<open>src/config/loader.rs\<close>, \<open>src/config/validation.rs\<close> and
  the functions of \<open>src/main.rs\<close> around them. Reading and deserialising files is the \<open>config\<close>
  crate, an argument; so are the database that lists the columns of a table and the texts of
  sets and of database errors.
\<close>

section \<open>Loading\<close>

text \<open>The files that are read, in the order they override each other.\<close>

definition first_existing :: "(string \<Rightarrow> bool) \<Rightarrow> string list \<Rightarrow> string list" where
  "first_existing exists_file files =
     (case List.find exists_file files of None \<Rightarrow> [] | Some f \<Rightarrow> [f])"

definition config_files :: "string option \<Rightarrow> string option \<Rightarrow> (string \<Rightarrow> bool) \<Rightarrow> string list" where
  "config_files config_path app_env exists_file =
     (case config_path of
        Some p \<Rightarrow> [p]
      | None \<Rightarrow> first_existing exists_file
          [''config.yaml'', ''config.yml'', ''meilibridge.yaml'', ''meilibridge.yml'']) @
     (case app_env of
        Some e \<Rightarrow> first_existing exists_file
          [''config.'' @ e @ ''.yaml'', ''config.'' @ e @ ''.yml'', e @ ''.yaml'', e @ ''.yml'']
      | None \<Rightarrow> [])"

text \<open>One \<open>errors.push\<close> under a test.\<close>

definition push_if :: "bool \<Rightarrow> string \<Rightarrow> string list" where
  "push_if b msg = (if b then [msg] else [])"

definition pool_errors :: "string \<Rightarrow> pool_config \<Rightarrow> string list" where
  "pool_errors prefix pool =
     push_if (pl_max_size pool < pl_min_idle pool) (prefix @ '' pool max_size must be >= min_idle'') @
     push_if (pl_max_size pool = 0) (prefix @ '' pool max_size must be > 0'')"

definition quoted :: "string \<Rightarrow> string" where
  "quoted s = [CHR 0x27] @ s @ [CHR 0x27]"

definition source_errors :: "source_config option \<Rightarrow> string list" where
  "source_errors s = (case s of Some (PostgreSQLSource pg) \<Rightarrow> pool_errors ''PostgreSQL'' (pg_pool pg) | _ \<Rightarrow> [])"

definition named_source_errors :: "named_source_config \<Rightarrow> string list" where
  "named_source_errors n =
     (case ns_config n of
        PostgreSQLSource pg \<Rightarrow> pool_errors (''PostgreSQL source '' @ quoted (ns_name n)) (pg_pool pg)
      | _ \<Rightarrow> [])"

definition task_errors :: "nat \<Rightarrow> sync_task_config \<Rightarrow> string list" where
  "task_errors i task =
     push_if (st_table task = []) (''Sync task '' @ show_nat i @ '' has empty table name'') @
     push_if (st_index task = []) (''Sync task '' @ show_nat i @ '' has empty index name'') @
     push_if (so_batch_size (st_options task) = 0) (''Sync task '' @ show_nat i @ '' batch_size must be > 0'')"

definition loader_errors :: "config \<Rightarrow> string list" where
  "loader_errors c =
     source_errors (cf_source c) @
     concat (map named_source_errors (cf_sources c)) @
     push_if (cf_sync_tasks c = []) ''At least one sync task must be configured'' @
     concat (map (\<lambda>(i, t). task_errors i t) (enumerate 0 (cf_sync_tasks c))) @
     push_if (ms_url (cf_meilisearch c) = []) ''Meilisearch URL cannot be empty'' @
     push_if (rc_url (cf_redis c) = []) ''Redis URL cannot be empty'' @
     push_if (ap_port (cf_api c) = 0) ''API port must be > 0''"

definition loader_validate :: "config \<Rightarrow> unit result" where
  "loader_validate c =
     (if loader_errors c \<noteq> [] then Inl (Validation (join_with '', '' (loader_errors c))) else Inr ())"

definition load ::
  "(string list \<Rightarrow> string + 'b) \<Rightarrow> ('b \<Rightarrow> string + config) \<Rightarrow> string option \<Rightarrow> string option \<Rightarrow>
     (string \<Rightarrow> bool) \<Rightarrow> config result" where
  "load build deserialize config_path app_env exists_file =
     (case build (config_files config_path app_env exists_file) of
        Inl e \<Rightarrow> Inl (Config (''Failed to build config: '' @ e))
      | Inr b \<Rightarrow>
          (case deserialize b of
             Inl e \<Rightarrow> Inl (Config (''Failed to deserialize config: '' @ e))
           | Inr c \<Rightarrow> (case loader_validate c of Inl e \<Rightarrow> Inl e | Inr _ \<Rightarrow> Inr c)))"

text \<open>\<open>load_from_file\<close> sets \<open>CONFIG_PATH\<close> and loads; \<open>load_config\<close> chooses between the two.\<close>

definition load_config ::
  "(string list \<Rightarrow> string + 'b) \<Rightarrow> ('b \<Rightarrow> string + config) \<Rightarrow> string option \<Rightarrow> string option \<Rightarrow>
     string option \<Rightarrow> (string \<Rightarrow> bool) \<Rightarrow> config result" where
  "load_config build deserialize path config_path app_env exists_file =
     (case path of
        Some p \<Rightarrow> load build deserialize (Some p) app_env exists_file
      | None \<Rightarrow> load build deserialize config_path app_env exists_file)"

section \<open>The validation report\<close>

record validation_report =
  vr_errors :: "string list"
  vr_warnings :: "string list"
  vr_info :: "string list"

definition report_new :: validation_report where
  "report_new = \<lparr>vr_errors = [], vr_warnings = [], vr_info = []\<rparr>"

definition add_error :: "string \<Rightarrow> validation_report \<Rightarrow> validation_report" where
  "add_error e r = r\<lparr>vr_errors := vr_errors r @ [e]\<rparr>"

definition add_warning :: "string \<Rightarrow> validation_report \<Rightarrow> validation_report" where
  "add_warning e r = r\<lparr>vr_warnings := vr_warnings r @ [e]\<rparr>"

definition add_info :: "string \<Rightarrow> validation_report \<Rightarrow> validation_report" where
  "add_info e r = r\<lparr>vr_info := vr_info r @ [e]\<rparr>"

definition is_valid :: "validation_report \<Rightarrow> bool" where
  "is_valid r \<longleftrightarrow> vr_errors r = []"

definition error_if :: "bool \<Rightarrow> string \<Rightarrow> validation_report \<Rightarrow> validation_report" where
  "error_if b e r = (if b then add_error e r else r)"

definition warn_if :: "bool \<Rightarrow> string \<Rightarrow> validation_report \<Rightarrow> validation_report" where
  "warn_if b e r = (if b then add_warning e r else r)"

lemma report_simps [simp]:
  "vr_errors (add_error e r) = vr_errors r @ [e]" "vr_errors (add_warning e r) = vr_errors r"
  "vr_errors (add_info e r) = vr_errors r"
  "vr_errors (error_if b e r) = vr_errors r @ push_if b e" "vr_errors (warn_if b e r) = vr_errors r"
  by (simp_all add: add_error_def add_warning_def add_info_def error_if_def warn_if_def push_if_def)

lemma push_if_empty [simp]: "push_if b e = [] \<longleftrightarrow> \<not> b"
  by (simp add: push_if_def)

section \<open>The validator\<close>

text \<open>\<open>HashSet::insert\<close>; the list holds the members in the order they came.\<close>

definition hs_insert :: "string \<Rightarrow> string list \<Rightarrow> string list" where
  "hs_insert x s = (if x \<in> set s then s else s @ [x])"

lemma set_hs_insert [simp]: "set (hs_insert x s) = insert x (set s)"
  by (auto simp: hs_insert_def)

fun collect_fields_from_condition :: "condition \<Rightarrow> string list \<Rightarrow> string list" where
  "collect_fields_from_condition (CEquals f v) acc = hs_insert f acc"
| "collect_fields_from_condition (CNotEquals f v) acc = hs_insert f acc"
| "collect_fields_from_condition (CContains f v) acc = hs_insert f acc"
| "collect_fields_from_condition (CGreaterThan f v) acc = hs_insert f acc"
| "collect_fields_from_condition (CLessThan f v) acc = hs_insert f acc"
| "collect_fields_from_condition (CIn f vs) acc = hs_insert f acc"
| "collect_fields_from_condition (CIsNull f) acc = hs_insert f acc"
| "collect_fields_from_condition (CIsNotNull f) acc = hs_insert f acc"
| "collect_fields_from_condition (CAnd cs) acc = fold collect_fields_from_condition cs acc"
| "collect_fields_from_condition (COr cs) acc = fold collect_fields_from_condition cs acc"

definition collect_fields :: "condition list \<Rightarrow> string list" where
  "collect_fields conditions = fold collect_fields_from_condition conditions []"

definition validate_filter ::
  "(string list \<Rightarrow> string) \<Rightarrow> sync_task_config \<Rightarrow> filter_config \<Rightarrow> validation_report \<Rightarrow> validation_report" where
  "validate_filter debug_set task flt report =
     (let report1 = (case fc_conditions flt of
          None \<Rightarrow> report
        | Some conditions \<Rightarrow> add_info (''Filter for table '' @ quoted (st_table task) @
            '' references fields: '' @ debug_set (collect_fields conditions)) report)
      in case fc_event_types flt of
           None \<Rightarrow> report1
         | Some event_types \<Rightarrow> warn_if (event_types = [])
             (''Empty event_types filter for table '' @ quoted (st_table task) @
              '' will filter out all events'') report1)"

definition validate_batch_config :: "sync_task_config \<Rightarrow> validation_report \<Rightarrow> validation_report" where
  "validate_batch_config task report =
     (let size = so_batch_size (st_options task); timeout = so_batch_timeout_ms (st_options task)
      in warn_if (timeout < 100)
           (''Very low batch_timeout_ms ('' @ show_nat (unat timeout) @ '') for table '' @
            quoted (st_table task) @ '' may cause excessive API calls'')
         (warn_if (size > 10000)
           (''Large batch_size ('' @ show_nat size @ '') for table '' @ quoted (st_table task) @
            '' may cause memory issues'')
         (error_if (size = 0)
           (''Invalid batch_size (0) for table '' @ quoted (st_table task) @
            ''. Must be greater than 0.'') report)))"

text \<open>One task; the state of the loop is the tables and indexes seen, the tables without a full
  sync, and the report.\<close>

definition validate_sync_task ::
  "(string list \<Rightarrow> string) \<Rightarrow> config \<Rightarrow> sync_task_config \<Rightarrow>
     string list \<times> string list \<times> string list \<times> validation_report \<Rightarrow>
     string list \<times> string list \<times> string list \<times> validation_report" where
  "validate_sync_task debug_set c task st =
     (let (seen_tables, seen_indexes, cdc_only, report) = st;
          r1 = error_if (st_table task \<in> set seen_tables)
            (''Duplicate sync task for table '' @ quoted (st_table task) @
             ''. Only one sync task per table is allowed.'') report;
          r2 = warn_if (st_index task \<in> set seen_indexes)
            (''Multiple tables syncing to the same index '' @ quoted (st_index task) @
             ''. This may cause conflicts.'') r1;
          cdc = \<not> from_yaml False (st_full_sync_on_start task);
          r3 = warn_if (cdc \<and> \<not> ms_auto_create_index (cf_meilisearch c))
            (''Table '' @ quoted (st_table task) @ '' is CDC-only but auto_create_index is disabled. The index '' @
             ''won'' @ [CHR 0x27] @ ''t be created until manually created in Meilisearch.'') r2;
          r4 = (case st_filter task of None \<Rightarrow> r3 | Some f \<Rightarrow> validate_filter debug_set task f r3)
      in (hs_insert (st_table task) seen_tables, hs_insert (st_index task) seen_indexes,
          (if cdc then cdc_only @ [st_table task] else cdc_only), validate_batch_config task r4))"

definition validate_sync_tasks :: "(string list \<Rightarrow> string) \<Rightarrow> config \<Rightarrow> validation_report \<Rightarrow> validation_report" where
  "validate_sync_tasks debug_set c report =
     (let (seen_tables, seen_indexes, cdc_only, r) =
            fold (validate_sync_task debug_set c) (cf_sync_tasks c) ([], [], [], report)
      in if cdc_only \<noteq> [] then add_info (''CDC-only tables (no initial full sync): '' @ join_with '', '' cdc_only) r
         else r)"

text \<open>The three checks of a PostgreSQL source, single (\<open>prefix\<close> is ''PostgreSQL'') or named.\<close>

definition validate_postgres :: "string \<Rightarrow> postgresql_config \<Rightarrow> validation_report \<Rightarrow> validation_report" where
  "validate_postgres prefix pg report =
     error_if (pl_min_idle (pg_pool pg) > pl_max_size (pg_pool pg))
       (prefix @ '' pool min_idle ('' @ show_nat (unat (pl_min_idle (pg_pool pg))) @
        '') cannot be greater than max_size ('' @ show_nat (unat (pl_max_size (pg_pool pg))) @ '')'')
     (error_if (pg_publication pg = []) (prefix @ '' publication name cannot be empty'')
     (error_if (pg_slot_name pg = []) (prefix @ '' slot_name cannot be empty'') report))"

definition validate_named_source :: "named_source_config \<Rightarrow> validation_report \<Rightarrow> validation_report" where
  "validate_named_source n report =
     (case ns_config n of
        PostgreSQLSource pg \<Rightarrow> validate_postgres (''PostgreSQL source '' @ quoted (ns_name n)) pg report
      | _ \<Rightarrow> add_warning (''Non-PostgreSQL source '' @ quoted (ns_name n) @ '' is not yet fully supported'') report)"

definition validate_source :: "config \<Rightarrow> validation_report \<Rightarrow> validation_report" where
  "validate_source c report =
     (let r1 = (case cf_source c of
          None \<Rightarrow> report
        | Some (PostgreSQLSource pg) \<Rightarrow> validate_postgres ''PostgreSQL'' pg report
        | Some _ \<Rightarrow> add_warning ''Non-PostgreSQL sources are not yet fully supported'' report);
          r2 = fold validate_named_source (cf_sources c) r1
      in error_if (cf_source c = None \<and> cf_sources c = [])
           (''At least one data source must be configured (use '' @ quoted ''source'' @ '' or '' @
            quoted ''sources'' @ '')'') r2)"

definition validate_destination :: "config \<Rightarrow> validation_report \<Rightarrow> validation_report" where
  "validate_destination c report =
     error_if (ms_timeout (cf_meilisearch c) = 0) ''Meilisearch timeout must be greater than 0''
     (warn_if (from_yaml False (map_option (\<lambda>k. k = []) (ms_api_key (cf_meilisearch c))))
       ''Meilisearch API key is empty - ensure Meilisearch allows anonymous access''
     (error_if (ms_url (cf_meilisearch c) = []) ''Meilisearch URL cannot be empty'' report))"

definition validate :: "(string list \<Rightarrow> string) \<Rightarrow> config \<Rightarrow> validation_report" where
  "validate debug_set c =
     validate_destination c (validate_source c (validate_sync_tasks debug_set c report_new))"

section \<open>The fields against the schema\<close>

definition no_such :: "string \<Rightarrow> string \<Rightarrow> string \<Rightarrow> string" where
  "no_such table what field =
     ''Table '' @ quoted table @ '': '' @ what @ '' '' @ quoted field"

definition check_field ::
  "string set \<Rightarrow> string \<Rightarrow> string \<Rightarrow> string \<Rightarrow> validation_report \<Rightarrow> validation_report" where
  "check_field column_set table what field report =
     error_if (field \<notin> column_set) (no_such table what field) report"

definition check_mapping ::
  "string set \<Rightarrow> string \<Rightarrow> string \<times> field_mapping \<Rightarrow> validation_report \<Rightarrow> validation_report" where
  "check_mapping column_set table m report =
     (let r1 = check_field column_set table ''Mapping references non-existent source field'' (fst m) report
      in case snd m of
           FmComplex x \<Rightarrow>
             (case xm_sources x of
                Some sources \<Rightarrow> fold (check_field column_set table
                  ''Complex mapping references non-existent source field'') sources r1
              | None \<Rightarrow> r1)
         | FmSimple _ \<Rightarrow> r1)"

definition check_transform ::
  "string set \<Rightarrow> string \<Rightarrow> field_transform \<Rightarrow> validation_report \<Rightarrow> validation_report" where
  "check_transform column_set table t report =
     (case t of
        FtRename from_field _ \<Rightarrow>
          check_field column_set table ''Transform references non-existent field'' from_field report
      | FtConvert field _ \<Rightarrow>
          check_field column_set table ''Transform references non-existent field'' field report
      | _ \<Rightarrow> report)"

definition check_task_fields ::
  "(string list \<Rightarrow> string) \<Rightarrow> (string list \<Rightarrow> string list) \<Rightarrow> sync_task_config \<Rightarrow> string list \<Rightarrow>
     validation_report \<Rightarrow> validation_report" where
  "check_task_fields debug_set hash_order task columns_found report =
     (let table = st_table task; columns = set columns_found;
          r1 = (case st_filter task of
              None \<Rightarrow> report
            | Some flt \<Rightarrow>
                (case fc_conditions flt of
                   None \<Rightarrow> report
                 | Some conditions \<Rightarrow>
                     fold (check_field columns table ''Filter references non-existent field'')
                       (hash_order (collect_fields conditions)) report));
          r2 = (case st_mapping task of
              None \<Rightarrow> r1
            | Some mapping \<Rightarrow>
                (case hm_get (mc_tables mapping) table of
                   None \<Rightarrow> r1
                 | Some tables \<Rightarrow>
                     (case tb_fields tables of
                        None \<Rightarrow> r1
                      | Some flds \<Rightarrow> fold (check_mapping columns table) flds r1)));
          r3 = (case st_transform task of
              None \<Rightarrow> r2
            | Some transform \<Rightarrow>
                (case hm_get (tc_fields transform) table of
                   None \<Rightarrow> r2
                 | Some table_transforms \<Rightarrow>
                     fold (check_transform columns table) (hm_values table_transforms) r2));
          r4 = (case st_soft_delete task of
              None \<Rightarrow> r3
            | Some soft_delete \<Rightarrow>
                check_field columns table ''Soft delete references non-existent field''
                  (sd_field soft_delete) r3)
      in add_info (''Table '' @ quoted table @ '' has '' @ show_nat (length (remdups columns_found)) @
           '' columns: '' @ debug_set (remdups columns_found)) r4)"

definition validate_fields_against_schema ::
  "(string list \<Rightarrow> string) \<Rightarrow> (string list \<Rightarrow> string list) \<Rightarrow> unit result \<Rightarrow>
     (string \<Rightarrow> string list result) \<Rightarrow> config \<Rightarrow> validation_report \<Rightarrow> validation_report" where
  "validate_fields_against_schema debug_set hash_order connect get_table_columns c report =
     (case cf_source c of
        Some (PostgreSQLSource pg) \<Rightarrow>
          (case connect of
             Inl e \<Rightarrow> add_warning (''Cannot validate fields against schema: '' @ error_to_string e) report
           | Inr _ \<Rightarrow>
               fold (\<lambda>task r.
                 case get_table_columns (st_table task) of
                   Inr columns_found \<Rightarrow> check_task_fields debug_set hash_order task columns_found r
                 | Inl e \<Rightarrow> add_warning (''Cannot validate fields for table '' @ quoted (st_table task) @
                     '': '' @ error_to_string e) r)
               (cf_sync_tasks c) report)
      | _ \<Rightarrow> report)"

text \<open>The \<open>validate\<close> command of \<open>main.rs\<close>.\<close>

definition validate_config ::
  "(string list \<Rightarrow> string) \<Rightarrow> (string list \<Rightarrow> string list) \<Rightarrow> unit result \<Rightarrow>
     (string \<Rightarrow> string list result) \<Rightarrow> config \<Rightarrow> unit result" where
  "validate_config debug_set hash_order connect get_table_columns c =
     (let report = validate_fields_against_schema debug_set hash_order connect get_table_columns c
            (validate debug_set c)
      in if \<not> is_valid report
         then Inl (Validation ''Configuration validation failed. See errors above.'')
         else Inr ())"

section \<open>What the checks accept\<close>

definition pool_ok :: "pool_config \<Rightarrow> bool" where
  "pool_ok p \<longleftrightarrow> 0 < pl_max_size p \<and> pl_min_idle p \<le> pl_max_size p"

definition sources_of :: "config \<Rightarrow> source_config list" where
  "sources_of c = (case cf_source c of None \<Rightarrow> [] | Some s \<Rightarrow> [s]) @ map ns_config (cf_sources c)"

lemma pool_errors_empty [simp]: "pool_errors p pool = [] \<longleftrightarrow> pool_ok pool"
  by (auto simp: pool_errors_def pool_ok_def word_neq_0_conv)

lemma source_errors_empty: "source_errors s = [] \<longleftrightarrow> (\<forall>pg. s = Some (PostgreSQLSource pg) \<longrightarrow> pool_ok (pg_pool pg))"
  by (auto simp: source_errors_def split: option.splits source_config.splits)

lemma named_source_errors_empty:
  "named_source_errors n = [] \<longleftrightarrow> (\<forall>pg. ns_config n = PostgreSQLSource pg \<longrightarrow> pool_ok (pg_pool pg))"
  by (auto simp: named_source_errors_def split: source_config.splits)

lemma task_errors_empty:
  "task_errors i t = [] \<longleftrightarrow> st_table t \<noteq> [] \<and> st_index t \<noteq> [] \<and> 0 < so_batch_size (st_options t)"
  by (auto simp: task_errors_def)

lemma enumerate_all: "(\<forall>(i, t) \<in> set (enumerate n ts). P t) \<longleftrightarrow> (\<forall>t \<in> set ts. P t)"
  by (induction ts arbitrary: n) auto

text \<open>What a configuration must have to be loaded.\<close>

definition loadable :: "config \<Rightarrow> bool" where
  "loadable c \<longleftrightarrow>
     (\<forall>pg. PostgreSQLSource pg \<in> set (sources_of c) \<longrightarrow> pool_ok (pg_pool pg)) \<and>
     cf_sync_tasks c \<noteq> [] \<and>
     (\<forall>t \<in> set (cf_sync_tasks c). st_table t \<noteq> [] \<and> st_index t \<noteq> [] \<and> 0 < so_batch_size (st_options t)) \<and>
     ms_url (cf_meilisearch c) \<noteq> [] \<and> rc_url (cf_redis c) \<noteq> [] \<and> ap_port (cf_api c) \<noteq> 0"

text \<open>
  C31. The loader accepts a configuration exactly when every PostgreSQL pool, of the single
  source and of every named one, has room for at least one connection and for its idle ones,
  there is a task, every task has a table, an index and a batch size, and the URLs and the port
  are given. Otherwise it is a validation error that lists everything wrong.
\<close>

theorem loader_validate_accepts_iff:
  "loader_validate c =
     (if loadable c
      then Inr () else Inl (Validation (join_with '', '' (loader_errors c))))"
proof -
  have tasks: "(\<forall>(i, t) \<in> set (enumerate 0 ts). task_errors i t = []) \<longleftrightarrow>
      (\<forall>t \<in> set ts. st_table t \<noteq> [] \<and> st_index t \<noteq> [] \<and> 0 < so_batch_size (st_options t))" for ts
    unfolding task_errors_empty by (rule enumerate_all)
  have sources: "source_errors (cf_source c) = [] \<and> (\<forall>n \<in> set (cf_sources c). named_source_errors n = []) \<longleftrightarrow>
      (\<forall>pg. PostgreSQLSource pg \<in> set (sources_of c) \<longrightarrow> pool_ok (pg_pool pg))"
    unfolding source_errors_empty named_source_errors_empty sources_of_def
    by (cases "cf_source c") (auto simp: image_iff eq_commute)
  have "loader_errors c = [] \<longleftrightarrow>
      (\<forall>pg. PostgreSQLSource pg \<in> set (sources_of c) \<longrightarrow> pool_ok (pg_pool pg)) \<and>
      cf_sync_tasks c \<noteq> [] \<and>
      (\<forall>t \<in> set (cf_sync_tasks c). st_table t \<noteq> [] \<and> st_index t \<noteq> [] \<and>
         0 < so_batch_size (st_options t)) \<and>
      ms_url (cf_meilisearch c) \<noteq> [] \<and> rc_url (cf_redis c) \<noteq> [] \<and> ap_port (cf_api c) \<noteq> 0"
    unfolding sources [symmetric] tasks [symmetric] loader_errors_def by auto
  then show ?thesis unfolding loader_validate_def loadable_def by auto
qed

text \<open>
  The minimal configuration of the README: a source without a pool section, a task without
  options, and nothing else that has a default.
\<close>

definition readme_task :: "string \<Rightarrow> sync_options_section option \<Rightarrow> sync_task_config" where
  "readme_task uuid options = \<lparr>st_id = uuid, st_source_name = ''primary'', st_table = ''users'',
     st_index = ''users'', st_primary_key = ''id'', st_filter = None, st_transform = None,
     st_mapping = None, st_full_sync_on_start = Some True, st_options = options_of_section options,
     st_auto_start = Some True, st_soft_delete = None\<rparr>"

definition readme_source :: "string \<Rightarrow> pool_section option \<Rightarrow> postgresql_config" where
  "readme_source password pool =
     \<lparr>pg_connection = Parameters \<lparr>cp_host = ''localhost'', cp_port = 5432, cp_database = ''myapp'',
        cp_username = ''postgres'', cp_password = password\<rparr>,
      pg_slot_name = default_slot_name, pg_publication = default_publication,
      pg_pool = pool_of_section pool, pg_ssl = ssl_config_default,
      pg_statement_cache = statement_cache_config_default\<rparr>"

definition readme_config ::
  "string \<Rightarrow> string \<Rightarrow> string option \<Rightarrow> pool_section option \<Rightarrow> sync_options_section option \<Rightarrow> config" where
  "readme_config uuid password key pool options =
     \<lparr>cf_app = app_config_default, cf_source = Some (PostgreSQLSource (readme_source password pool)),
      cf_sources = [], cf_meilisearch = meilisearch_minimal ''http://localhost:7700'' key,
      cf_sync_tasks = [readme_task uuid options], cf_redis = redis_minimal ''redis://localhost:6379'',
      cf_api = api_config_default, cf_logging = logging_config_default,
      cf_monitoring = monitoring_config_default, cf_error_handling = error_handling_default,
      cf_plugins = plugin_config_default, cf_features = feature_flags_default,
      cf_performance = performance_config_default,
      cf_at_least_once_delivery = delivery_settings_default\<rparr>"


section \<open>What the validator accepts\<close>

lemma validate_filter_errors [simp]: "vr_errors (validate_filter ds t f r) = vr_errors r"
  by (simp add: validate_filter_def Let_def split: option.splits)

lemma validate_batch_errors [simp]:
  "vr_errors (validate_batch_config t r) = [] \<longleftrightarrow> vr_errors r = [] \<and> 0 < so_batch_size (st_options t)"
  by (auto simp: validate_batch_config_def Let_def)

lemma validate_sync_task_report:
  "validate_sync_task ds c t (seen, ix, cdc, r) = (seen', ix', cdc', r') \<Longrightarrow>
   set seen' = insert (st_table t) (set seen) \<and>
   (vr_errors r' = [] \<longleftrightarrow> vr_errors r = [] \<and> st_table t \<notin> set seen \<and> 0 < so_batch_size (st_options t))"
  by (auto simp: validate_sync_task_def Let_def split: option.splits)

lemma validate_tasks_report:
  "fold (validate_sync_task ds c) ts (seen, ix, cdc, r) = (seen', ix', cdc', r') \<Longrightarrow>
   vr_errors r' = [] \<longleftrightarrow> vr_errors r = [] \<and> distinct (map st_table ts) \<and>
     st_table ` set ts \<inter> set seen = {} \<and> (\<forall>t \<in> set ts. 0 < so_batch_size (st_options t))"
proof (induction ts arbitrary: seen ix cdc r)
  case Nil
  then show ?case by simp
next
  case (Cons t ts)
  obtain seen1 ix1 cdc1 r1 where step: "validate_sync_task ds c t (seen, ix, cdc, r) = (seen1, ix1, cdc1, r1)"
    by (metis surj_pair)
  from Cons.IH [of seen1 ix1 cdc1 r1] Cons.prems step validate_sync_task_report [OF step]
  show ?case by auto
qed

lemma validate_sync_tasks_errors:
  "vr_errors (validate_sync_tasks ds c r) = [] \<longleftrightarrow> vr_errors r = [] \<and>
     distinct (map st_table (cf_sync_tasks c)) \<and>
     (\<forall>t \<in> set (cf_sync_tasks c). 0 < so_batch_size (st_options t))"
proof -
  obtain seen ix cdc r' where run: "fold (validate_sync_task ds c) (cf_sync_tasks c) ([], [], [], r) = (seen, ix, cdc, r')"
    by (metis surj_pair)
  from validate_tasks_report [OF run] show ?thesis
    by (simp add: validate_sync_tasks_def run)
qed

definition postgres_ok :: "postgresql_config \<Rightarrow> bool" where
  "postgres_ok pg \<longleftrightarrow> pg_slot_name pg \<noteq> [] \<and> pg_publication pg \<noteq> [] \<and>
     pl_min_idle (pg_pool pg) \<le> pl_max_size (pg_pool pg)"

lemma validate_postgres_errors [simp]:
  "vr_errors (validate_postgres p pg r) = [] \<longleftrightarrow> vr_errors r = [] \<and> postgres_ok pg"
  by (auto simp: validate_postgres_def postgres_ok_def)

lemma validate_named_errors [simp]:
  "vr_errors (validate_named_source n r) = [] \<longleftrightarrow> vr_errors r = [] \<and>
     (\<forall>pg. ns_config n = PostgreSQLSource pg \<longrightarrow> postgres_ok pg)"
  by (auto simp: validate_named_source_def split: source_config.splits)

lemma validate_all_named_errors [simp]:
  "vr_errors (fold validate_named_source ns r) = [] \<longleftrightarrow> vr_errors r = [] \<and>
     (\<forall>n \<in> set ns. \<forall>pg. ns_config n = PostgreSQLSource pg \<longrightarrow> postgres_ok pg)"
  by (induction ns arbitrary: r) auto

lemma validate_source_errors:
  "vr_errors (validate_source c r) = [] \<longleftrightarrow> vr_errors r = [] \<and> sources_of c \<noteq> [] \<and>
     (\<forall>pg. PostgreSQLSource pg \<in> set (sources_of c) \<longrightarrow> postgres_ok pg)"
proof -
  have "(\<forall>n \<in> set ns. \<forall>pg. ns_config n = PostgreSQLSource pg \<longrightarrow> postgres_ok pg) \<longleftrightarrow>
      (\<forall>pg. PostgreSQLSource pg \<in> ns_config ` set ns \<longrightarrow> postgres_ok pg)" for ns
    by (auto simp: image_iff eq_commute)
  then show ?thesis
    by (auto simp: validate_source_def Let_def sources_of_def split: option.splits source_config.splits)
qed

lemma validate_destination_errors:
  "vr_errors (validate_destination c r) = [] \<longleftrightarrow> vr_errors r = [] \<and>
     ms_url (cf_meilisearch c) \<noteq> [] \<and> ms_timeout (cf_meilisearch c) \<noteq> 0"
  by (auto simp: validate_destination_def)

text \<open>The fields a condition and a task refer to.\<close>

fun condition_fields :: "condition \<Rightarrow> string set" where
  "condition_fields (CEquals f v) = {f}"
| "condition_fields (CNotEquals f v) = {f}"
| "condition_fields (CContains f v) = {f}"
| "condition_fields (CGreaterThan f v) = {f}"
| "condition_fields (CLessThan f v) = {f}"
| "condition_fields (CIn f vs) = {f}"
| "condition_fields (CIsNull f) = {f}"
| "condition_fields (CIsNotNull f) = {f}"
| "condition_fields (CAnd cs) = (\<Union>c \<in> set cs. condition_fields c)"
| "condition_fields (COr cs) = (\<Union>c \<in> set cs. condition_fields c)"

fun mapping_fields :: "string \<times> field_mapping \<Rightarrow> string set" where
  "mapping_fields (f, FmSimple g) = {f}"
| "mapping_fields (f, FmComplex x) =
     insert f (case xm_sources x of None \<Rightarrow> {} | Some ss \<Rightarrow> set ss)"

fun transform_fields_used :: "field_transform \<Rightarrow> string set" where
  "transform_fields_used (FtRename f g) = {f}"
| "transform_fields_used (FtConvert f k) = {f}"
| "transform_fields_used t = {}"

definition task_fields :: "sync_task_config \<Rightarrow> string set" where
  "task_fields t =
     (case st_filter t of None \<Rightarrow> {} | Some f \<Rightarrow>
        (case fc_conditions f of None \<Rightarrow> {} | Some cs \<Rightarrow> \<Union>c \<in> set cs. condition_fields c)) \<union>
     (case st_mapping t of None \<Rightarrow> {} | Some m \<Rightarrow>
        (case hm_get (mc_tables m) (st_table t) of None \<Rightarrow> {} | Some tb \<Rightarrow>
           (case tb_fields tb of None \<Rightarrow> {} | Some fs \<Rightarrow> \<Union>p \<in> set fs. mapping_fields p))) \<union>
     (case st_transform t of None \<Rightarrow> {} | Some x \<Rightarrow>
        (case hm_get (tc_fields x) (st_table t) of None \<Rightarrow> {} | Some fts \<Rightarrow>
           \<Union>ft \<in> set (hm_values fts). transform_fields_used ft)) \<union>
     (case st_soft_delete t of None \<Rightarrow> {} | Some s \<Rightarrow> {sd_field s})"

lemma set_collect_condition: "set (collect_fields_from_condition c acc) = condition_fields c \<union> set acc"
proof (induction c acc rule: collect_fields_from_condition.induct)
  case (9 cs acc)
  have "set (fold collect_fields_from_condition ds a) = (\<Union>c \<in> set ds. condition_fields c) \<union> set a"
    if "set ds \<subseteq> set cs" for ds a
    using that by (induction ds arbitrary: a) (auto simp: 9)
  then show ?case by simp
next
  case (10 cs acc)
  have "set (fold collect_fields_from_condition ds a) = (\<Union>c \<in> set ds. condition_fields c) \<union> set a"
    if "set ds \<subseteq> set cs" for ds a
    using that by (induction ds arbitrary: a) (auto simp: 10)
  then show ?case by simp
qed simp_all

lemma set_collect_fields: "set (collect_fields cs) = (\<Union>c \<in> set cs. condition_fields c)"
proof -
  have "set (fold collect_fields_from_condition cs a) = (\<Union>c \<in> set cs. condition_fields c) \<union> set a" for a
    by (induction cs arbitrary: a) (auto simp: set_collect_condition)
  then show ?thesis by (simp add: collect_fields_def)
qed

lemma check_field_errors [simp]:
  "vr_errors (check_field cols t w f r) = [] \<longleftrightarrow> vr_errors r = [] \<and> f \<in> cols"
  by (auto simp: check_field_def)

lemma check_fields_errors [simp]:
  "vr_errors (fold (check_field cols t w) fs r) = [] \<longleftrightarrow> vr_errors r = [] \<and> set fs \<subseteq> cols"
  by (induction fs arbitrary: r) auto

lemma check_mapping_errors [simp]:
  "vr_errors (check_mapping cols t m r) = [] \<longleftrightarrow> vr_errors r = [] \<and> mapping_fields m \<subseteq> cols"
  by (cases m rule: mapping_fields.cases) (auto simp: check_mapping_def Let_def split: option.splits)

lemma check_mappings_errors [simp]:
  "vr_errors (fold (check_mapping cols t) ms r) = [] \<longleftrightarrow>
     vr_errors r = [] \<and> (\<Union>p \<in> set ms. mapping_fields p) \<subseteq> cols"
  by (induction ms arbitrary: r) auto

lemma check_transform_errors [simp]:
  "vr_errors (check_transform cols t ft r) = [] \<longleftrightarrow> vr_errors r = [] \<and> transform_fields_used ft \<subseteq> cols"
  by (auto simp: check_transform_def split: field_transform.splits)

lemma check_transforms_errors [simp]:
  "vr_errors (fold (check_transform cols t) fts r) = [] \<longleftrightarrow>
     vr_errors r = [] \<and> (\<Union>p \<in> set fts. transform_fields_used p) \<subseteq> cols"
  by (induction fts arbitrary: r) auto

lemma check_task_errors:
  assumes "\<forall>xs. set (hash_order xs) = set xs"
  shows "vr_errors (check_task_fields ds hash_order t cols r) = [] \<longleftrightarrow>
     vr_errors r = [] \<and> task_fields t \<subseteq> set cols"
  using assms
  by (auto simp: check_task_fields_def Let_def task_fields_def set_collect_fields split: option.splits)

text \<open>What makes a configuration valid before the database is asked.\<close>

definition config_ok :: "config \<Rightarrow> bool" where
  "config_ok c \<longleftrightarrow>
     distinct (map st_table (cf_sync_tasks c)) \<and>
     (\<forall>t \<in> set (cf_sync_tasks c). 0 < so_batch_size (st_options t)) \<and>
     sources_of c \<noteq> [] \<and> (\<forall>pg. PostgreSQLSource pg \<in> set (sources_of c) \<longrightarrow> postgres_ok pg) \<and>
     ms_url (cf_meilisearch c) \<noteq> [] \<and> ms_timeout (cf_meilisearch c) \<noteq> 0"

lemma validate_errors: "vr_errors (validate ds c) = [] \<longleftrightarrow> config_ok c"
  by (auto simp: validate_def validate_destination_errors validate_source_errors
      validate_sync_tasks_errors config_ok_def report_new_def)

lemma schema_errors:
  assumes "\<forall>xs. set (hash_order xs) = set xs"
  shows "vr_errors (validate_fields_against_schema ds hash_order connect get_columns c r) = [] \<longleftrightarrow>
    vr_errors r = [] \<and>
    ((\<exists>pg. cf_source c = Some (PostgreSQLSource pg)) \<and> connect = Inr () \<longrightarrow>
     (\<forall>t \<in> set (cf_sync_tasks c). \<forall>cols. get_columns (st_table t) = Inr cols \<longrightarrow> task_fields t \<subseteq> set cols))"
proof -
  have "vr_errors (fold (\<lambda>task r.
        case get_columns (st_table task) of
          Inr columns_found \<Rightarrow> check_task_fields ds hash_order task columns_found r
        | Inl e \<Rightarrow> add_warning (''Cannot validate fields for table '' @ quoted (st_table task) @
            '': '' @ error_to_string e) r) ts r) = [] \<longleftrightarrow>
      vr_errors r = [] \<and> (\<forall>t \<in> set ts. \<forall>cols. get_columns (st_table t) = Inr cols \<longrightarrow> task_fields t \<subseteq> set cols)"
    for ts r
    by (induction ts arbitrary: r) (auto simp: check_task_errors [OF assms] split: sum.splits)
  then show ?thesis
    by (auto simp: validate_fields_against_schema_def split: option.splits source_config.splits sum.splits)
qed



end
