(* ===== verification/Client.thy ===== *)
theory Client
  imports Settings
begin

text \<open>
  The protected Meilisearch client: \<open>src/destination/circuit_breaker.rs\<close>,
  \<open>src/destination/meilisearch/client.rs\<close> and \<open>protected_client.rs\<close>. The SDK, the server behind
  it and the \<open>circuit_breaker\<close> crate are an environment: functions on a state \<open>'w\<close> that
  holds whatever they keep. The calls of one task are sequential.
\<close>

section \<open>The environment\<close>

text \<open>An error of the SDK by its \<open>Debug\<close> and \<open>Display\<close> texts; a finished task likewise.\<close>

record sdk_error =
  se_debug :: string
  se_display :: string

record task_info =
  ti_success :: bool
  ti_debug :: string

type_synonym 'a sdk_result = "sdk_error + 'a"

datatype external_state = ExtClosed | ExtOpen | ExtHalfOpen

record meili_breaker =
  mb_name :: string
  mb_failure_threshold :: u32
  mb_reset_timeout :: duration

text \<open>An index is the name it was found under; a task is its number.\<close>

record 'w environment =
  en_health :: "'w \<Rightarrow> string sdk_result \<times> 'w"
  en_version :: "'w \<Rightarrow> string sdk_result \<times> 'w"
  en_get_index :: "string \<Rightarrow> 'w \<Rightarrow> string sdk_result \<times> 'w"
  en_create_index :: "string \<Rightarrow> string option \<Rightarrow> 'w \<Rightarrow> nat sdk_result \<times> 'w"
  en_delete_index :: "string \<Rightarrow> 'w \<Rightarrow> nat sdk_result \<times> 'w"
  en_add_documents :: "string \<Rightarrow> json list \<Rightarrow> string option \<Rightarrow> 'w \<Rightarrow> nat sdk_result \<times> 'w"
  en_delete_documents :: "string \<Rightarrow> string list \<Rightarrow> 'w \<Rightarrow> nat sdk_result \<times> 'w"
  en_wait_for_task :: "nat \<Rightarrow> 'w \<Rightarrow> task_info sdk_result \<times> 'w"
  en_breaker_state :: "meili_breaker \<Rightarrow> 'w \<Rightarrow> external_state \<times> 'w"
  en_breaker_success :: "meili_breaker \<Rightarrow> 'w \<Rightarrow> 'w"
  en_breaker_failure :: "meili_breaker \<Rightarrow> 'w \<Rightarrow> 'w"

definition convert_error :: "sdk_error \<Rightarrow> error" where
  "convert_error e = Meilisearch (se_debug e)"

definition sdk_map_err :: "'a sdk_result \<times> 'w \<Rightarrow> 'a result \<times> 'w" where
  "sdk_map_err r = (case r of (Inl e, w) \<Rightarrow> (Inl (convert_error e), w) | (Inr x, w) \<Rightarrow> (Inr x, w))"

section \<open>The circuit breaker around it\<close>

datatype meili_circuit_state = MeiliClosed | MeiliOpen | MeiliHalfOpen

datatype 'e call_error = CircuitOpen | OperationError 'e

definition meili_breaker_new :: "string \<Rightarrow> meili_breaker" where
  "meili_breaker_new name = \<lparr>mb_name = name, mb_failure_threshold = 5, mb_reset_timeout = secs 60\<rparr>"

definition breaker_call ::
  "'w environment \<Rightarrow> meili_breaker \<Rightarrow> ('w \<Rightarrow> ('e + 't) \<times> 'w) \<Rightarrow> 'w \<Rightarrow> ('e call_error + 't) \<times> 'w" where
  "breaker_call en cb op w =
     (case en_breaker_state en cb w of
        (ExtOpen, w1) \<Rightarrow> (Inl CircuitOpen, w1)
      | (_, w1) \<Rightarrow>
          (case op w1 of
             (Inr x, w2) \<Rightarrow> (Inr x, en_breaker_success en cb w2)
           | (Inl e, w2) \<Rightarrow> (Inl (OperationError e), en_breaker_failure en cb w2)))"

fun breaker_state_of :: "external_state \<Rightarrow> meili_circuit_state" where
  "breaker_state_of ExtClosed = MeiliClosed"
| "breaker_state_of ExtOpen = MeiliOpen"
| "breaker_state_of ExtHalfOpen = MeiliHalfOpen"

definition meili_get_state :: "'w environment \<Rightarrow> meili_breaker \<Rightarrow> 'w \<Rightarrow> meili_circuit_state \<times> 'w" where
  "meili_get_state en cb w = (case en_breaker_state en cb w of (s, w1) \<Rightarrow> (breaker_state_of s, w1))"

definition meili_get_stats :: "'w environment \<Rightarrow> meili_breaker \<Rightarrow> 'w \<Rightarrow> (meili_circuit_state \<times> string) \<times> 'w" where
  "meili_get_stats en cb w =
     (case en_breaker_state en cb w of (s, w1) \<Rightarrow> ((breaker_state_of s, mb_name cb), w1))"

text \<open>The builder: the error rate and the request count are ignored, the count is cast to 32 bits.\<close>

definition builder_error_rate :: "f64 \<Rightarrow> meili_breaker \<Rightarrow> meili_breaker" where
  "builder_error_rate rate b = b"

definition builder_min_request_count :: "u64 \<Rightarrow> meili_breaker \<Rightarrow> meili_breaker" where
  "builder_min_request_count count b = b"

definition builder_consecutive_failures :: "u64 \<Rightarrow> meili_breaker \<Rightarrow> meili_breaker" where
  "builder_consecutive_failures count b = b\<lparr>mb_failure_threshold := ucast count\<rparr>"

definition builder_timeout :: "duration \<Rightarrow> meili_breaker \<Rightarrow> meili_breaker" where
  "builder_timeout t b = b\<lparr>mb_reset_timeout := t\<rparr>"

section \<open>The protected client\<close>

type_synonym protected_client = "meili_breaker option"

definition protected_client_new :: "meilisearch_config \<Rightarrow> (sdk_error + unit) \<Rightarrow> protected_client result" where
  "protected_client_new config created =
     (case created of
        Inl e \<Rightarrow> Inl (convert_error e)
      | Inr _ \<Rightarrow> Inr
          (let cb = ms_circuit_breaker config in
           if cb_enabled cb
           then Some (builder_timeout (secs (unat (cb_timeout_secs cb)))
             (builder_consecutive_failures (cb_consecutive_failures cb)
             (builder_min_request_count (cb_min_request_count cb)
             (builder_error_rate (cb_error_rate cb) (meili_breaker_new ''meilisearch'')))))
           else None))"

text \<open>The \<open>match\<close> that every operation makes of the outcome of a protected call.\<close>

definition protect ::
  "'w environment \<Rightarrow> protected_client \<Rightarrow> string \<Rightarrow> ('w \<Rightarrow> 'a result \<times> 'w) \<Rightarrow> 'w \<Rightarrow> 'a result \<times> 'w" where
  "protect en pc what op w =
     (case pc of
        None \<Rightarrow> op w
      | Some cb \<Rightarrow>
          (case breaker_call en cb op w of
             (Inr x, w1) \<Rightarrow> (Inr x, w1)
           | (Inl CircuitOpen, w1) \<Rightarrow> (Inl (Meilisearch (''Circuit breaker is open, cannot '' @ what)), w1)
           | (Inl (OperationError e), w1) \<Rightarrow> (Inl e, w1)))"

definition inner_test_connection :: "'w environment \<Rightarrow> 'w \<Rightarrow> unit result \<times> 'w" where
  "inner_test_connection en w =
     (case en_health en w of
        (Inr h, w1) \<Rightarrow> (Inr (), w1)
      | (Inl e, w1) \<Rightarrow> (Inl (Meilisearch (''Failed to connect to Meilisearch: '' @ se_display e)), w1))"

definition pc_test_connection :: "'w environment \<Rightarrow> protected_client \<Rightarrow> 'w \<Rightarrow> unit result \<times> 'w" where
  "pc_test_connection en pc = protect en pc ''test connection'' (inner_test_connection en)"

definition inner_get_version :: "'w environment \<Rightarrow> 'w \<Rightarrow> string result \<times> 'w" where
  "inner_get_version en w = sdk_map_err (en_version en w)"

definition pc_get_version :: "'w environment \<Rightarrow> protected_client \<Rightarrow> 'w \<Rightarrow> string result \<times> 'w" where
  "pc_get_version en pc = protect en pc ''get version'' (inner_get_version en)"

text \<open>Send a request, wait for its task, and make its failure an error.\<close>

definition await_task ::
  "'w environment \<Rightarrow> string \<Rightarrow> ('w \<Rightarrow> nat sdk_result \<times> 'w) \<Rightarrow> 'w \<Rightarrow> unit result \<times> 'w" where
  "await_task en what request w =
     (case request w of
        (Inl e, w1) \<Rightarrow> (Inl (convert_error e), w1)
      | (Inr task, w1) \<Rightarrow>
          (case en_wait_for_task en task w1 of
             (Inl e, w2) \<Rightarrow> (Inl (convert_error e), w2)
           | (Inr info, w2) \<Rightarrow>
               if ti_success info then (Inr (), w2) else (Inl (Meilisearch (what @ '': '' @ ti_debug info)), w2)))"

text \<open>Any failure to get the index is taken for its absence.\<close>

definition inner_get_or_create_index ::
  "'w environment \<Rightarrow> string \<Rightarrow> string option \<Rightarrow> 'w \<Rightarrow> string result \<times> 'w" where
  "inner_get_or_create_index en name pk w =
     (case en_get_index en name w of
        (Inr index, w1) \<Rightarrow> (Inr index, w1)
      | (Inl _, w1) \<Rightarrow>
          (case await_task en ''Failed to create index'' (en_create_index en name pk) w1 of
             (Inl e, w2) \<Rightarrow> (Inl e, w2)
           | (Inr _, w2) \<Rightarrow> sdk_map_err (en_get_index en name w2)))"

definition pc_get_or_create_index ::
  "'w environment \<Rightarrow> protected_client \<Rightarrow> string \<Rightarrow> string option \<Rightarrow> 'w \<Rightarrow> string result \<times> 'w" where
  "pc_get_or_create_index en pc name pk =
     protect en pc ''access index'' (inner_get_or_create_index en name pk)"

definition pc_add_documents ::
  "'w environment \<Rightarrow> protected_client \<Rightarrow> string \<Rightarrow> json list \<Rightarrow> string option \<Rightarrow> 'w \<Rightarrow> unit result \<times> 'w" where
  "pc_add_documents en pc index documents pk =
     protect en pc ''add documents''
       (await_task en ''Add documents failed'' (en_add_documents en index documents pk))"

definition pc_delete_documents ::
  "'w environment \<Rightarrow> protected_client \<Rightarrow> string \<Rightarrow> string list \<Rightarrow> 'w \<Rightarrow> unit result \<times> 'w" where
  "pc_delete_documents en pc index ids =
     protect en pc ''delete documents''
       (await_task en ''Delete documents failed'' (en_delete_documents en index ids))"

text \<open>The health check never fails, inside the breaker or outside.\<close>

definition inner_health_check :: "'w environment \<Rightarrow> 'w \<Rightarrow> bool result \<times> 'w" where
  "inner_health_check en w =
     (case en_health en w of
        (Inr status, w1) \<Rightarrow> (Inr (status = ''available''), w1)
      | (Inl _, w1) \<Rightarrow> (Inr False, w1))"

definition pc_health_check :: "'w environment \<Rightarrow> protected_client \<Rightarrow> 'w \<Rightarrow> bool result \<times> 'w" where
  "pc_health_check en pc w =
     (case pc of
        None \<Rightarrow> inner_health_check en w
      | Some cb \<Rightarrow>
          (case breaker_call en cb (inner_health_check en) w of
             (Inr is_healthy, w1) \<Rightarrow> (Inr is_healthy, w1)
           | (Inl _, w1) \<Rightarrow> (Inr False, w1)))"

section \<open>Properties\<close>

lemma protect_open:
  "en_breaker_state en cb w = (ExtOpen, w1) \<Longrightarrow>
   protect en (Some cb) what op w = (Inl (Meilisearch (''Circuit breaker is open, cannot '' @ what)), w1)"
  by (simp add: protect_def breaker_call_def)

lemma protect_result:
  assumes "en_breaker_state en cb w = (s, w1)" and "s \<noteq> ExtOpen"
  shows "protect en (Some cb) what op w =
    (case op w1 of (Inr x, w2) \<Rightarrow> (Inr x, en_breaker_success en cb w2)
     | (Inl e, w2) \<Rightarrow> (Inl e, en_breaker_failure en cb w2))"
  using assms by (cases s) (auto simp: protect_def breaker_call_def split: prod.splits sum.splits)

text \<open>
  C29. The breaker of the destination never sees a failed health check: while it lets calls
  through, a health check reports success to it whatever the server answered, an error or an
  unhealthy status included, and so resets the count of consecutive failures or closes a
  half-open circuit. A failed write is reported as a failure, and once the circuit is open no
  operation contacts the server.
\<close>

theorem health_check_counts_as_success:
  "(s \<noteq> ExtOpen \<longrightarrow> en_breaker_state en cb w = (s, w1) \<longrightarrow>
      (\<exists>b. pc_health_check en (Some cb) w =
        (Inr b, en_breaker_success en cb (snd (en_health en w1))) \<and>
        (b \<longleftrightarrow> fst (en_health en w1) = Inr ''available''))) \<and>
   (s \<noteq> ExtOpen \<longrightarrow> en_breaker_state en cb w = (s, w1) \<longrightarrow>
      (\<forall>e w2. en_add_documents en i ds pk w1 = (Inl e, w2) \<longrightarrow>
        pc_add_documents en (Some cb) i ds pk w = (Inl (convert_error e), en_breaker_failure en cb w2))) \<and>
   (en_breaker_state en cb w = (ExtOpen, w1) \<longrightarrow>
      pc_health_check en (Some cb) w = (Inr False, w1) \<and>
      pc_add_documents en (Some cb) i ds pk w =
        (Inl (Meilisearch ''Circuit breaker is open, cannot add documents''), w1) \<and>
      pc_delete_documents en (Some cb) i ids w =
        (Inl (Meilisearch ''Circuit breaker is open, cannot delete documents''), w1) \<and>
      pc_get_or_create_index en (Some cb) i pk w =
        (Inl (Meilisearch ''Circuit breaker is open, cannot access index''), w1))"
proof (intro conjI impI)
  assume "s \<noteq> ExtOpen" "en_breaker_state en cb w = (s, w1)"
  then show "\<exists>b. pc_health_check en (Some cb) w =
        (Inr b, en_breaker_success en cb (snd (en_health en w1))) \<and>
        (b \<longleftrightarrow> fst (en_health en w1) = Inr ''available'')"
    by (cases s) (auto simp: pc_health_check_def breaker_call_def inner_health_check_def
        split: prod.splits sum.splits)
next
  assume "s \<noteq> ExtOpen" "en_breaker_state en cb w = (s, w1)"
  then show "\<forall>e w2. en_add_documents en i ds pk w1 = (Inl e, w2) \<longrightarrow>
        pc_add_documents en (Some cb) i ds pk w = (Inl (convert_error e), en_breaker_failure en cb w2)"
    by (simp add: pc_add_documents_def protect_result await_task_def)
qed (simp_all add: pc_health_check_def breaker_call_def pc_add_documents_def pc_delete_documents_def
    pc_get_or_create_index_def protect_open)

text \<open>A server that is up or down and logs what it is sent, behind a breaker that counts failures.\<close>

datatype request =
    ReqCreate string "string option"
  | ReqRemove string
  | ReqAdd string "json list" "string option"
  | ReqDelete string "string list"

record demo_world =
  dw_up :: bool
  dw_failures :: nat
  dw_log :: "request list"

definition demo_unreachable :: sdk_error where
  "demo_unreachable = \<lparr>se_debug = ''Unreachable'', se_display = ''unreachable''\<rparr>"

definition demo_answer :: "'a \<Rightarrow> demo_world \<Rightarrow> 'a sdk_result \<times> demo_world" where
  "demo_answer x w = (if dw_up w then (Inr x, w) else (Inl demo_unreachable, w))"

definition demo_request :: "request \<Rightarrow> demo_world \<Rightarrow> nat sdk_result \<times> demo_world" where
  "demo_request r w =
     (if dw_up w then (Inr 0, w\<lparr>dw_log := dw_log w @ [r]\<rparr>) else (Inl demo_unreachable, w))"

definition demo_environment :: "demo_world environment" where
  "demo_environment =
     \<lparr>en_health = demo_answer ''available'', en_version = demo_answer ''1.0'',
      en_get_index = demo_answer, en_create_index = (\<lambda>i pk. demo_request (ReqCreate i pk)),
      en_delete_index = (\<lambda>i. demo_request (ReqRemove i)),
      en_add_documents = (\<lambda>i ds pk. demo_request (ReqAdd i ds pk)),
      en_delete_documents = (\<lambda>i ids. demo_request (ReqDelete i ids)),
      en_wait_for_task = (\<lambda>t. demo_answer \<lparr>ti_success = True, ti_debug = []\<rparr>),
      en_breaker_state = (\<lambda>cb w. (if unat (mb_failure_threshold cb) \<le> dw_failures w then ExtOpen
        else ExtClosed, w)),
      en_breaker_success = (\<lambda>cb w. w\<lparr>dw_failures := 0\<rparr>),
      en_breaker_failure = (\<lambda>cb w. w\<lparr>dw_failures := dw_failures w + 1\<rparr>)\<rparr>"

theorem health_check_counts_as_success_witness:
  "pc_health_check demo_environment (Some (meili_breaker_new ''meilisearch''))
     \<lparr>dw_up = False, dw_failures = 4, dw_log = []\<rparr> =
   (Inr False, \<lparr>dw_up = False, dw_failures = 0, dw_log = []\<rparr>)"
proof -
  have open_no: "en_breaker_state demo_environment (meili_breaker_new ''meilisearch'')
      \<lparr>dw_up = False, dw_failures = 4, dw_log = []\<rparr> =
      (ExtClosed, \<lparr>dw_up = False, dw_failures = 4, dw_log = []\<rparr>)"
    by (simp add: demo_environment_def meili_breaker_new_def)
  from health_check_counts_as_success [of ExtClosed, THEN conjunct1, rule_format, OF _ open_no]
  show ?thesis by (auto simp: demo_environment_def demo_answer_def)
qed

end
