(* ===== verification/Routing.thy ===== *)
theory Routing
  imports Settings
begin

text \<open>
  Which index a table's events go to: the map that \<open>src/pipeline/orchestrator.rs\<close> builds from the
  sync tasks and the lookup in \<open>src/destination/meilisearch/adapter.rs\<close>. The Unicode tables of
  \<open>to_lowercase\<close> are an argument.
\<close>

section \<open>Identifiers\<close>

definition trim_quotes :: "string \<Rightarrow> string" where
  "trim_quotes s = trim_end_matches (CHR 0x22) (trim_start_matches (CHR 0x22) s)"

definition sanitize_identifier :: "string \<Rightarrow> string" where
  "sanitize_identifier identifier = trim_quotes (trim identifier)"

definition lower_identifier :: "unicode_tables \<Rightarrow> string \<Rightarrow> string" where
  "lower_identifier u s = to_lowercase u (trim_quotes (trim s))"

section \<open>The adapter\<close>

definition canonical_table_key :: "unicode_tables \<Rightarrow> string option \<Rightarrow> string \<Rightarrow> string" where
  "canonical_table_key u schema table =
     (let table_part = lower_identifier u table in
      case schema of
        Some s \<Rightarrow> if trim s \<noteq> [] then lower_identifier u s @ ''.'' @ table_part else table_part
      | None \<Rightarrow> table_part)"

definition split_table_identifier :: "string \<Rightarrow> string option \<times> string" where
  "split_table_identifier table =
     (let trimmed = trim table in
      case split_once (CHR ''.'') trimmed of
        Some (schema, name) \<Rightarrow> (Some (sanitize_identifier schema), sanitize_identifier name)
      | None \<Rightarrow> (None, sanitize_identifier trimmed))"

definition first_index :: "(string, string) hmap \<Rightarrow> string list \<Rightarrow> string option" where
  "first_index m ks = List.find (\<lambda>i. True) (List.map_filter (hm_get m) ks)"

text \<open>The schema and table, the table, the fallback's schema and table, its table, the fallback.\<close>

definition resolve_index_name ::
  "unicode_tables \<Rightarrow> (string, string) hmap \<Rightarrow> string option \<Rightarrow> string \<Rightarrow> string \<Rightarrow> string" where
  "resolve_index_name u table_to_index schema table fallback =
     (let (fallback_schema, fallback_table) = split_table_identifier fallback;
          keys = (case schema of Some s \<Rightarrow> [canonical_table_key u (Some s) table] | None \<Rightarrow> []) @
            [canonical_table_key u None table] @
            (case fallback_schema of Some s \<Rightarrow> [canonical_table_key u (Some s) fallback_table] | None \<Rightarrow> []) @
            [canonical_table_key u None fallback_table]
      in case first_index table_to_index keys of Some i \<Rightarrow> i | None \<Rightarrow> fallback)"

section \<open>The orchestrator\<close>

definition orch_parse_table_identifier :: "string \<Rightarrow> string option \<times> string" where
  "orch_parse_table_identifier table =
     (let trimmed = trim table in
      if trimmed = [] then (None, [])
      else case split_once (CHR ''.'') trimmed of
        Some (schema, name) \<Rightarrow>
          (let schema_clean = sanitize_identifier schema
           in (if schema_clean = [] then None else Some schema_clean, sanitize_identifier name))
      | None \<Rightarrow> (None, sanitize_identifier trimmed))"

definition orch_canonical_table_key :: "unicode_tables \<Rightarrow> string option \<Rightarrow> string \<Rightarrow> string" where
  "orch_canonical_table_key u schema table =
     (let table_part = lower_identifier u table in
      if table_part = [] then []
      else case schema of
        Some s \<Rightarrow> if trim s \<noteq> [] then lower_identifier u s @ ''.'' @ table_part else table_part
      | None \<Rightarrow> table_part)"

text \<open>The keys a task enters, in order.\<close>

definition task_keys :: "unicode_tables \<Rightarrow> sync_task_config \<Rightarrow> string list" where
  "task_keys u task =
     (if st_index task = [] \<or> st_table task = [] then []
      else
        let (schema_opt, table_name) = orch_parse_table_identifier (st_table task)
        in filter (\<lambda>k. k \<noteq> [])
             ((case schema_opt of Some s \<Rightarrow> [orch_canonical_table_key u (Some s) table_name] | None \<Rightarrow> []) @
              [orch_canonical_table_key u None table_name]))"

definition build_table_index_map :: "unicode_tables \<Rightarrow> sync_task_config list \<Rightarrow> (string, string) hmap" where
  "build_table_index_map u tasks =
     fold (\<lambda>task m. fold (\<lambda>k. hm_insert k (st_index task)) (task_keys u task) m) tasks []"

section \<open>Properties\<close>

lemma hm_get_insert_keys:
  "hm_get (fold (\<lambda>k. hm_insert k v) ks m) x = (if x \<in> set ks then Some v else hm_get m x)"
  by (induction ks arbitrary: m) (auto simp: hmap_simps)

lemma hm_get_insert_tasks:
  "x \<notin> (\<Union>t \<in> set ts. set (task_keys u t)) \<Longrightarrow>
   hm_get (fold (\<lambda>task m. fold (\<lambda>k. hm_insert k (st_index task)) (task_keys u task) m) ts m) x = hm_get m x"
  by (induction ts arbitrary: m) (auto simp: hm_get_insert_keys)

text \<open>The last task that enters a key owns it.\<close>

lemma build_table_index_map_last:
  assumes "k \<in> set (task_keys u task)" and "\<forall>t \<in> set later. k \<notin> set (task_keys u t)"
  shows "hm_get (build_table_index_map u (earlier @ task # later)) k = Some (st_index task)"
proof -
  have "k \<notin> (\<Union>t \<in> set later. set (task_keys u t))" using assms(2) by blast
  then show ?thesis
    using assms(1) by (simp add: build_table_index_map_def hm_get_insert_tasks hm_get_insert_keys)
qed

lemma first_index_Cons: "first_index m (k # ks) = (case hm_get m k of Some i \<Rightarrow> Some i | None \<Rightarrow> first_index m ks)"
  by (auto simp: first_index_def List.map_filter_simps split: option.splits)

lemma orch_canonical_eq: "orch_canonical_table_key u s t \<noteq> [] \<Longrightarrow> canonical_table_key u s t = orch_canonical_table_key u s t"
  by (auto simp: orch_canonical_table_key_def canonical_table_key_def Let_def split: if_splits)


definition demo_task :: "string \<Rightarrow> string \<Rightarrow> sync_task_config" where
  "demo_task table index = \<lparr>st_id = table, st_source_name = ''primary'', st_table = table,
     st_index = index, st_primary_key = ''id'', st_filter = None, st_transform = None,
     st_mapping = None, st_full_sync_on_start = None, st_options = options_of_section None,
     st_auto_start = Some True, st_soft_delete = None\<rparr>"


end
