(* ===== verification/Adaptive.thy ===== *)
theory Adaptive
  imports Settings
begin

text \<open>
  Adaptive batch sizes: \<open>src/pipeline/adaptive_batching.rs\<close>. The clock and the memory figures of
  the operating system are arguments.
\<close>

section \<open>State\<close>

record batch_metrics =
  bm_batch_size :: nat
  bm_processing_time_ms :: u64
  bm_documents_per_second :: f64
  bm_memory_usage_mb :: f64
  bm_timestamp :: time

record table_batch_state =
  tb_current_batch_size :: nat
  tb_metrics_window :: "batch_metrics list"
  tb_last_adjustment :: time
  tb_consecutive_successes :: u32
  tb_consecutive_failures :: u32

definition table_batch_state_new :: "nat \<Rightarrow> time \<Rightarrow> table_batch_state" where
  "table_batch_state_new initial_size now =
     \<lparr>tb_current_batch_size = initial_size, tb_metrics_window = [], tb_last_adjustment = now,
      tb_consecutive_successes = 0, tb_consecutive_failures = 0\<rparr>"

record adaptive_manager =
  ad_config :: adaptive_batching_config
  ad_table_metrics :: "(string, table_batch_state) hmap"

definition adaptive_new :: "adaptive_batching_config \<Rightarrow> adaptive_manager" where
  "adaptive_new config = \<lparr>ad_config = config, ad_table_metrics = []\<rparr>"

text \<open>Used memory as a percentage of the total.\<close>

definition memory_pressure :: "nat \<Rightarrow> nat \<Rightarrow> f64" where
  "memory_pressure used total_memory =
     (if total_memory > 0 then f64_mul (f64_div (f64_of_nat used) (f64_of_nat total_memory)) (Fin 100) else Fin 0)"

section \<open>Operations\<close>

definition calculate_average_latency :: "batch_metrics list \<Rightarrow> u64" where
  "calculate_average_latency window =
     (if window = [] then 0
      else sum_list (map bm_processing_time_ms window) div of_nat (length window))"

definition calculate_new_batch_size ::
  "adaptive_batching_config \<Rightarrow> nat \<Rightarrow> u64 \<Rightarrow> f64 \<Rightarrow> nat \<Rightarrow> nat \<Rightarrow> nat" where
  "calculate_new_batch_size config current_size avg_latency_ms pressure min_size max_size =
     (let size = f64_of_nat current_size;
          new_size =
            if f64_lt (f64_round (8 / 10)) pressure then f64_to_u64 (f64_mul size (f64_round (8 / 10)))
            else
              let ratio = f64_div (f64_of_nat (unat (ab_target_latency_ms config)))
                            (f64_of_nat (unat avg_latency_ms))
              in if f64_lt (f64_round (12 / 10)) ratio then
                   f64_to_u64 (f64_mul size (f64_add (Fin 1) (f64_mul (ab_adjustment_factor config)
                     (f64_min (f64_sub ratio (Fin 1)) (Fin 1)))))
                 else if f64_lt ratio (f64_round (8 / 10)) then
                   f64_to_u64 (f64_mul size (f64_sub (Fin 1) (f64_mul (ab_adjustment_factor config)
                     (f64_min (f64_sub (Fin 1) ratio) (Fin (1 / 2))))))
                 else current_size
      in min (max new_size min_size) max_size)"

text \<open>
  The size for a table; \<open>now\<close> is the time of the call and \<open>pressure\<close> what the memory monitor
  would say.
\<close>

definition adaptive_get_batch_size ::
  "time \<Rightarrow> f64 \<Rightarrow> string \<Rightarrow> nat \<Rightarrow> nat \<Rightarrow> nat \<Rightarrow> adaptive_manager \<Rightarrow> nat result \<times> adaptive_manager" where
  "adaptive_get_batch_size now pressure table default_size min_size max_size m =
     (let config = ad_config m in
      if \<not> ab_per_table_optimization config then (Inr default_size, m)
      else
        let state = (case hm_get (ad_table_metrics m) table of
              Some s \<Rightarrow> s | None \<Rightarrow> table_batch_state_new default_size now);
            m1 = m\<lparr>ad_table_metrics := hm_insert table state (ad_table_metrics m)\<rparr>
        in if duration_since now (tb_last_adjustment state) < millis (unat (ab_adjustment_interval_ms config))
           then (Inr (tb_current_batch_size state), m1)
           else if length (tb_metrics_window state) \<ge> ab_metric_window_size config div 2 then
             let new_size = calculate_new_batch_size config (tb_current_batch_size state)
                   (calculate_average_latency (tb_metrics_window state)) pressure min_size max_size
             in if new_size \<noteq> tb_current_batch_size state then
                  (Inr new_size,
                   m1\<lparr>ad_table_metrics := hm_insert table
                       (state\<lparr>tb_current_batch_size := new_size, tb_last_adjustment := now\<rparr>)
                       (ad_table_metrics m1)\<rparr>)
                else (Inr (tb_current_batch_size state), m1)
           else (Inr (tb_current_batch_size state), m1))"

definition push_metrics :: "nat \<Rightarrow> batch_metrics \<Rightarrow> batch_metrics list \<Rightarrow> batch_metrics list" where
  "push_metrics window_size metrics window =
     (let w = window @ [metrics] in if length w > window_size then tl w else w)"

definition adaptive_record_metrics ::
  "time \<Rightarrow> string \<Rightarrow> batch_metrics \<Rightarrow> adaptive_manager \<Rightarrow> unit result \<times> adaptive_manager" where
  "adaptive_record_metrics now table metrics m =
     (let state = (case hm_get (ad_table_metrics m) table of
            Some s \<Rightarrow> s | None \<Rightarrow> table_batch_state_new (bm_batch_size metrics) now);
          s1 = state\<lparr>tb_metrics_window := push_metrics (ab_metric_window_size (ad_config m)) metrics
            (tb_metrics_window state)\<rparr>;
          s2 = (if bm_processing_time_ms metrics < ab_target_latency_ms (ad_config m)
                then s1\<lparr>tb_consecutive_successes := tb_consecutive_successes s1 + 1,
                        tb_consecutive_failures := 0\<rparr>
                else s1\<lparr>tb_consecutive_failures := tb_consecutive_failures s1 + 1,
                        tb_consecutive_successes := 0\<rparr>)
      in (Inr (), m\<lparr>ad_table_metrics := hm_insert table s2 (ad_table_metrics m)\<rparr>))"

record table_batch_statistics =
  ts_current_batch_size :: nat
  ts_average_latency_ms :: u64
  ts_average_throughput :: f64
  ts_consecutive_successes :: u32
  ts_consecutive_failures :: u32
  ts_metrics_count :: nat

definition table_statistics :: "table_batch_state \<Rightarrow> table_batch_statistics" where
  "table_statistics s =
     (let window = tb_metrics_window s in
      \<lparr>ts_current_batch_size = tb_current_batch_size s,
       ts_average_latency_ms = calculate_average_latency window,
       ts_average_throughput =
         (if window \<noteq> [] then f64_div (foldl f64_add (Fin 0) (map bm_documents_per_second window))
            (f64_of_nat (length window)) else Fin 0),
       ts_consecutive_successes = tb_consecutive_successes s,
       ts_consecutive_failures = tb_consecutive_failures s,
       ts_metrics_count = length window\<rparr>)"

definition adaptive_get_statistics :: "adaptive_manager \<Rightarrow> (string, table_batch_statistics) hmap" where
  "adaptive_get_statistics m = map (\<lambda>(t, s). (t, table_statistics s)) (ad_table_metrics m)"

section \<open>Properties\<close>

lemma new_batch_size_bounds:
  "min_size \<le> max_size \<Longrightarrow>
   min_size \<le> calculate_new_batch_size config n l p min_size max_size \<and>
   calculate_new_batch_size config n l p min_size max_size \<le> max_size"
  unfolding calculate_new_batch_size_def Let_def by simp

lemma shrink_le:
  assumes "n \<le> 2 ^ 53"
  shows "f64_to_u64 (f64_mul (f64_of_nat n) (f64_round (8 / 10))) \<le> n"
proof -
  obtain c where c: "f64_round (8 / 10) = Fin c" "0 \<le> c" "c \<le> of_nat 1"
    by (rule f64_round_between [of "8 / 10" 1]) simp_all
  have "of_nat n * c \<le> of_nat n" using c(3) by (simp add: mult_left_le)
  then obtain a where "f64_round (of_nat n * c) = Fin a" "a \<le> of_nat n"
    using f64_round_between [of "of_nat n * c" n] c(2) assms by (metis mult_nonneg_nonneg of_nat_0_le_iff)
  then have "f64_le (f64_round (of_nat n * c)) (Fin (of_nat n))" by simp
  from f64_to_u64_mono [OF this] show ?thesis
    using assms unfolding c(1) by (simp add: f64_mul_def f64_of_nat_exact)
qed

text \<open>
  C30. A recalculated batch size stays between the bounds. Once more than 0.8 percent of the
  memory is used it never grows, however fast the destination is: the pressure is a percentage
  and is compared with the fraction 0.8.
\<close>

theorem adaptive_size_never_grows:
  assumes "min_size \<le> max_size" and "n \<le> 2 ^ 53" and "min_size \<le> n"
    and "f64_lt (f64_round (8 / 10)) (memory_pressure used total_memory)"
  shows "min_size \<le> calculate_new_batch_size config n l p min_size max_size \<and>
    calculate_new_batch_size config n l p min_size max_size \<le> max_size \<and>
    calculate_new_batch_size config n l (memory_pressure used total_memory) min_size max_size \<le> n"
proof -
  have "calculate_new_batch_size config n l (memory_pressure used total_memory) min_size max_size =
      min (max (f64_to_u64 (f64_mul (f64_of_nat n) (f64_round (8 / 10)))) min_size) max_size"
    using assms(4) by (simp add: calculate_new_batch_size_def Let_def)
  with shrink_le [OF assms(2)] assms(3) new_batch_size_bounds [OF assms(1)] show ?thesis by simp
qed

theorem adaptive_size_never_grows_witness:
  "calculate_new_batch_size adaptive_batching_default 100 10 (memory_pressure 1 1) 10 1000 \<le> 100"
proof -
  obtain c where c: "f64_round (8 / 10) = Fin c" "0 \<le> c" "c \<le> of_nat 1"
    by (rule f64_round_between [of "8 / 10" 1]) simp_all
  have "f64_lt (f64_round (8 / 10)) (memory_pressure 1 1)"
    unfolding c(1) using c(3) f64_round_int [of 1] f64_round_int [of 100]
    by (simp add: memory_pressure_def f64_of_nat_exact f64_div_def f64_mul_def)
  from adaptive_size_never_grows [OF _ _ _ this, of 10 1000 100] show ?thesis by simp
qed

end
