(* ===== verification/Destination.thy ===== *)
theory Destination
  imports Client Routing Adaptive
begin

text \<open>
  The Meilisearch destination: \<open>src/destination/adapter.rs\<close>,
  \<open>src/destination/meilisearch/batch_processor.rs\<close> and \<open>adapter.rs\<close>, over the protected client and
  its environment. The iteration order of the map of batches, the clock and the length of a
  serialised batch are arguments.
\<close>

section \<open>Results\<close>

record sync_result =
  sy_success_count :: nat
  sy_failed_count :: nat
  sy_last_position :: "position option"
  sy_errors :: "string list"

definition sync_result_new :: sync_result where
  "sync_result_new = \<lparr>sy_success_count = 0, sy_failed_count = 0, sy_last_position = None, sy_errors = []\<rparr>"

definition add_success :: "sync_result \<Rightarrow> sync_result" where
  "add_success r = r\<lparr>sy_success_count := sy_success_count r + 1\<rparr>"

definition add_failure :: "string \<Rightarrow> sync_result \<Rightarrow> sync_result" where
  "add_failure e r = r\<lparr>sy_failed_count := sy_failed_count r + 1, sy_errors := sy_errors r @ [e]\<rparr>"

definition is_successful :: "sync_result \<Rightarrow> bool" where
  "is_successful r \<longleftrightarrow> sy_failed_count r = 0"

section \<open>Batches\<close>

record batch =
  bp_documents_to_upsert :: "json list"
  bp_documents_to_delete :: "string list"
  bp_primary_key :: "string option"

definition batch_new :: "string option \<Rightarrow> batch" where
  "batch_new pk = \<lparr>bp_documents_to_upsert = [], bp_documents_to_delete = [], bp_primary_key = pk\<rparr>"

text \<open>\<open>as_str\<close>, else \<open>as_i64\<close> and its text.\<close>

fun document_id :: "json \<Rightarrow> string option" where
  "document_id (String s) = Some s"
| "document_id (Number n) = map_option show_int (number_as_i64 n)"
| "document_id v = None"

definition push_upsert :: "json \<Rightarrow> batch \<Rightarrow> batch" where
  "push_upsert d b = b\<lparr>bp_documents_to_upsert := bp_documents_to_upsert b @ [d]\<rparr>"

definition push_delete :: "string \<Rightarrow> batch \<Rightarrow> batch" where
  "push_delete i b = b\<lparr>bp_documents_to_delete := bp_documents_to_delete b @ [i]\<rparr>"

definition bp_process_cdc_event :: "cdc_event \<Rightarrow> batch \<Rightarrow> unit result \<times> batch" where
  "bp_process_cdc_event event b =
     (case cdc_event_type event of
        EtCreate \<Rightarrow> (Inr (), push_upsert (json_of_fields (cdc_data event)) b)
      | EtUpdate \<Rightarrow> (Inr (), push_upsert (json_of_fields (cdc_data event)) b)
      | EtDelete \<Rightarrow>
          (case bp_primary_key b of
             None \<Rightarrow> (Inl (Meilisearch ''No primary key configured for delete operations''), b)
           | Some pk_field \<Rightarrow>
               (case hm_get (cdc_data event) pk_field of
                  None \<Rightarrow> (Inl (Meilisearch (''Missing primary key field '' @ [CHR 0x27] @ pk_field @
                     [CHR 0x27] @ '' in delete event'')), b)
                | Some pk_value \<Rightarrow>
                    (case document_id pk_value of
                       Some i \<Rightarrow> (Inr (), push_delete i b)
                     | None \<Rightarrow> (Inr (), b))))
      | _ \<Rightarrow> (Inr (), b))"

fun bp_process_event :: "stream_event \<Rightarrow> batch \<Rightarrow> unit result \<times> batch" where
  "bp_process_event (EvCdc cdc) b = bp_process_cdc_event cdc b"
| "bp_process_event (EvFullSync table data) b = (Inr (), push_upsert data b)"
| "bp_process_event event b = (Inr (), b)"

definition batch_clear :: "batch \<Rightarrow> batch" where
  "batch_clear b = b\<lparr>bp_documents_to_upsert := [], bp_documents_to_delete := []\<rparr>"

definition batch_is_empty :: "batch \<Rightarrow> bool" where
  "batch_is_empty b \<longleftrightarrow> bp_documents_to_upsert b = [] \<and> bp_documents_to_delete b = []"

definition batch_len :: "batch \<Rightarrow> nat" where
  "batch_len b = length (bp_documents_to_upsert b) + length (bp_documents_to_delete b)"

section \<open>The adapter\<close>

record meili_adapter =
  ma_config :: meilisearch_config
  ma_client :: "protected_client option"
  ma_batch :: batch
  ma_table_primary_keys :: "(string, string) hmap"
  ma_table_to_index :: "(string, string) hmap"
  ma_adaptive :: "adaptive_manager option"
  ma_performance :: performance_config

definition meili_adapter_new :: "meilisearch_config \<Rightarrow> (string, string) hmap \<Rightarrow> meili_adapter" where
  "meili_adapter_new config table_to_index =
     \<lparr>ma_config = config, ma_client = None, ma_batch = batch_new (ms_primary_key config),
      ma_table_primary_keys = [(''users'', ''id''), (''products'', ''sku''), (''orders'', ''id'')],
      ma_table_to_index = table_to_index, ma_adaptive = None,
      ma_performance = performance_config_default\<rparr>"

definition with_adaptive_batching ::
  "adaptive_manager \<Rightarrow> performance_config \<Rightarrow> meili_adapter \<Rightarrow> meili_adapter" where
  "with_adaptive_batching manager perf a = a\<lparr>ma_adaptive := Some manager, ma_performance := perf\<rparr>"

definition get_client :: "meili_adapter \<Rightarrow> protected_client result" where
  "get_client a =
     (case ma_client a of Some c \<Rightarrow> Inr c | None \<Rightarrow> Inl (Meilisearch ''Not connected to Meilisearch''))"

text \<open>\<open>Option::or\<close>.\<close>

definition opt_or :: "'a option \<Rightarrow> 'a option \<Rightarrow> 'a option" where
  "opt_or a b = (case a of Some x \<Rightarrow> Some x | None \<Rightarrow> b)"

definition get_or_create_index ::
  "'w environment \<Rightarrow> meili_adapter \<Rightarrow> string \<Rightarrow> string option \<Rightarrow> 'w \<Rightarrow> string result \<times> 'w" where
  "get_or_create_index en a index_name primary_key w =
     (case get_client a of
        Inl e \<Rightarrow> (Inl e, w)
      | Inr client \<Rightarrow>
          (let pk = opt_or primary_key (ms_primary_key (ma_config a)) in
           if ms_auto_create_index (ma_config a) then pc_get_or_create_index en client index_name pk w
           else sdk_map_err (en_get_index en index_name w)))"

definition count_result :: "string \<Rightarrow> nat \<Rightarrow> unit result \<Rightarrow> sync_result \<Rightarrow> sync_result" where
  "count_result what n r result =
     (case r of
        Inr _ \<Rightarrow> result\<lparr>sy_success_count := sy_success_count result + n\<rparr>
      | Inl e \<Rightarrow> add_failure (what @ '' error: '' @ error_to_string e)
          (result\<lparr>sy_failed_count := sy_failed_count result + n\<rparr>))"

definition apply_upserts ::
  "'w environment \<Rightarrow> meili_adapter \<Rightarrow> protected_client \<Rightarrow> string \<Rightarrow> sync_result \<Rightarrow> 'w \<Rightarrow> sync_result \<times> 'w" where
  "apply_upserts en a client index result w =
     (let docs = bp_documents_to_upsert (ma_batch a) in
      if docs = [] then (result, w)
      else (case pc_add_documents en client index docs (ms_primary_key (ma_config a)) w of
              (r, w1) \<Rightarrow> (count_result ''Upsert'' (length docs) r result, w1)))"

definition apply_deletes ::
  "'w environment \<Rightarrow> meili_adapter \<Rightarrow> protected_client \<Rightarrow> string \<Rightarrow> sync_result \<Rightarrow> 'w \<Rightarrow> sync_result \<times> 'w" where
  "apply_deletes en a client index result w =
     (let ids = bp_documents_to_delete (ma_batch a) in
      if ids = [] then (result, w)
      else (case pc_delete_documents en client index ids w of
              (r, w1) \<Rightarrow> (count_result ''Delete'' (length ids) r result, w1)))"

definition apply_batch ::
  "'w environment \<Rightarrow> string \<Rightarrow> string option \<Rightarrow> meili_adapter \<Rightarrow> 'w \<Rightarrow> sync_result result \<times> meili_adapter \<times> 'w" where
  "apply_batch en index_name primary_key a w =
     (if batch_is_empty (ma_batch a) then (Inr sync_result_new, a, w)
      else case get_client a of
        Inl e \<Rightarrow> (Inl e, a, w)
      | Inr client \<Rightarrow>
          (case get_or_create_index en a index_name primary_key w of
             (Inl e, w1) \<Rightarrow> (Inl e, a, w1)
           | (Inr index, w1) \<Rightarrow>
               (case apply_upserts en a client index sync_result_new w1 of
                  (r1, w2) \<Rightarrow>
                    (case apply_deletes en a client index r1 w2 of
                       (r2, w3) \<Rightarrow> (Inr r2, a\<lparr>ma_batch := batch_clear (ma_batch a)\<rparr>, w3)))))"

text \<open>The index of an event; \<open>None\<close> for the events that are skipped.\<close>

fun event_index :: "unicode_tables \<Rightarrow> meili_adapter \<Rightarrow> stream_event \<Rightarrow> string option" where
  "event_index u a (EvCdc cdc) =
     Some (resolve_index_name u (ma_table_to_index a) (Some (cdc_schema cdc)) (cdc_table cdc) (cdc_table cdc))"
| "event_index u a (EvFullSync table data) =
     (case split_table_identifier table of (schema, table_name) \<Rightarrow>
        Some (resolve_index_name u (ma_table_to_index a) schema table_name table))"
| "event_index u a event = None"

fun event_position :: "stream_event \<Rightarrow> position option" where
  "event_position (EvCdc cdc) = cdc_position cdc"
| "event_position event = None"

definition group_event ::
  "unicode_tables \<Rightarrow> meili_adapter \<Rightarrow> stream_event \<Rightarrow>
     (string, stream_event list) hmap \<times> position option \<Rightarrow> (string, stream_event list) hmap \<times> position option" where
  "group_event u a event g =
     (case event_index u a event of
        None \<Rightarrow> g
      | Some index_name \<Rightarrow>
          (hm_insert index_name
             ((case hm_get (fst g) index_name of Some es \<Rightarrow> es | None \<Rightarrow> []) @ [event]) (fst g),
           opt_or (event_position event) (snd g)))"

text \<open>The events of one index into the batch; failures are counted and the event dropped.\<close>

fun fill_batch :: "stream_event list \<Rightarrow> sync_result \<Rightarrow> batch \<Rightarrow> sync_result \<times> batch" where
  "fill_batch [] result b = (result, b)"
| "fill_batch (e # es) result b =
     (case bp_process_event e b of
        (Inl err, b1) \<Rightarrow> fill_batch es (add_failure (error_to_string err) result) b1
      | (Inr _, b1) \<Rightarrow> fill_batch es result b1)"

definition index_primary_key :: "meili_adapter \<Rightarrow> string \<Rightarrow> string option" where
  "index_primary_key a index_name =
     opt_or (hm_get (ma_table_primary_keys a) index_name) (ms_primary_key (ma_config a))"

fun process_indexes ::
  "'w environment \<Rightarrow> (string \<times> stream_event list) list \<Rightarrow> sync_result \<Rightarrow> meili_adapter \<Rightarrow> 'w \<Rightarrow>
     sync_result result \<times> meili_adapter \<times> 'w" where
  "process_indexes en [] result a w = (Inr result, a, w)"
| "process_indexes en ((index_name, es) # rest) result a w =
     (let pk = index_primary_key a index_name;
          (result1, b) = fill_batch es result (batch_new pk);
          a1 = a\<lparr>ma_batch := b\<rparr>
      in if batch_is_empty b then process_indexes en rest result1 a1 w
         else case apply_batch en index_name pk a1 w of
           (Inl e, a2, w1) \<Rightarrow> (Inl e, a2, w1)
         | (Inr r, a2, w1) \<Rightarrow>
             process_indexes en rest
               (result1\<lparr>sy_success_count := sy_success_count result1 + sy_success_count r,
                        sy_failed_count := sy_failed_count result1 + sy_failed_count r,
                        sy_errors := sy_errors result1 @ sy_errors r\<rparr>) a2 w1)"

definition process_events ::
  "'w environment \<Rightarrow> unicode_tables \<Rightarrow>
     ((string, stream_event list) hmap \<Rightarrow> (string \<times> stream_event list) list) \<Rightarrow>
     stream_event list \<Rightarrow> meili_adapter \<Rightarrow> 'w \<Rightarrow> sync_result result \<times> meili_adapter \<times> 'w" where
  "process_events en u iterate events a w =
     (let (events_by_index, last_position) = fold (group_event u a) events ([], None)
      in case process_indexes en (iterate events_by_index) sync_result_new a w of
           (Inl e, a1, w1) \<Rightarrow> (Inl e, a1, w1)
         | (Inr result, a1, w1) \<Rightarrow> (Inr (result\<lparr>sy_last_position := last_position\<rparr>), a1, w1))"

definition connect ::
  "'w environment \<Rightarrow> (sdk_error + unit) \<Rightarrow> meili_adapter \<Rightarrow> 'w \<Rightarrow> unit result \<times> meili_adapter \<times> 'w" where
  "connect en created a w =
     (case protected_client_new (ma_config a) created of
        Inl e \<Rightarrow> (Inl e, a, w)
      | Inr client \<Rightarrow>
          (case pc_test_connection en client w of
             (Inl e, w1) \<Rightarrow> (Inl e, a, w1)
           | (Inr _, w1) \<Rightarrow>
               (case pc_get_version en client w1 of
                  (Inl e, w2) \<Rightarrow> (Inl e, a, w2)
                | (Inr version, w2) \<Rightarrow> (Inr (), a\<lparr>ma_client := Some client\<rparr>, w2))))"

definition disconnect :: "meili_adapter \<Rightarrow> unit result \<times> meili_adapter" where
  "disconnect a = (Inr (), a\<lparr>ma_client := None\<rparr>)"

definition adapter_health_check :: "'w environment \<Rightarrow> meili_adapter \<Rightarrow> 'w \<Rightarrow> bool result \<times> 'w" where
  "adapter_health_check en a w =
     (case ma_client a of Some client \<Rightarrow> pc_health_check en client w | None \<Rightarrow> (Inr False, w))"

definition ensure_index :: "'w environment \<Rightarrow> string \<Rightarrow> meili_adapter \<Rightarrow> 'w \<Rightarrow> unit result \<times> 'w" where
  "ensure_index en index_name a w =
     (case get_or_create_index en a index_name (index_primary_key a index_name) w of
        (Inl e, w1) \<Rightarrow> (Inl e, w1) | (Inr index, w1) \<Rightarrow> (Inr (), w1))"

definition adapter_delete_index :: "'w environment \<Rightarrow> string \<Rightarrow> meili_adapter \<Rightarrow> 'w \<Rightarrow> unit result \<times> 'w" where
  "adapter_delete_index en index_name a w =
     (case get_client a of
        Inl e \<Rightarrow> (Inl e, w)
      | Inr client \<Rightarrow> await_task en ''Index deletion failed'' (en_delete_index en index_name) w)"

text \<open>The target is deleted and the swap then refused.\<close>

definition swap_indexes :: "'w environment \<Rightarrow> string \<Rightarrow> string \<Rightarrow> meili_adapter \<Rightarrow> 'w \<Rightarrow> unit result \<times> 'w" where
  "swap_indexes en from_index to_index a w =
     (case adapter_delete_index en to_index a w of
        (_, w1) \<Rightarrow> (Inl (Meilisearch ''Index swap not fully implemented - requires document copying''), w1))"

subsection \<open>Importing\<close>

text \<open>\<open>slice::chunks(n)\<close> for a positive \<open>n\<close>; it panics on zero.\<close>

function chunks :: "nat \<Rightarrow> 'a list \<Rightarrow> 'a list list" where
  "chunks n xs = (if n = 0 \<or> xs = [] then [] else take n xs # chunks n (drop n xs))"
  by auto
termination by (relation "measure (\<lambda>(n, xs). length xs)") auto

declare chunks.simps [simp del]

text \<open>
  The size of the chunks; \<open>now\<close> and \<open>pressure\<close> are what the adaptive manager reads.
\<close>

definition import_batch_size :: "time \<Rightarrow> f64 \<Rightarrow> string \<Rightarrow> meili_adapter \<Rightarrow> nat \<times> meili_adapter" where
  "import_batch_size now pressure index_name a =
     (case ma_adaptive a of
        None \<Rightarrow> (ms_batch_size (ma_config a), a)
      | Some adaptive \<Rightarrow>
          (let bp = pf_batch_processing (ma_performance a) in
           case adaptive_get_batch_size now pressure index_name (bc_default_batch_size bp)
                  (bc_min_batch_size bp) (bc_max_batch_size bp) adaptive of
             (Inr n, m) \<Rightarrow> (n, a\<lparr>ma_adaptive := Some m\<rparr>)
           | (Inl _, m) \<Rightarrow> (ms_batch_size (ma_config a), a\<lparr>ma_adaptive := Some m\<rparr>)))"

text \<open>The metrics of a chunk: its start, its duration in milliseconds, its serialised length.\<close>

definition import_metrics :: "time \<times> u64 \<Rightarrow> nat option \<Rightarrow> nat \<Rightarrow> batch_metrics" where
  "import_metrics timing bytes n =
     (let (start, ms) = timing in
      \<lparr>bm_batch_size = n, bm_processing_time_ms = ms,
       bm_documents_per_second =
         (if ms > 0 then f64_div (f64_mul (f64_of_nat n) (Fin 1000)) (f64_of_nat (unat ms))
          else f64_mul (f64_of_nat n) (Fin 1000)),
       bm_memory_usage_mb =
         (case bytes of
            Some len \<Rightarrow> f64_div (f64_of_nat len) (Fin (1024 * 1024))
          | None \<Rightarrow> f64_div (f64_of_nat n) (Fin 1024)),
       bm_timestamp = start\<rparr>)"

fun import_chunks ::
  "'w environment \<Rightarrow> (nat \<Rightarrow> time \<times> u64) \<Rightarrow> (json list \<Rightarrow> nat option) \<Rightarrow> protected_client \<Rightarrow> string \<Rightarrow>
     string \<Rightarrow> string option \<Rightarrow> nat \<Rightarrow> json list list \<Rightarrow> sync_result \<Rightarrow> meili_adapter \<Rightarrow> 'w \<Rightarrow>
     sync_result \<times> meili_adapter \<times> 'w" where
  "import_chunks en timing bytes client index index_name pk i [] result a w = (result, a, w)"
| "import_chunks en timing bytes client index index_name pk i (c # cs) result a w =
     (case pc_add_documents en client index c pk w of
        (Inr _, w1) \<Rightarrow>
          import_chunks en timing bytes client index index_name pk (Suc i) cs
            (result\<lparr>sy_success_count := sy_success_count result + length c\<rparr>)
            (case ma_adaptive a of
               None \<Rightarrow> a
             | Some m \<Rightarrow> a\<lparr>ma_adaptive := Some (snd (adaptive_record_metrics (fst (timing i)) index_name
                 (import_metrics (timing i) (bytes c) (length c)) m))\<rparr>) w1
      | (Inl e, w1) \<Rightarrow>
          import_chunks en timing bytes client index index_name pk (Suc i) cs
            (add_failure (''Import error: '' @ error_to_string e)
              (result\<lparr>sy_failed_count := sy_failed_count result + length c\<rparr>)) a w1)"

text \<open>\<open>None\<close> is the panic of \<open>chunks(0)\<close>.\<close>

definition import_data ::
  "'w environment \<Rightarrow> (nat \<Rightarrow> time \<times> u64) \<Rightarrow> (json list \<Rightarrow> nat option) \<Rightarrow> time \<Rightarrow> f64 \<Rightarrow> string \<Rightarrow> json list \<Rightarrow>
     string option \<Rightarrow> meili_adapter \<Rightarrow> 'w \<Rightarrow> (sync_result result \<times> meili_adapter \<times> 'w) option" where
  "import_data en timing bytes now pressure index_name documents primary_key a w =
     (case get_client a of
        Inl e \<Rightarrow> Some (Inl e, a, w)
      | Inr client \<Rightarrow>
          (let pk = opt_or primary_key (index_primary_key a index_name) in
           case get_or_create_index en a index_name pk w of
             (Inl e, w1) \<Rightarrow> Some (Inl e, a, w1)
           | (Inr index, w1) \<Rightarrow>
               (let (batch_size, a1) = import_batch_size now pressure index_name a in
                if batch_size = 0 then None
                else case import_chunks en timing bytes client index index_name primary_key 0
                       (chunks batch_size documents) sync_result_new a1 w1 of
                  (result, a2, w2) \<Rightarrow> Some (Inr result, a2, w2))))"

section \<open>Accounting\<close>

lemma concat_chunks [simp]: "0 < n \<Longrightarrow> concat (chunks n xs) = xs"
  by (induction n xs rule: chunks.induct) (subst chunks.simps, auto)

lemma chunks_size: "c \<in> set (chunks n xs) \<Longrightarrow> c \<noteq> [] \<and> length c \<le> n"
proof (induction n xs rule: chunks.induct)
  case (1 n xs)
  then show ?case by (subst (asm) (2) chunks.simps) (auto split: if_splits)
qed

lemma length_concat_chunks: "0 < n \<Longrightarrow> sum_list (map length (chunks n xs)) = length xs"
  by (metis concat_chunks length_concat)

lemma import_chunks_count:
  "import_chunks en tm by c i nm pk k cs r a w = (r', a', w') \<Longrightarrow>
   sy_success_count r' + sy_failed_count r' + length (sy_errors r) =
     sy_success_count r + sy_failed_count r + sum_list (map length cs) + length (sy_errors r')"
proof (induction cs arbitrary: k r a w)
  case Nil
  then show ?case by simp
next
  case (Cons c cs)
  then show ?case
    by (auto simp: add_failure_def split: prod.splits sum.splits dest!: Cons.IH)
qed



section \<open>Soft deletes at the destination\<close>

lemma process_events_skips:
  "event_index u a e = None \<Longrightarrow>
   process_events en u iterate (es @ e # es') a w = process_events en u iterate (es @ es') a w"
  by (simp add: process_events_def group_event_def)

text \<open>
  C20. The deletion that the soft-delete handler makes of an update never reaches an index: the
  destination skips it, so the whole batch has the same result, the same requests and the same
  state as without the row, and the soft-deleted document stays.
\<close>

theorem soft_deleted_rows_stay:
  assumes "cdc_event_type cdc = EtUpdate" and "sd_handle_on_cdc config"
    and "soft_deletes config (hm_get (cdc_data cdc) (sd_field config))"
  shows "\<exists>e. transform_event config (EvCdc cdc) = Some e \<and>
    process_events en u iterate (es @ e # es') a w = process_events en u iterate (es @ es') a w"
  using assms by (simp add: process_events_skips)

definition demo_change :: "event_type \<Rightarrow> fields \<Rightarrow> cdc_event" where
  "demo_change t data = \<lparr>cdc_event_type = t, cdc_table = ''users'', cdc_schema = ''public'',
     cdc_data = data, cdc_timestamp = 0, cdc_position = None\<rparr>"

theorem soft_deleted_rows_stay_witness:
  "\<exists>e. transform_event \<lparr>sd_field = ''deleted'', sd_delete_values = [Bool True],
        sd_handle_on_full_sync = True, sd_handle_on_cdc = True\<rparr>
      (EvCdc (demo_change EtUpdate [(''id'', String ''7''), (''deleted'', Bool True)])) = Some e \<and>
    process_events demo_environment ascii_tables (\<lambda>m. m) [e] (meili_adapter_new (meilisearch_minimal ''u'' None) [])
      \<lparr>dw_up = True, dw_failures = 0, dw_log = []\<rparr> =
    process_events demo_environment ascii_tables (\<lambda>m. m) [] (meili_adapter_new (meilisearch_minimal ''u'' None) [])
      \<lparr>dw_up = True, dw_failures = 0, dw_log = []\<rparr>"
  by (rule soft_deleted_rows_stay [where es = "[]" and es' = "[]", simplified append_Nil])
    (simp_all add: demo_change_def soft_deletes_def is_soft_deleted_def)

section \<open>The order of a batch\<close>

fun upsert_document :: "stream_event \<Rightarrow> json option" where
  "upsert_document (EvCdc cdc) =
     (if cdc_event_type cdc \<in> {EtCreate, EtUpdate} then Some (json_of_fields (cdc_data cdc)) else None)"
| "upsert_document (EvFullSync table data) = Some data"
| "upsert_document e = None"

fun deleted_id :: "string \<Rightarrow> stream_event \<Rightarrow> string option" where
  "deleted_id pk (EvCdc cdc) =
     (if cdc_event_type cdc = EtDelete then Option.bind (hm_get (cdc_data cdc) pk) document_id else None)"
| "deleted_id pk e = None"

lemma process_event_contents:
  "bp_process_event e b = (r, b') \<Longrightarrow> bp_primary_key b = Some pk \<Longrightarrow>
   bp_primary_key b' = Some pk \<and>
   bp_documents_to_upsert b' = bp_documents_to_upsert b @ (case upsert_document e of None \<Rightarrow> [] | Some d \<Rightarrow> [d]) \<and>
   bp_documents_to_delete b' = bp_documents_to_delete b @ (case deleted_id pk e of None \<Rightarrow> [] | Some i \<Rightarrow> [i])"
  by (cases e) (auto simp: bp_process_cdc_event_def push_upsert_def push_delete_def
      split: event_type.splits option.splits)

lemma fill_batch_contents:
  "fill_batch es r b = (r', b') \<Longrightarrow> bp_primary_key b = Some pk \<Longrightarrow>
   bp_documents_to_upsert b' = bp_documents_to_upsert b @ List.map_filter upsert_document es \<and>
   bp_documents_to_delete b' = bp_documents_to_delete b @ List.map_filter (deleted_id pk) es"
proof (induction es arbitrary: r b)
  case Nil
  then show ?case by (simp add: List.map_filter_simps)
next
  case (Cons e es)
  obtain x b1 where step: "bp_process_event e b = (x, b1)" by fastforce
  from process_event_contents [OF this Cons.prems(2)] Cons.IH [of _ b1] Cons.prems(1) step
  show ?case by (auto simp: List.map_filter_simps split: sum.splits option.splits)
qed

text \<open>
  What the server promises: a successful task has added or replaced the documents by their
  identifiers, or removed the ones named; \<open>view\<close> reads the documents of an index.
\<close>

definition add_effect :: "(json \<Rightarrow> string option) \<Rightarrow> json list \<Rightarrow> (string \<Rightarrow> json option) \<Rightarrow> string \<Rightarrow> json option" where
  "add_effect did ds m = fold (\<lambda>d m. case did d of Some k \<Rightarrow> m(k \<mapsto> d) | None \<Rightarrow> m) ds m"

definition serves ::
  "'w environment \<Rightarrow> ('w \<Rightarrow> string \<Rightarrow> string \<Rightarrow> json option) \<Rightarrow> (json \<Rightarrow> string option) \<Rightarrow> bool" where
  "serves en view did \<longleftrightarrow>
     (\<forall>i ds pk w t w1 info w2. en_add_documents en i ds pk w = (Inr t, w1) \<longrightarrow>
        en_wait_for_task en t w1 = (Inr info, w2) \<longrightarrow> ti_success info \<longrightarrow>
        view w2 i = add_effect did ds (view w i)) \<and>
     (\<forall>i ids w t w1 info w2. en_delete_documents en i ids w = (Inr t, w1) \<longrightarrow>
        en_wait_for_task en t w1 = (Inr info, w2) \<longrightarrow> ti_success info \<longrightarrow>
        view w2 i = view w i |` (- set ids)) \<and>
     (\<forall>cb w. view (snd (en_breaker_state en cb w)) = view w) \<and>
     (\<forall>cb w. view (en_breaker_success en cb w) = view w)"

text \<open>What one event means for the documents.\<close>

definition event_effect ::
  "(json \<Rightarrow> string option) \<Rightarrow> string \<Rightarrow> stream_event \<Rightarrow> (string \<Rightarrow> json option) \<Rightarrow> string \<Rightarrow> json option" where
  "event_effect did pk e m =
     (case upsert_document e of
        Some d \<Rightarrow> add_effect did [d] m
      | None \<Rightarrow> (case deleted_id pk e of Some k \<Rightarrow> m(k := None) | None \<Rightarrow> m))"

lemma add_effect_Cons: "add_effect did (d # ds) m = add_effect did ds (add_effect did [d] m)"
  by (simp add: add_effect_def)

lemma add_effect_Nil [simp]: "add_effect did [] m = m"
  by (simp add: add_effect_def)

lemma add_effect_cong: "m k = m' k \<Longrightarrow> add_effect did ds m k = add_effect did ds m' k"
proof (induction ds arbitrary: m m')
  case (Cons d ds)
  have "add_effect did [d] m k = add_effect did [d] m' k"
    using Cons.prems by (auto simp: add_effect_def split: option.splits)
  then have "add_effect did ds (add_effect did [d] m) k = add_effect did ds (add_effect did [d] m') k"
    by (rule Cons.IH)
  then show ?case by (simp only: add_effect_Cons [of did d ds])
qed simp

lemma in_order_without_delete:
  "k \<notin> set (List.map_filter (deleted_id pk) es) \<Longrightarrow>
   fold (event_effect did pk) es m k = add_effect did (List.map_filter upsert_document es) m k"
proof (induction es arbitrary: m)
  case Nil
  then show ?case by (simp add: List.map_filter_simps)
next
  case (Cons e es)
  show ?case
  proof (cases "upsert_document e")
    case None
    then have "event_effect did pk e m k = m k"
      using Cons.prems by (auto simp: event_effect_def List.map_filter_simps split: option.splits)
    then have "add_effect did ds (event_effect did pk e m) k = add_effect did ds m k" for ds
      by (rule add_effect_cong)
    moreover have "k \<notin> set (List.map_filter (deleted_id pk) es)"
      using Cons.prems by (auto simp: List.map_filter_simps split: option.splits)
    ultimately show ?thesis using Cons.IH None by (simp add: List.map_filter_simps)
  next
    case (Some d)
    then have "deleted_id pk e = None" by (cases e) (auto split: if_splits)
    with Some Cons show ?thesis
      by (simp add: List.map_filter_simps event_effect_def add_effect_Cons [of did d "List.map_filter _ _"])
  qed
qed

lemma protect_success:
  assumes "protect en pc what op w = (Inr x, w')"
  obtains w1 w2 where "op w1 = (Inr x, w2)"
    and "(w1 = w \<and> w' = w2) \<or>
      (\<exists>cb. w1 = snd (en_breaker_state en cb w) \<and> w' = en_breaker_success en cb w2)"
proof (cases pc)
  case None
  with assms that show ?thesis by (auto simp: protect_def)
next
  case (Some cb)
  obtain s w1 where st: "en_breaker_state en cb w = (s, w1)" by fastforce
  with assms Some have "s \<noteq> ExtOpen" by (auto simp: protect_def breaker_call_def)
  with assms Some st obtain w2 where "op w1 = (Inr x, w2)" "w' = en_breaker_success en cb w2"
    by (auto simp: protect_result split: prod.splits sum.splits)
  with st that [of w1 w2] show ?thesis by (metis snd_conv)
qed

lemma await_success:
  "await_task en what request w = (Inr u, w') \<Longrightarrow>
   \<exists>t w1 info. request w = (Inr t, w1) \<and> en_wait_for_task en t w1 = (Inr info, w') \<and> ti_success info"
  by (auto simp: await_task_def split: prod.splits sum.splits if_splits)

lemma add_documents_effect:
  assumes "serves en view did" and "pc_add_documents en pc i ds pk w = (Inr u, w')"
  shows "view w' i = add_effect did ds (view w i)"
proof -
  obtain w1 w2 where op: "await_task en ''Add documents failed'' (en_add_documents en i ds pk) w1 = (Inr u, w2)"
      and w: "(w1 = w \<and> w' = w2) \<or>
        (\<exists>cb. w1 = snd (en_breaker_state en cb w) \<and> w' = en_breaker_success en cb w2)"
    using assms(2) unfolding pc_add_documents_def by (rule protect_success)
  from await_success [OF op] assms(1) have "view w2 i = add_effect did ds (view w1 i)"
    unfolding serves_def by blast
  with w assms(1) show ?thesis unfolding serves_def by auto
qed

lemma delete_documents_effect:
  assumes "serves en view did" and "pc_delete_documents en pc i ids w = (Inr u, w')"
  shows "view w' i = view w i |` (- set ids)"
proof -
  obtain w1 w2 where op: "await_task en ''Delete documents failed'' (en_delete_documents en i ids) w1 = (Inr u, w2)"
      and w: "(w1 = w \<and> w' = w2) \<or>
        (\<exists>cb. w1 = snd (en_breaker_state en cb w) \<and> w' = en_breaker_success en cb w2)"
    using assms(2) unfolding pc_delete_documents_def by (rule protect_success)
  from await_success [OF op] assms(1) have "view w2 i = view w1 i |` (- set ids)"
    unfolding serves_def by blast
  with w assms(1) show ?thesis unfolding serves_def by auto
qed

lemma count_result_failed:
  "sy_failed_count (count_result what n r result) = 0 \<longleftrightarrow> sy_failed_count result = 0 \<and> (\<exists>u. r = Inr u)"
  by (auto simp: count_result_def add_failure_def split: sum.splits)

lemma apply_batch_effect:
  assumes "serves en view did" and "get_client a = Inr client"
    and "get_or_create_index en a name pk w = (Inr i, w1)" and "\<not> batch_is_empty (ma_batch a)"
    and "apply_batch en name pk a w = (Inr r, a', w')" and "is_successful r"
  shows "view w' i =
    add_effect did (bp_documents_to_upsert (ma_batch a)) (view w1 i) |` (- set (bp_documents_to_delete (ma_batch a)))"
proof -
  let ?up = "bp_documents_to_upsert (ma_batch a)" and ?del = "bp_documents_to_delete (ma_batch a)"
  obtain r1 w2 where up: "apply_upserts en a client i sync_result_new w1 = (r1, w2)" by fastforce
  obtain r2 w3 where del: "apply_deletes en a client i r1 w2 = (r2, w3)" by fastforce
  have fin: "r = r2" "w' = w3"
    using assms(2-5) up del by (simp_all add: apply_batch_def)
  have ok: "sy_failed_count r1 = 0"
    using del assms(6) fin by (auto simp: apply_deletes_def is_successful_def count_result_failed Let_def
        split: if_splits prod.splits)
  have "view w2 i = add_effect did ?up (view w1 i)"
    using up ok add_documents_effect [OF assms(1)]
    by (auto simp: apply_upserts_def count_result_failed Let_def split: if_splits prod.splits)
  moreover have "view w3 i = view w2 i |` (- set ?del)"
    using del assms(6) fin delete_documents_effect [OF assms(1)]
    by (auto simp: apply_deletes_def is_successful_def count_result_failed Let_def split: if_splits prod.splits)
  ultimately show ?thesis using fin by simp
qed

text \<open>
  C19. Deletes win within a batch: after a batch of events of one index was applied without a
  failure, a document is what the events make of it in their order unless one of them deleted
  it; then it is gone, even when a later event of the batch wrote it again.
\<close>

theorem deletes_win_within_a_batch:
  assumes "serves en view did" and "get_client a = Inr client"
    and "fill_batch es r0 (batch_new (Some pk)) = (r1, ma_batch a)"
    and "\<not> batch_is_empty (ma_batch a)"
    and "get_or_create_index en a name (Some pk) w = (Inr i, w1)"
    and "apply_batch en name (Some pk) a w = (Inr r, a', w')" and "is_successful r"
  shows "view w' i k =
    (if k \<in> set (List.map_filter (deleted_id pk) es) then None
     else fold (event_effect did pk) es (view w1 i) k)"
proof -
  from fill_batch_contents [OF assms(3), of pk]
  have "bp_documents_to_upsert (ma_batch a) = List.map_filter upsert_document es"
    "bp_documents_to_delete (ma_batch a) = List.map_filter (deleted_id pk) es"
    by (simp_all add: batch_new_def)
  with apply_batch_effect [OF assms(1,2,5,4,6,7)] show ?thesis
    by (simp add: in_order_without_delete restrict_map_def)
qed

text \<open>A server that keeps the documents of every index by their \<open>id\<close>.\<close>

definition id_of :: "json \<Rightarrow> string option" where
  "id_of d = Option.bind (json_get d ''id'') document_id"

definition store_environment :: "(string \<Rightarrow> string \<Rightarrow> json option) environment" where
  "store_environment =
     \<lparr>en_health = (\<lambda>w. (Inr ''available'', w)), en_version = (\<lambda>w. (Inr ''1.0'', w)),
      en_get_index = (\<lambda>i w. (Inr i, w)), en_create_index = (\<lambda>i pk w. (Inr 0, w)),
      en_delete_index = (\<lambda>i w. (Inr 0, w(i := Map.empty))),
      en_add_documents = (\<lambda>i ds pk w. (Inr 0, w(i := add_effect id_of ds (w i)))),
      en_delete_documents = (\<lambda>i ids w. (Inr 0, w(i := w i |` (- set ids)))),
      en_wait_for_task = (\<lambda>t w. (Inr \<lparr>ti_success = True, ti_debug = []\<rparr>, w)),
      en_breaker_state = (\<lambda>cb w. (ExtClosed, w)), en_breaker_success = (\<lambda>cb w. w),
      en_breaker_failure = (\<lambda>cb w. w)\<rparr>"

definition demo_adapter :: meili_adapter where
  "demo_adapter = (meili_adapter_new (meilisearch_minimal ''u'' None) [])
     \<lparr>ma_client := Some None,
      ma_batch := \<lparr>bp_documents_to_upsert = [Object [(''id'', String ''7'')]],
        bp_documents_to_delete = [''7''], bp_primary_key = Some ''id''\<rparr>\<rparr>"

theorem deletes_win_within_a_batch_witness:
  "\<exists>r a' w'. apply_batch store_environment ''users'' (Some ''id'') demo_adapter (\<lambda>i. Map.empty) = (Inr r, a', w') \<and>
     w' ''users'' ''7'' = None"
proof -
  let ?es = "[EvCdc (demo_change EtDelete [(''id'', String ''7'')]), EvCdc (demo_change EtCreate [(''id'', String ''7'')])]"
  have "serves store_environment (\<lambda>w. w) id_of"
    by (auto simp: serves_def store_environment_def)
  moreover have "get_client demo_adapter = Inr None" "\<not> batch_is_empty (ma_batch demo_adapter)"
    "fill_batch ?es sync_result_new (batch_new (Some ''id'')) = (sync_result_new, ma_batch demo_adapter)"
    by (simp_all add: get_client_def demo_adapter_def batch_is_empty_def demo_change_def batch_new_def
        bp_process_cdc_event_def push_upsert_def push_delete_def json_of_fields_def)
  moreover have "get_or_create_index store_environment demo_adapter ''users'' (Some ''id'') (\<lambda>i. Map.empty) =
      (Inr ''users'', \<lambda>i. Map.empty)"
    by (simp add: get_or_create_index_def get_client_def demo_adapter_def meili_adapter_new_def
        meilisearch_minimal_def pc_get_or_create_index_def protect_def inner_get_or_create_index_def
        store_environment_def)
  moreover obtain r a' w' where "apply_batch store_environment ''users'' (Some ''id'') demo_adapter (\<lambda>i. Map.empty) =
      (Inr r, a', w')" "is_successful r"
    by (simp add: apply_batch_def get_or_create_index_def get_client_def demo_adapter_def meili_adapter_new_def
        meilisearch_minimal_def pc_get_or_create_index_def protect_def inner_get_or_create_index_def
        store_environment_def batch_is_empty_def apply_upserts_def apply_deletes_def pc_add_documents_def
        pc_delete_documents_def await_task_def count_result_def is_successful_def sync_result_new_def)
  ultimately show ?thesis
    using deletes_win_within_a_batch [of store_environment "\<lambda>w. w" id_of demo_adapter None ?es sync_result_new
        "''id''" sync_result_new "''users''" "\<lambda>i. Map.empty" "''users''" "\<lambda>i. Map.empty" r a' w' "''7''"]
    by (auto simp: demo_change_def List.map_filter_simps)
qed

end
