(* ===== verification/Stages.thy ===== *)
theory Stages
  imports EventFilter Transform
begin

text \<open>
  The stages one event goes through, in the order of \<open>src/pipeline/orchestrator.rs\<close> (one task per
  table) and in the order of \<open>src/pipeline/parallel_processor.rs\<close> (parallel workers), and the
  conversion of an event for the dead letter queue. \<open>None\<close> is a panic.
\<close>

section \<open>The two pipelines\<close>

text \<open>The stages configured for a table, and the texts the transformer needs.\<close>

record stages =
  sg_filter :: "filter_config option"
  sg_transformer :: "transform_config option"
  sg_mapper :: "mapping_config option"
  sg_soft_delete :: "soft_delete_config option"

record texts =
  tt_json :: "json \<Rightarrow> string"
  tt_unicode :: unicode_tables
  tt_now :: string

text \<open>Each stage on an event; an error is logged and drops the event.\<close>

definition filter_stage :: "stages \<Rightarrow> stream_event \<Rightarrow> stream_event option" where
  "filter_stage sg event =
     (case sg_filter sg of
        None \<Rightarrow> Some event
      | Some f \<Rightarrow> (case should_process f event of Inr True \<Rightarrow> Some event | _ \<Rightarrow> None))"

definition transform_stage :: "texts \<Rightarrow> stages \<Rightarrow> stream_event \<Rightarrow> stream_event option option" where
  "transform_stage tx sg event =
     (case sg_transformer sg of
        None \<Rightarrow> Some (Some event)
      | Some t \<Rightarrow>
          map_option (\<lambda>r. case r of Inr transformed \<Rightarrow> transformed | Inl _ \<Rightarrow> None)
            (transform_stream_event (tt_json tx) (tt_unicode tx) (tt_now tx) t event))"

definition mapper_stage :: "texts \<Rightarrow> stages \<Rightarrow> stream_event \<Rightarrow> stream_event option" where
  "mapper_stage tx sg event =
     (case sg_mapper sg of
        None \<Rightarrow> Some event
      | Some m \<Rightarrow> (case map_event (tt_json tx) m event of Inr mapped \<Rightarrow> Some mapped | Inl _ \<Rightarrow> None))"

definition soft_delete_stage :: "stages \<Rightarrow> stream_event \<Rightarrow> stream_event option" where
  "soft_delete_stage sg event =
     (case sg_soft_delete sg of None \<Rightarrow> Some event | Some sd \<Rightarrow> transform_event sd event)"

text \<open>Run a stage on what the previous one left.\<close>

definition and_then ::
  "stream_event option option \<Rightarrow> (stream_event \<Rightarrow> stream_event option option) \<Rightarrow> stream_event option option" where
  "and_then r f = (case r of None \<Rightarrow> None | Some None \<Rightarrow> Some None | Some (Some e) \<Rightarrow> f e)"

definition process_single_event :: "texts \<Rightarrow> stages \<Rightarrow> stream_event \<Rightarrow> stream_event option option" where
  "process_single_event tx sg event =
     and_then (and_then (and_then (Some (filter_stage sg event))
       (transform_stage tx sg)) (\<lambda>e. Some (mapper_stage tx sg e))) (\<lambda>e. Some (soft_delete_stage sg e))"

definition parallel_single_event :: "texts \<Rightarrow> stages \<Rightarrow> stream_event \<Rightarrow> stream_event option option" where
  "parallel_single_event tx sg event =
     and_then (and_then (and_then (Some (filter_stage sg event))
       (\<lambda>e. Some (soft_delete_stage sg e))) (transform_stage tx sg)) (\<lambda>e. Some (mapper_stage tx sg e))"

section \<open>Conversion for the dead letter queue\<close>

definition object_id :: "json \<Rightarrow> json" where
  "object_id row = (case json_get row ''id'' of Some v \<Rightarrow> v | None \<Rightarrow> Null)"

definition models_event ::
  "string \<Rightarrow> time \<Rightarrow> event_type \<Rightarrow> string \<Rightarrow> string \<Rightarrow> event_data \<Rightarrow> event" where
  "models_event uuid now t schema table data =
     \<lparr>ev_id = uuid, ev_event_type = t,
      ev_source = \<lparr>es_database = [], es_schema = schema, es_table = table\<rparr>, ev_data = data,
      ev_metadata = \<lparr>em_transaction_id = None, em_position = [], em_custom = []\<rparr>, ev_timestamp = now\<rparr>"

fun convert_to_models_event :: "string \<Rightarrow> time \<Rightarrow> stream_event \<Rightarrow> event option" where
  "convert_to_models_event uuid now (EvCdc cdc) =
     Some (models_event uuid now (cdc_event_type cdc) (cdc_schema cdc) (cdc_table cdc)
       \<lparr>ed_key = (case hm_get (cdc_data cdc) ''id'' of Some v \<Rightarrow> v | None \<Rightarrow> Null),
        ed_old = None, ed_new = Some (cdc_data cdc)\<rparr>)"
| "convert_to_models_event uuid now (EvInsert table new_data position) =
     map_option (\<lambda>obj. models_event uuid now EtCreate ''public'' table
       \<lparr>ed_key = object_id new_data, ed_old = None, ed_new = Some obj\<rparr>) (json_as_object new_data)"
| "convert_to_models_event uuid now (EvUpdate table old_data new_data position) =
     map_option (\<lambda>obj. models_event uuid now EtUpdate ''public'' table
       \<lparr>ed_key = object_id new_data, ed_old = json_as_object old_data, ed_new = Some obj\<rparr>)
       (json_as_object new_data)"
| "convert_to_models_event uuid now (EvDelete table old_data position) =
     map_option (\<lambda>obj. models_event uuid now EtDelete ''public'' table
       \<lparr>ed_key = object_id old_data, ed_old = Some obj, ed_new = None\<rparr>) (json_as_object old_data)"
| "convert_to_models_event uuid now (EvFullSync table data) =
     map_option (\<lambda>obj. models_event uuid now EtCreate ''public'' table
       \<lparr>ed_key = object_id data, ed_old = None, ed_new = Some obj\<rparr>) (json_as_object data)"
| "convert_to_models_event uuid now (EvCheckpoint position) =
     Some (models_event uuid now EtCreate ''system'' ''control''
       \<lparr>ed_key = Null, ed_old = None, ed_new = None\<rparr>)"
| "convert_to_models_event uuid now EvHeartbeat =
     Some (models_event uuid now EtCreate ''system'' ''control''
       \<lparr>ed_key = Null, ed_old = None, ed_new = None\<rparr>)"

section \<open>Well-formed events\<close>

text \<open>A row of a change is a map; a row of a synchronisation is an object in key order.\<close>

definition row_ok :: "json \<Rightarrow> bool" where
  "row_ok row \<longleftrightarrow>
     (case row of Object obj \<Rightarrow> sorted (map fst obj) \<and> distinct (map fst obj) | _ \<Rightarrow> True)"

fun event_ok :: "stream_event \<Rightarrow> bool" where
  "event_ok (EvCdc cdc) = hm_ok (cdc_data cdc)"
| "event_ok (EvFullSync table data) = row_ok data"
| "event_ok (EvInsert table new_data position) = row_ok new_data"
| "event_ok (EvUpdate table old_data new_data position) = (row_ok old_data \<and> row_ok new_data)"
| "event_ok (EvDelete table old_data position) = row_ok old_data"
| "event_ok (EvCheckpoint position) = True"
| "event_ok EvHeartbeat = True"

lemma row_ok_fields: "hm_ok m \<Longrightarrow> row_ok (json_of_fields m)"
  by (auto simp: row_ok_def json_of_fields_def hm_ok_def distinct_map)

lemma row_ok_object: "row_ok row \<Longrightarrow> json_as_object row = Some obj \<Longrightarrow> hm_ok obj"
  by (cases row) (auto simp: row_ok_def hm_ok_def)

lemma hm_ok_fold: "(\<And>x m. hm_ok m \<Longrightarrow> hm_ok (f x m)) \<Longrightarrow> hm_ok m \<Longrightarrow> hm_ok (fold f xs m)"
  by (induction xs arbitrary: m) auto

lemma hm_ok_foldl: "(\<And>x m. hm_ok m \<Longrightarrow> hm_ok (f m x)) \<Longrightarrow> hm_ok m \<Longrightarrow> hm_ok (foldl f m xs)"
  by (induction xs arbitrary: m) auto

lemma map_sum_Inr [simp]: "map_sum id f r = Inr y \<longleftrightarrow> (\<exists>x. r = Inr x \<and> y = f x)"
  by (cases r) auto

lemma transform_step_ok:
  "transform_step jt u t data res = Some (Inr (data', res')) \<Longrightarrow> hm_ok data \<Longrightarrow> hm_ok res \<Longrightarrow>
   hm_ok data' \<and> hm_ok res'"
  by (cases t) (auto split: option.splits sum.splits)

lemma transform_loop_ok:
  "transform_loop jt u ts data res = Some (Inr (data', res')) \<Longrightarrow> hm_ok data \<Longrightarrow> hm_ok res \<Longrightarrow>
   hm_ok data' \<and> hm_ok res'"
proof (induction ts arbitrary: data res)
  case (Cons t ts)
  then obtain d r where "transform_step jt u t data res = Some (Inr (d, r))"
      "transform_loop jt u ts d r = Some (Inr (data', res'))"
    by (auto split: option.splits sum.splits)
  with Cons transform_step_ok show ?case by blast
qed simp

lemma transform_fields_ok:
  "transform_fields jt u data fc = Some (Inr m) \<Longrightarrow> hm_ok data \<Longrightarrow> hm_ok m"
  by (auto simp: transform_fields_def or_insert_def dest!: transform_loop_ok intro!: hm_ok_fold)

lemma apply_transform_ok: "hm_ok data \<Longrightarrow> hm_ok (apply_transform u now data t)"
  by (cases t) (auto intro!: hm_ok_fold simp: map_string_field_def split: option.splits json.splits)

lemma transform_stream_event_ok:
  assumes "transform_stream_event jt u now config e = Some (Inr (Some e'))" and "event_ok e"
  shows "event_ok e'"
proof (cases e)
  case (EvCdc cdc)
  with assms show ?thesis
    by (auto split: option.splits intro!: hm_ok_foldl apply_transform_ok dest: transform_fields_ok)
next
  case (EvFullSync table data)
  have "row_ok (json_of_fields m)"
    if "json_as_object data = Some obj" "transform_fields jt u obj fc = Some (Inr m)" for obj fc m
    using that assms(2) EvFullSync row_ok_object transform_fields_ok row_ok_fields by simp
  with EvFullSync assms show ?thesis by (auto split: option.splits)
qed (use assms in auto)

lemma mapping_step_ok: "hm_ok (fst r) \<Longrightarrow> hm_ok (fst (mapping_step jt data f fm r))"
  by (cases r; cases fm) (auto simp: Let_def split: option.splits)

lemma map_fields_ok: "hm_ok (map_fields jt config data fms)"
proof -
  have "hm_ok (fst (fold (\<lambda>(f, fm). mapping_step jt data f fm) fms r))" if "hm_ok (fst r)" for r
    using that
  proof (induction fms arbitrary: r)
    case (Cons x fms)
    show ?case unfolding fold.simps comp_apply
      by (rule Cons.IH) (cases x; simp only: prod.case mapping_step_ok Cons.prems)
  qed simp
  from this [of "([], [])"] show ?thesis
    by (auto simp: map_fields_def Let_def include_unmapped_def prefix_unmapped_def
        split: prod.splits intro!: hm_ok_fold)
qed

lemma map_event_ok:
  assumes "map_event jt config e = Inr e'" and "event_ok e"
  shows "event_ok e'"
proof (cases e)
  case (EvCdc cdc)
  with assms show ?thesis by (auto split: option.splits intro: map_fields_ok)
next
  case (EvFullSync table data)
  with assms show ?thesis by (auto simp: row_ok_fields map_fields_ok split: option.splits)
qed (use assms in auto)

lemma transform_event_ok: "transform_event config e = Some e' \<Longrightarrow> event_ok e \<Longrightarrow> event_ok e'"
  by (cases e) (auto split: if_splits intro: row_ok_fields)

lemma kept_result: "(case r of Inr x \<Rightarrow> x | Inl e \<Rightarrow> None) = Some y \<longleftrightarrow> r = Inr (Some y)"
  by (cases r) auto

lemma stage_ok:
  "filter_stage sg e = Some e' \<Longrightarrow> event_ok e \<Longrightarrow> event_ok e'"
  "transform_stage tx sg e = Some (Some e') \<Longrightarrow> event_ok e \<Longrightarrow> event_ok e'"
  "mapper_stage tx sg e = Some e' \<Longrightarrow> event_ok e \<Longrightarrow> event_ok e'"
  "soft_delete_stage sg e = Some e' \<Longrightarrow> event_ok e \<Longrightarrow> event_ok e'"
proof -
  show "transform_stage tx sg e = Some (Some e') \<Longrightarrow> event_ok e \<Longrightarrow> event_ok e'"
    by (cases "sg_transformer sg")
      (auto simp: transform_stage_def kept_result elim: transform_stream_event_ok)
qed (auto simp: filter_stage_def mapper_stage_def soft_delete_stage_def
      split: option.splits sum.splits bool.splits intro: map_event_ok transform_event_ok)

lemma and_then_Some: "and_then r f = Some (Some e) \<longleftrightarrow> (\<exists>d. r = Some (Some d) \<and> f d = Some (Some e))"
  by (auto simp: and_then_def split: option.splits)


definition plain_texts :: texts where
  "plain_texts = \<lparr>tt_json = (\<lambda>v. []), tt_unicode = ascii_tables, tt_now = []\<rparr>"

text \<open>A mapper that renames \<open>is_deleted\<close> before or after the soft-delete handler looks for it.\<close>

definition renaming_stages :: stages where
  "renaming_stages =
     \<lparr>sg_filter = None, sg_transformer = None,
      sg_mapper = Some \<lparr>mc_tables = [(''users'', \<lparr>tb_name = None,
          tb_fields = Some [(''is_deleted'', FmSimple ''deleted'')]\<rparr>)],
        mc_unmapped_fields_strategy = ''include'', mc_unmapped_fields_prefix = None\<rparr>,
      sg_soft_delete = Some \<lparr>sd_field = ''is_deleted'', sd_delete_values = [Bool True],
        sd_handle_on_full_sync = True, sd_handle_on_cdc = True\<rparr>\<rparr>"

definition user_update :: cdc_event where
  "user_update = \<lparr>cdc_event_type = EtUpdate, cdc_table = ''users'', cdc_schema = ''public'',
     cdc_data = [(''id'', String ''7''), (''is_deleted'', Bool True)], cdc_timestamp = 0, cdc_position = None\<rparr>"


text \<open>
  C24. The two pipelines agree on every event of a table without a soft-delete handler, or with
  neither transformer nor mapper. Otherwise they need not: the parallel one looks for the soft
  delete in the source row, the other one in the row already transformed and renamed, where the
  field may be gone, so the same configuration deletes a row or keeps it depending on
  \<open>parallel_processing.enabled\<close>.
\<close>

theorem pipelines_agree_unless_soft_delete:
  "(sg_soft_delete sg = None \<or> sg_transformer sg = None \<and> sg_mapper sg = None \<longrightarrow>
      parallel_single_event tx sg e = process_single_event tx sg e) \<and>
   (\<exists>t d p. parallel_single_event plain_texts renaming_stages (EvCdc user_update) = Some (Some (EvDelete t d p))) \<and>
   (\<exists>c. process_single_event plain_texts renaming_stages (EvCdc user_update) = Some (Some (EvCdc c)))"
proof (intro conjI impI)
  assume "sg_soft_delete sg = None \<or> sg_transformer sg = None \<and> sg_mapper sg = None"
  then show "parallel_single_event tx sg e = process_single_event tx sg e"
    by (auto simp: parallel_single_event_def process_single_event_def and_then_def soft_delete_stage_def
        transform_stage_def mapper_stage_def split: option.splits)
qed (simp_all add: process_single_event_def parallel_single_event_def and_then_def filter_stage_def
    transform_stage_def mapper_stage_def soft_delete_stage_def renaming_stages_def user_update_def
    soft_deletes_def is_soft_deleted_def map_fields_def include_unmapped_def hm_contains_key_def)

theorem pipelines_agree_unless_soft_delete_witness:
  "parallel_single_event plain_texts \<lparr>sg_filter = None, sg_transformer = None, sg_mapper = None,
     sg_soft_delete = None\<rparr> EvHeartbeat =
   process_single_event plain_texts \<lparr>sg_filter = None, sg_transformer = None, sg_mapper = None,
     sg_soft_delete = None\<rparr> EvHeartbeat"
  using pipelines_agree_unless_soft_delete [of "\<lparr>sg_filter = None, sg_transformer = None, sg_mapper = None,
     sg_soft_delete = None\<rparr>" plain_texts EvHeartbeat] by simp

end
