(* ===== verification/Delivery.thy ===== *)
theory Delivery
  imports TwoPhase Dlq Destination Stages ConfigCheck
begin

text \<open>
  Batches on their way to the destination: the destination processor, \<open>process_batch\<close>,
  \<open>process_batch_with_at_least_once\<close> and \<open>process_event_stream\<close> of
  \<open>src/pipeline/orchestrator.rs\<close>. The clock, the fresh identifiers and the texts of JSON values and
  times are arguments. A panic of the task is \<open>None\<close>.
\<close>

section \<open>The destination processor\<close>

datatype destination_command =
    ProcessEvents "stream_event list"
  | ImportData string "json list" "string option"
  | EnsureIndex string "string option"
  | HealthCheck
  | Shutdown

type_synonym destination_response = sync_result

text \<open>What the sender of a command learns.\<close>

datatype answer = SendFailed | NoResponse | Answered "destination_response result"

record 'w destination =
  dn_running :: bool
  dn_adapter :: meili_adapter
  dn_world :: 'w

record 'w destination_env =
  dx_environment :: "'w environment"
  dx_unicode :: unicode_tables
  dx_iterate :: "(string, stream_event list) hmap \<Rightarrow> (string \<times> stream_event list) list"
  dx_timing :: "nat \<Rightarrow> time \<times> u64"
  dx_bytes :: "json list \<Rightarrow> nat option"
  dx_now :: time
  dx_pressure :: f64

definition response_of :: "nat \<Rightarrow> nat \<Rightarrow> string list \<Rightarrow> destination_response" where
  "response_of ok failed errors =
     \<lparr>sy_success_count = ok, sy_failed_count = failed, sy_last_position = None, sy_errors = errors\<rparr>"

text \<open>Connecting; the processor ends when that fails.\<close>

definition destination_start ::
  "'w destination_env \<Rightarrow> config \<Rightarrow> adaptive_manager option \<Rightarrow> (sdk_error + unit) \<Rightarrow> 'w \<Rightarrow> 'w destination" where
  "destination_start dx c adaptive created w =
     (let base = meili_adapter_new (cf_meilisearch c) (build_table_index_map (dx_unicode dx) (cf_sync_tasks c));
          a = (case adaptive of None \<Rightarrow> base | Some m \<Rightarrow> with_adaptive_batching m (cf_performance c) base)
      in case connect (dx_environment dx) created a w of
           (Inl e, a1, w1) \<Rightarrow> \<lparr>dn_running = False, dn_adapter = a1, dn_world = w1\<rparr>
         | (Inr _, a1, w1) \<Rightarrow> \<lparr>dn_running = True, dn_adapter = a1, dn_world = w1\<rparr>)"

text \<open>One command; after the panic of an import the task is gone and the sender gets no response.\<close>

definition destination_step ::
  "'w destination_env \<Rightarrow> destination_command \<Rightarrow> 'w destination \<Rightarrow> answer \<times> 'w destination" where
  "destination_step dx cmd d =
     (if \<not> dn_running d then (SendFailed, d)
      else case cmd of
        ProcessEvents events \<Rightarrow>
          (case process_events (dx_environment dx) (dx_unicode dx) (dx_iterate dx) events (dn_adapter d) (dn_world d) of
             (r, a, w) \<Rightarrow> (Answered r, d\<lparr>dn_adapter := a, dn_world := w\<rparr>))
      | ImportData index documents primary_key \<Rightarrow>
          (case import_data (dx_environment dx) (dx_timing dx) (dx_bytes dx) (dx_now dx) (dx_pressure dx) index
                  documents primary_key (dn_adapter d) (dn_world d) of
             Some (r, a, w) \<Rightarrow> (Answered r, d\<lparr>dn_adapter := a, dn_world := w\<rparr>)
           | None \<Rightarrow> (NoResponse, d\<lparr>dn_running := False\<rparr>))
      | EnsureIndex index_name primary_key \<Rightarrow>
          (case ensure_index (dx_environment dx) index_name (dn_adapter d) (dn_world d) of
             (Inr _, w) \<Rightarrow> (Answered (Inr (response_of 1 0 [])), d\<lparr>dn_world := w\<rparr>)
           | (Inl e, w) \<Rightarrow> (Answered (Inl e), d\<lparr>dn_world := w\<rparr>))
      | HealthCheck \<Rightarrow>
          (case adapter_health_check (dx_environment dx) (dn_adapter d) (dn_world d) of
             (r, w) \<Rightarrow> (Answered (Inr (if r = Inr True then response_of 1 0 []
                          else response_of 0 1 [''Health check failed''])), d\<lparr>dn_world := w\<rparr>))
      | Shutdown \<Rightarrow>
          (NoResponse, d\<lparr>dn_running := False, dn_adapter := snd (disconnect (dn_adapter d))\<rparr>))"

definition deliver_to ::
  "'w destination_env \<Rightarrow> stream_event list \<Rightarrow> 'w destination \<Rightarrow> answer \<times> 'w destination" where
  "deliver_to dx events = destination_step dx (ProcessEvents events)"

section \<open>The state of a sync task\<close>

text \<open>
  The checkpoint handler of the coordinator and the transactional checkpoint of the task are one
  shared object, here \<open>dy_checkpoint\<close>; \<open>dy_attached\<close> tells whether the coordinator has it yet.
\<close>

record ('s, 'd, 'q) delivery =
  dy_manager :: "'s alo_manager"
  dy_checkpoint :: "'s txn_ckpt"
  dy_attached :: bool
  dy_checkpoints :: "(string, position) hmap"
  dy_destination :: 'd
  dy_dlq :: 'q

record ('s, 'd, 'q) delivery_env =
  ev_storage :: "'s storage_ops"
  ev_json :: "json \<Rightarrow> string"
  ev_time :: "time \<Rightarrow> string"
  ev_uuid :: "nat \<Rightarrow> string"
  ev_now :: time
  ev_deliver :: "stream_event list \<Rightarrow> 'd \<Rightarrow> answer \<times> 'd"
  ev_dlq :: "'q dlq_ops option"

definition manager_call ::
  "('s alo_manager \<Rightarrow> 'a \<times> 's alo_manager) \<Rightarrow> ('s, 'd, 'q) delivery \<Rightarrow> 'a \<times> ('s, 'd, 'q) delivery" where
  "manager_call f s =
     (let m = dy_manager s;
          handler = (if dy_attached s then Some (dy_checkpoint s) else None);
          (r, m1) = f (m\<lparr>am_coordinator := (am_coordinator m)\<lparr>co_checkpoint_handler := handler\<rparr>\<rparr>)
      in (r, s\<lparr>dy_manager := m1,
               dy_checkpoint := (case co_checkpoint_handler (am_coordinator m1) of
                  Some h \<Rightarrow> if dy_attached s then h else dy_checkpoint s
                | None \<Rightarrow> dy_checkpoint s)\<rparr>))"

definition checkpoint_call ::
  "('s txn_ckpt \<Rightarrow> 'a \<times> 's txn_ckpt) \<Rightarrow> ('s, 'd, 'q) delivery \<Rightarrow> 'a \<times> ('s, 'd, 'q) delivery" where
  "checkpoint_call f s = (case f (dy_checkpoint s) of (r, c) \<Rightarrow> (r, s\<lparr>dy_checkpoint := c\<rparr>))"

section \<open>Batches with at-least-once delivery\<close>

text \<open>The events that are no duplicates, each marked as processed when it is taken.\<close>

fun take_fresh :: "(json \<Rightarrow> string) \<Rightarrow> stream_event list \<Rightarrow> 's alo_manager \<Rightarrow> stream_event list \<times> 's alo_manager" where
  "take_fresh show [] m = ([], m)"
| "take_fresh show (e # es) m =
     (let key = create_dedup_key_from_event show e in
      if alo_is_duplicate m key = Inr False then
        (case take_fresh show es (snd (alo_mark_processed key m)) of (fresh, m1) \<Rightarrow> (e # fresh, m1))
      else take_fresh show es m)"

text \<open>Roll back the checkpoint, then the manager.\<close>

definition roll_back ::
  "('s, 'd, 'q) delivery_env \<Rightarrow> string \<Rightarrow> ('s, 'd, 'q) delivery \<Rightarrow> unit result \<times> ('s, 'd, 'q) delivery" where
  "roll_back env tid s =
     (case checkpoint_call (txn_rollback (ev_storage env) tid) s of
        (Inl e, s1) \<Rightarrow> (Inl e, s1)
      | (Inr _, s1) \<Rightarrow> manager_call (alo_rollback (ev_storage env) tid) s1)"

text \<open>The error of a batch, unless rolling back fails.\<close>

definition fail_batch ::
  "('s, 'd, 'q) delivery_env \<Rightarrow> string \<Rightarrow> error \<Rightarrow> ('s, 'd, 'q) delivery \<Rightarrow> unit result \<times> ('s, 'd, 'q) delivery" where
  "fail_batch env tid err s =
     (case roll_back env tid s of (Inl e, s1) \<Rightarrow> (Inl e, s1) | (Inr _, s1) \<Rightarrow> (Inl err, s1))"

text \<open>The i-th error is stored with the i-th event of the batch.\<close>

fun dead_letter ::
  "('s, 'd, 'q) delivery_env \<Rightarrow> 'q dlq_ops \<Rightarrow> string \<Rightarrow> stream_event list \<Rightarrow> nat \<Rightarrow> string list \<Rightarrow> 'q \<Rightarrow> 'q option" where
  "dead_letter env ops task_id events i [] q = Some q"
| "dead_letter env ops task_id events i (err # errs) q =
     (if i < length events then
        (case convert_to_models_event (ev_uuid env (3 + 2 * i)) (ev_now env) (events ! i) of
           None \<Rightarrow> None
         | Some event \<Rightarrow>
             dead_letter env ops task_id events (Suc i) errs
               (snd (add_failed_event ops (ev_uuid env (2 + 2 * i)) (ev_now env) task_id event (Pipeline err) 0 q)))
      else dead_letter env ops task_id events (Suc i) errs q)"

definition dead_letter_all ::
  "('s, 'd, 'q) delivery_env \<Rightarrow> string \<Rightarrow> stream_event list \<Rightarrow> string list \<Rightarrow> ('s, 'd, 'q) delivery \<Rightarrow>
     ('s, 'd, 'q) delivery option" where
  "dead_letter_all env task_id events errs s =
     (case ev_dlq env of
        None \<Rightarrow> Some s
      | Some ops \<Rightarrow>
          map_option (\<lambda>q. s\<lparr>dy_dlq := q\<rparr>) (dead_letter env ops task_id events 0 errs (dy_dlq s)))"

text \<open>What the response does to the transaction; \<open>fresh\<close> are the events that were sent.\<close>

definition settle ::
  "('s, 'd, 'q) delivery_env \<Rightarrow> string \<Rightarrow> string \<Rightarrow> position \<Rightarrow> stream_event list \<Rightarrow> answer \<Rightarrow>
     ('s, 'd, 'q) delivery \<Rightarrow> (unit result \<times> ('s, 'd, 'q) delivery) option" where
  "settle env task_id tid position fresh a s =
     (case a of
        Answered (Inr response) \<Rightarrow>
          if sy_failed_count response = 0 then
            (case checkpoint_call (txn_commit (ev_storage env) (ev_time env) tid (ev_now env)) s of
               (Inl e, s1) \<Rightarrow> Some (Inl e, s1)
             | (Inr _, s1) \<Rightarrow>
                 (case manager_call (alo_commit (ev_storage env) (ev_time env) tid (ev_now env)) s1 of
                    (Inl e, s2) \<Rightarrow> Some (Inl e, s2)
                  | (Inr _, s2) \<Rightarrow>
                      Some (Inr (), s2\<lparr>dy_checkpoints := hm_insert task_id position (dy_checkpoints s2)\<rparr>)))
          else
            (case roll_back env tid s of
               (Inl e, s1) \<Rightarrow> Some (Inl e, s1)
             | (Inr _, s1) \<Rightarrow>
                 map_option (\<lambda>s2. (Inl (Pipeline (''Batch processing failed with '' @
                     show_nat (sy_failed_count response) @ '' errors'')), s2))
                   (dead_letter_all env task_id fresh (sy_errors response) s1))
      | Answered (Inl e) \<Rightarrow> Some (fail_batch env tid e s)
      | NoResponse \<Rightarrow> Some (fail_batch env tid (Pipeline ''No response from destination'') s)
      | SendFailed \<Rightarrow> Some (fail_batch env tid (Pipeline ''Send failed: channel closed'') s))"

text \<open>The result, the batch afterwards, and the state.\<close>

definition process_batch_with_at_least_once ::
  "('s, 'd, 'q) delivery_env \<Rightarrow> string \<Rightarrow> stream_event list \<Rightarrow> ('s, 'd, 'q) delivery \<Rightarrow>
     (unit result \<times> stream_event list \<times> ('s, 'd, 'q) delivery) option" where
  "process_batch_with_at_least_once env task_id batch s =
     (case extract_position_from_event (last batch) of
        None \<Rightarrow> Some (Inr (), [], s)
      | Some position \<Rightarrow>
          (case manager_call (alo_begin_transaction task_id (ev_uuid env 0) (ev_now env)) s of
             (Inl e, s1) \<Rightarrow> Some (Inl e, batch, s1)
           | (Inr tid, s1) \<Rightarrow>
               (case checkpoint_call (txn_begin tid task_id position (ev_now env)) s1 of
                  (Inl e, s2) \<Rightarrow> Some (Inl e, batch, s2)
                | (Inr _, s2) \<Rightarrow>
                    (case manager_call (take_fresh (ev_json env) batch) s2 of
                       (fresh, s3) \<Rightarrow>
                         if fresh = [] then Some (Inr (), [], s3)
                         else (case checkpoint_call (txn_prepare (ev_storage env) tid (ev_uuid env 1) (ev_now env)) s3 of
                             (Inl e, s4) \<Rightarrow> Some (Inl e, batch, s4)
                           | (Inr False, s4) \<Rightarrow>
                               (case manager_call (alo_rollback (ev_storage env) tid) s4 of
                                  (Inl e, s5) \<Rightarrow> Some (Inl e, batch, s5)
                                | (Inr _, s5) \<Rightarrow> Some (Inl (Pipeline ''Transaction prepare failed''), batch, s5))
                           | (Inr True, s4) \<Rightarrow>
                               (case ev_deliver env fresh (dy_destination s4) of
                                  (a, d) \<Rightarrow>
                                    map_option (\<lambda>(r, s5). (r, case r of Inr _ \<Rightarrow> [] | Inl _ \<Rightarrow> batch, s5))
                                      (settle env task_id tid position fresh a (s4\<lparr>dy_destination := d\<rparr>))))))))"

section \<open>Batches without it\<close>

definition advance_checkpoint ::
  "string \<Rightarrow> position option \<Rightarrow> ('s, 'd, 'q) delivery \<Rightarrow> ('s, 'd, 'q) delivery" where
  "advance_checkpoint task_id p s =
     (case p of
        None \<Rightarrow> s
      | Some position \<Rightarrow> s\<lparr>dy_checkpoints := hm_insert task_id position (dy_checkpoints s)\<rparr>)"

definition process_batch_standard ::
  "('s, 'd, 'q) delivery_env \<Rightarrow> string \<Rightarrow> stream_event list \<Rightarrow> ('s, 'd, 'q) delivery \<Rightarrow>
     (stream_event list \<times> ('s, 'd, 'q) delivery) option" where
  "process_batch_standard env task_id batch s =
     (case ev_deliver env batch (dy_destination s) of
        (a, d) \<Rightarrow>
          (let s1 = s\<lparr>dy_destination := d\<rparr> in
           case a of
             Answered (Inr response) \<Rightarrow>
               map_option (\<lambda>s2. ([], advance_checkpoint task_id (sy_last_position response) s2))
                 (if sy_failed_count response = 0 then Some s1
                  else dead_letter_all env task_id batch (sy_errors response) s1)
           | _ \<Rightarrow> Some ([], s1)))"

text \<open>\<open>at_least_once\<close> tells whether both of its components were started.\<close>

definition process_batch ::
  "('s, 'd, 'q) delivery_env \<Rightarrow> bool \<Rightarrow> string \<Rightarrow> stream_event list \<Rightarrow> ('s, 'd, 'q) delivery \<Rightarrow>
     (stream_event list \<times> ('s, 'd, 'q) delivery) option" where
  "process_batch env at_least_once task_id batch s =
     (if batch = [] then Some (batch, s)
      else if at_least_once then map_option snd (process_batch_with_at_least_once env task_id batch s)
      else process_batch_standard env task_id batch s)"

section \<open>The stream of a table\<close>

datatype stream_input =
    Received "stream_event result"
  | TimerTick
  | ShutdownChanged bool

record stream_params =
  pm_texts :: texts
  pm_stages :: stages
  pm_batch_size :: nat
  pm_task_id :: string
  pm_at_least_once :: bool

text \<open>One turn of the loop: the batch, the state, and whether the loop goes on.\<close>

definition stream_step ::
  "('s, 'd, 'q) delivery_env \<Rightarrow> stream_params \<Rightarrow> stream_input \<Rightarrow> stream_event list \<times> ('s, 'd, 'q) delivery \<Rightarrow>
     ((stream_event list \<times> ('s, 'd, 'q) delivery) \<times> bool) option" where
  "stream_step env p inp st =
     (let (batch, s) = st;
          flush = (\<lambda>b. process_batch env (pm_at_least_once p) (pm_task_id p) b s)
      in case inp of
           Received (Inl e) \<Rightarrow> Some (st, True)
         | Received (Inr event) \<Rightarrow>
             (case process_single_event (pm_texts p) (pm_stages p) event of
                None \<Rightarrow> None
              | Some None \<Rightarrow> Some (st, True)
              | Some (Some processed) \<Rightarrow>
                  (let batch1 = batch @ [processed] in
                   if length batch1 \<ge> pm_batch_size p then map_option (\<lambda>r. (r, True)) (flush batch1)
                   else Some ((batch1, s), True)))
         | TimerTick \<Rightarrow> map_option (\<lambda>r. (r, True)) (flush batch)
         | ShutdownChanged down \<Rightarrow>
             if down then map_option (\<lambda>r. (r, False)) (flush batch) else Some (st, True))"

fun process_event_stream ::
  "(nat \<Rightarrow> ('s, 'd, 'q) delivery_env) \<Rightarrow> stream_params \<Rightarrow> nat \<Rightarrow> stream_input list \<Rightarrow>
     stream_event list \<times> ('s, 'd, 'q) delivery \<Rightarrow> (stream_event list \<times> ('s, 'd, 'q) delivery) option" where
  "process_event_stream env p i [] st = Some st"
| "process_event_stream env p i (x # xs) st =
     (case stream_step (env i) p x st of
        None \<Rightarrow> None
      | Some (st1, True) \<Rightarrow> process_event_stream env p (Suc i) xs st1
      | Some (st1, False) \<Rightarrow> Some st1)"

section \<open>Full synchronisation\<close>

text \<open>\<open>send\<close> carries a command to the destination processor, if there is one.\<close>

definition import_documents ::
  "(destination_command \<Rightarrow> 'd \<Rightarrow> answer \<times> 'd) option \<Rightarrow> string \<Rightarrow> json list \<Rightarrow> string option \<Rightarrow> 'd \<Rightarrow>
     unit result \<times> json list \<times> 'd" where
  "import_documents send index documents primary_key d =
     (case send of
        None \<Rightarrow> (Inl (Pipeline ''Destination not started''), documents, d)
      | Some send_command \<Rightarrow>
          (case send_command (ImportData index documents primary_key) d of
             (SendFailed, d1) \<Rightarrow> (Inl (Pipeline ''Failed to send to destination''), documents, d1)
           | (Answered (Inr response), d1) \<Rightarrow> (Inr (), [], d1)
           | (Answered (Inl e), d1) \<Rightarrow> (Inl e, documents, d1)
           | (NoResponse, d1) \<Rightarrow> (Inl (Pipeline ''No response from destination''), documents, d1)))"

text \<open>The loop over the rows of the table; a read error is logged and skipped. The count is
  that of the documents imported or waiting.\<close>

fun full_sync_loop ::
  "(destination_command \<Rightarrow> 'd \<Rightarrow> answer \<times> 'd) option \<Rightarrow> texts \<Rightarrow> stages \<Rightarrow> sync_task_config \<Rightarrow>
     json result list \<Rightarrow> json list \<Rightarrow> nat \<Rightarrow> 'd \<Rightarrow> (nat result \<times> json list \<times> 'd) option" where
  "full_sync_loop send tx sg task [] documents n d = Some (Inr n, documents, d)"
| "full_sync_loop send tx sg task (Inl e # rows) documents n d =
     full_sync_loop send tx sg task rows documents n d"
| "full_sync_loop send tx sg task (Inr row # rows) documents n d =
     (case process_single_event tx sg (EvFullSync (st_table task) row) of
        None \<Rightarrow> None
      | Some (Some (EvFullSync table data)) \<Rightarrow>
          (let docs = documents @ [data] in
           if length docs \<ge> so_batch_size (st_options task) then
             (case import_documents send (st_index task) docs (Some (st_primary_key task)) d of
                (Inl e, docs1, d1) \<Rightarrow> Some (Inl e, docs1, d1)
              | (Inr _, docs1, d1) \<Rightarrow> full_sync_loop send tx sg task rows docs1 (Suc n) d1)
           else full_sync_loop send tx sg task rows docs (Suc n) d)
      | Some _ \<Rightarrow> full_sync_loop send tx sg task rows documents n d)"

text \<open>\<open>rows\<close> is what the source's stream yields, or why there is none.\<close>

definition perform_full_sync ::
  "(destination_command \<Rightarrow> 'd \<Rightarrow> answer \<times> 'd) option \<Rightarrow> texts \<Rightarrow> stages \<Rightarrow> sync_task_config \<Rightarrow>
     json result list result option \<Rightarrow> 'd \<Rightarrow> (unit result \<times> 'd) option" where
  "perform_full_sync send tx sg task source d =
     (case source of
        None \<Rightarrow> Some (Inl (Pipeline (''Source adapter '' @ quoted (st_source_name task) @ '' not found'')), d)
      | Some (Inl e) \<Rightarrow> Some (Inl e, d)
      | Some (Inr rows) \<Rightarrow>
          (case full_sync_loop send tx sg task rows [] 0 d of
             None \<Rightarrow> None
           | Some (Inl e, docs, d1) \<Rightarrow> Some (Inl e, d1)
           | Some (Inr n, docs, d1) \<Rightarrow>
               if docs = [] then Some (Inr (), d1)
               else (case import_documents send (st_index task) docs (Some (st_primary_key task)) d1 of
                       (r, docs1, d2) \<Rightarrow> Some (r, d2))))"

section \<open>What a batch may touch\<close>

abbreviation two_phase_of :: "('s, 'd, 'q) delivery \<Rightarrow> two_phase" where
  "two_phase_of s \<equiv> co_two_phase (am_coordinator (dy_manager s))"

abbreviation dedup_of :: "('s, 'd, 'q) delivery \<Rightarrow> deduplicator" where
  "dedup_of s \<equiv> am_deduplicator (dy_manager s)"

definition tp_ids :: "two_phase \<Rightarrow> string set" where
  "tp_ids tp = dom (hm_get (tp_transactions tp))"

definition txn_ids :: "'s txn_ckpt \<Rightarrow> string set" where
  "txn_ids c = ct_transaction_id ` set (tx_transactions c)"

text \<open>Only the transaction \<open>tid\<close> is entered, and neither the deduplicator nor the configuration changes.\<close>

definition touches :: "string \<Rightarrow> ('s, 'd, 'q) delivery \<Rightarrow> ('s, 'd, 'q) delivery \<Rightarrow> bool" where
  "touches tid s s' \<longleftrightarrow>
     tp_ids (two_phase_of s') \<subseteq> insert tid (tp_ids (two_phase_of s)) \<and>
     txn_ids (dy_checkpoint s') \<subseteq> insert tid (txn_ids (dy_checkpoint s)) \<and>
     am_config (dy_manager s') = am_config (dy_manager s) \<and> dedup_of s' = dedup_of s"

lemma touches_refl [simp]: "touches tid s s"
  by (auto simp: touches_def)

lemma insert_chain: "C \<subseteq> insert x B \<Longrightarrow> B \<subseteq> insert x A \<Longrightarrow> C \<subseteq> insert x A"
  by blast

lemma touches_trans:
  assumes "touches tid s s1" and "touches tid s1 s2"
  shows "touches tid s s2"
  using assms unfolding touches_def by (metis insert_chain)

lemma touches_destination [simp]:
  "touches tid s (s'\<lparr>dy_destination := d\<rparr>) = touches tid s s'"
  "touches tid s (s'\<lparr>dy_dlq := q\<rparr>) = touches tid s s'"
  "touches tid s (s'\<lparr>dy_checkpoints := c\<rparr>) = touches tid s s'"
  by (simp_all add: touches_def)

lemma txn_ids_ops:
  "txn_ids (snd (txn_begin tid task pos now c)) \<subseteq> insert tid (txn_ids c)"
  "txn_ids (snd (txn_prepare ops tid uuid now c)) \<subseteq> txn_ids c"
  "txn_ids (snd (txn_commit ops st tid now c)) \<subseteq> txn_ids c"
  "txn_ids (snd (txn_rollback ops tid c)) \<subseteq> txn_ids c"
proof -
  have upd: "ct_transaction_id ` set (update_first P (\<lambda>t. t\<lparr>ct_prepared := True\<rparr>) ts) = ct_transaction_id ` set ts" for P ts
    by (induction ts) auto
  have rem: "ct_transaction_id ` set (remove_first P ts) \<subseteq> ct_transaction_id ` set ts" for P ts
    using set_remove_first_subset by fastforce
  show "txn_ids (snd (txn_begin tid task pos now c)) \<subseteq> insert tid (txn_ids c)"
    by (auto simp: txn_ids_def txn_begin_def)
  show "txn_ids (snd (txn_prepare ops tid uuid now c)) \<subseteq> txn_ids c"
    by (auto simp: txn_ids_def txn_prepare_def Let_def upd split: option.splits prod.splits sum.splits)
  show "txn_ids (snd (txn_commit ops st tid now c)) \<subseteq> txn_ids c"
    unfolding txn_ids_def txn_commit_def
    by (auto split: option.splits prod.splits sum.splits dest: subsetD [OF rem, OF imageI])
  show "txn_ids (snd (txn_rollback ops tid c)) \<subseteq> txn_ids c"
    unfolding txn_ids_def txn_rollback_def Let_def
    by (auto split: option.splits dest: subsetD [OF rem, OF imageI])
qed

lemma checkpoint_call_snd: "snd (checkpoint_call f s) = s\<lparr>dy_checkpoint := snd (f (dy_checkpoint s))\<rparr>"
  by (simp add: checkpoint_call_def split: prod.splits)

lemma checkpoint_call_touches:
  assumes "txn_ids (snd (f (dy_checkpoint s))) \<subseteq> insert tid (txn_ids (dy_checkpoint s))"
    and "checkpoint_call f s = (r, s')"
  shows "touches tid s s'"
  using assms checkpoint_call_snd [of f s] by (auto simp: touches_def)

lemma tp_ops_touch:
  "tp_ids (snd (tp_begin tid task now tp)) \<subseteq> insert tid (tp_ids tp)"
  "tp_ids (snd (tp_commit tid tp)) \<subseteq> insert tid (tp_ids tp)"
  "tp_ids (snd (tp_abort tid tp)) \<subseteq> insert tid (tp_ids tp)"
  by (auto simp: tp_ids_def tp_begin_def tp_commit_def tp_abort_def Let_def hmap_simps
      split: option.splits if_splits)

lemma tp_abort_ok: "fst (tp_abort tid tp) = Inr ()"
  by (simp add: tp_abort_def Let_def)

lemma alo_begin_call:
  assumes "manager_call (alo_begin_transaction task u now) s = (r, s')"
  shows "touches (task @ ''-'' @ u) s s' \<and> dy_checkpoint s' = dy_checkpoint s \<and>
    dy_destination s' = dy_destination s \<and> dy_checkpoints s' = dy_checkpoints s \<and> dy_attached s' = dy_attached s"
    and "al_two_phase_commit (am_config (dy_manager s)) \<Longrightarrow> r = Inr tid \<Longrightarrow>
      tid = task @ ''-'' @ u \<and> tp_state (two_phase_of s') tid = Some Started"
    and "al_two_phase_commit (am_config (dy_manager s)) \<Longrightarrow>
      task @ ''-'' @ u \<notin> tp_ids (two_phase_of s) \<Longrightarrow> r = Inr (task @ ''-'' @ u)"
  using assms
  by (cases "dy_attached s"; auto simp: manager_call_def alo_begin_transaction_def via_coordinator_def
      co_begin_def tp_begin_def touches_def tp_ids_def tp_state_def hm_get_insert hm_contains_key_def Let_def domIff
      split: if_splits)+

lemma alo_rollback_call:
  assumes "manager_call (alo_rollback ops tid) s = (r, s')"
  shows "touches tid s s' \<and> r = Inr () \<and> dy_destination s' = dy_destination s \<and>
    dy_checkpoints s' = dy_checkpoints s"
proof (cases "al_two_phase_commit (am_config (dy_manager s))")
  case False
  with assms show ?thesis
    by (cases "dy_attached s") (auto simp: manager_call_def alo_rollback_def touches_def Let_def)
next
  case True
  have "txn_ids (snd (txn_rollback ops tid (dy_checkpoint s))) \<subseteq> insert tid (txn_ids (dy_checkpoint s))"
    using txn_ids_ops(4) by blast
  with True assms tp_ops_touch(3) [of tid "two_phase_of s"] tp_abort_ok [of tid "two_phase_of s"] show ?thesis
    by (cases "dy_attached s")
      (auto simp: manager_call_def alo_rollback_def via_coordinator_def co_rollback_def touches_def Let_def
        split: prod.splits)
qed

lemma alo_commit_call:
  assumes "manager_call (alo_commit ops st tid now) s = (r, s')"
  shows "touches tid s s'"
proof (cases "al_two_phase_commit (am_config (dy_manager s))")
  case False
  with assms show ?thesis
    by (cases "dy_attached s") (auto simp: manager_call_def alo_commit_def touches_def Let_def)
next
  case True
  have "txn_ids (snd (txn_commit ops st tid now (dy_checkpoint s))) \<subseteq> insert tid (txn_ids (dy_checkpoint s))"
    using txn_ids_ops(3) by blast
  with True assms tp_ops_touch(2) [of tid "two_phase_of s"] show ?thesis
    by (cases "dy_attached s")
      (auto simp: manager_call_def alo_commit_def via_coordinator_def co_commit_def touches_def Let_def
        split: prod.splits sum.splits)
qed

text \<open>A commit through the coordinator after the checkpoint was committed directly.\<close>

lemma second_commit_fails:
  assumes "al_two_phase_commit (am_config (dy_manager s))" and "tid \<notin> txn_ids (dy_checkpoint s)"
    and "tp_state (two_phase_of s) tid \<noteq> Some Prepared"
    and "manager_call (alo_commit ops st tid now) s = (r, s')"
  shows "r \<noteq> Inr ()"
proof -
  have "List.find (txn_is tid) (tx_transactions (dy_checkpoint s)) = None"
    using assms(2) by (auto simp: find_None_iff_key txn_ids_def)
  with assms show ?thesis
    by (auto simp: manager_call_def alo_commit_def via_coordinator_def co_commit_def txn_commit_def Let_def
        tp_commit_def tp_state_def split: if_splits prod.splits option.splits)
qed

section \<open>Duplicates\<close>

lemma take_fresh_manager: "\<exists>d. snd (take_fresh show es m) = m\<lparr>am_deduplicator := d\<rparr>"
proof (induction es arbitrary: m)
  case Nil
  show ?case by (rule exI [of _ "am_deduplicator m"]) simp
next
  case (Cons e es)
  let ?m = "snd (alo_mark_processed (create_dedup_key_from_event show e) m)"
  have "\<exists>d0. ?m = m\<lparr>am_deduplicator := d0\<rparr>"
    by (cases "al_enabled (am_config m)")
      (auto simp: alo_mark_processed_def intro: exI [of _ "am_deduplicator m"])
  then obtain d0 where "?m = m\<lparr>am_deduplicator := d0\<rparr>" ..
  with Cons [of ?m] Cons [of m] show ?case
    by (auto simp: Let_def split: prod.splits)
qed

lemma take_fresh_call:
  assumes "manager_call (take_fresh show es) s = (fresh, s')"
  shows "\<exists>d. two_phase_of s' = two_phase_of s \<and> dy_checkpoint s' = dy_checkpoint s \<and>
    am_config (dy_manager s') = am_config (dy_manager s) \<and> dedup_of s' = d \<and>
    dy_destination s' = dy_destination s \<and> dy_checkpoints s' = dy_checkpoints s \<and>
    dy_attached s' = dy_attached s"
proof -
  let ?m = "(dy_manager s)\<lparr>am_coordinator := (am_coordinator (dy_manager s))
      \<lparr>co_checkpoint_handler := if dy_attached s then Some (dy_checkpoint s) else None\<rparr>\<rparr>"
  obtain d where "snd (take_fresh show es ?m) = ?m\<lparr>am_deduplicator := d\<rparr>"
    using take_fresh_manager by blast
  then obtain fs where "take_fresh show es ?m = (fs, ?m\<lparr>am_deduplicator := d\<rparr>)" by (metis prod.collapse)
  with assms show ?thesis by (cases "dy_attached s") (auto simp: manager_call_def Let_def)
qed

section \<open>The transaction of a batch\<close>

text \<open>The one transaction with this identifier, not committed.\<close>

definition own :: "string \<Rightarrow> 's txn_ckpt \<Rightarrow> bool" where
  "own tid c \<longleftrightarrow> (\<exists>t. filter (txn_is tid) (tx_transactions c) = [t] \<and> \<not> ct_committed t)"

lemma find_filter: "List.find P xs = (case filter P xs of [] \<Rightarrow> None | x # _ \<Rightarrow> Some x)"
  by (induction xs) auto

lemma filter_remove_first: "filter P (remove_first P xs) = tl (filter P xs)"
  by (induction xs) auto

lemma filter_update_first:
  "(\<And>x. P x \<Longrightarrow> P (f x)) \<Longrightarrow>
   filter P (update_first P f xs) = (case filter P xs of [] \<Rightarrow> [] | x # ys \<Rightarrow> f x # ys)"
  by (induction xs) auto

lemma own_begin: "txn_begin tid task pos now c = (Inr u, c') \<Longrightarrow> own tid c'"
  by (auto simp: txn_begin_def own_def list_ex_iff filter_empty_conv split: if_splits)

lemma own_prepare: "own tid c \<Longrightarrow> txn_prepare ops tid uuid now c = (r, c') \<Longrightarrow> own tid c'"
  by (auto simp: txn_prepare_def own_def filter_update_first Let_def
      split: option.splits if_splits prod.splits sum.splits)

lemma commit_removes:
  "own tid c \<Longrightarrow> txn_commit ops st tid now c = (Inr u, c') \<Longrightarrow> tid \<notin> txn_ids c'"
  by (auto simp: own_def txn_commit_def find_filter txn_ids_def
      split: if_splits prod.splits sum.splits option.splits)
    (metis (mono_tags, lifting) filter_empty_conv filter_remove_first list.sel(3))

lemma fail_batch_error: "fail_batch env tid e s = (r, s') \<Longrightarrow> r \<noteq> Inr u"
  by (auto simp: fail_batch_def split: prod.splits sum.splits)

lemma settle_never_ok:
  assumes "al_two_phase_commit (am_config (dy_manager s))" and "own tid (dy_checkpoint s)"
    and "tp_state (two_phase_of s) tid \<noteq> Some Prepared"
  shows "settle env task_id tid position fresh a s \<noteq> Some (Inr (), s')"
proof (cases "\<exists>response. a = Answered (Inr response) \<and> sy_failed_count response = 0")
  case True
  then obtain response where a: "a = Answered (Inr response)" "sy_failed_count response = 0" by blast
  obtain r1 s1 where commit: "checkpoint_call (txn_commit (ev_storage env) (ev_time env) tid (ev_now env)) s = (r1, s1)"
    by fastforce
  show ?thesis
  proof (cases r1)
    case (Inr u)
    with commit commit_removes [OF assms(2)] have "tid \<notin> txn_ids (dy_checkpoint s1)"
      "two_phase_of s1 = two_phase_of s" "am_config (dy_manager s1) = am_config (dy_manager s)"
      by (auto simp: checkpoint_call_def split: prod.splits)
    with second_commit_fails [of s1 tid "ev_storage env" "ev_time env" "ev_now env"] assms a commit Inr
    show ?thesis by (auto simp: settle_def split: prod.splits sum.splits)
  qed (use a commit in \<open>simp add: settle_def\<close>)
next
  case False
  then show ?thesis
    by (cases a) (auto simp: settle_def dest: fail_batch_error split: sum.splits prod.splits)
qed

text \<open>
  C1. With two-phase commit, \<open>Ok\<close> means that nothing was sent: a batch that reached the
  destination, even one that was written without a failure and whose checkpoint is committed,
  ends with an error, stays in the buffer, and never advances the in-memory checkpoint, because
  the transaction is committed a second time through the coordinator that shares the checkpoint.
\<close>

theorem ok_means_nothing_was_sent:
  assumes "al_two_phase_commit (am_config (dy_manager s))"
    and "process_batch_with_at_least_once env task_id batch s = Some (Inr (), batch', s')"
  shows "batch' = [] \<and> dy_destination s' = dy_destination s \<and> dy_checkpoints s' = dy_checkpoints s"
proof (cases "extract_position_from_event (last batch)")
  case None
  with assms(2) show ?thesis by (auto simp: process_batch_with_at_least_once_def)
next
  case (Some position)
  obtain r1 s1 where started: "manager_call (alo_begin_transaction task_id (ev_uuid env 0) (ev_now env)) s = (r1, s1)"
    by fastforce
  with Some assms(2) obtain tid where tid: "r1 = Inr tid"
    by (cases r1) (auto simp: process_batch_with_at_least_once_def)
  obtain r2 s2 where cbegin: "checkpoint_call (txn_begin tid task_id position (ev_now env)) s1 = (r2, s2)"
    by fastforce
  with Some assms(2) started tid have r2: "r2 = Inr ()"
    by (cases r2) (auto simp: process_batch_with_at_least_once_def)
  obtain fresh s3 where take: "manager_call (take_fresh (ev_json env) batch) s2 = (fresh, s3)" by fastforce
  have s2: "own tid (dy_checkpoint s2)" "dy_manager s2 = dy_manager s1"
      "dy_destination s2 = dy_destination s1" "dy_checkpoints s2 = dy_checkpoints s1"
    using cbegin r2 own_begin by (auto simp: checkpoint_call_def split: prod.splits)
  note s1 = alo_begin_call(1) [OF started] alo_begin_call(2) [OF started assms(1) tid]
  note s3 = take_fresh_call [OF take]
  show ?thesis
  proof (cases "fresh = []")
    case True
    with assms(2) Some started tid cbegin r2 take s1 s2 s3 show ?thesis
      by (auto simp: process_batch_with_at_least_once_def)
  next
    case False
    obtain r4 s4 where prep: "checkpoint_call (txn_prepare (ev_storage env) tid (ev_uuid env 1) (ev_now env)) s3 = (r4, s4)"
      by fastforce
    have s4: "own tid (dy_checkpoint s4)" "dy_manager s4 = dy_manager s3"
      using prep own_prepare s2(1) s3 by (auto simp: checkpoint_call_def split: prod.splits)
    have config: "al_two_phase_commit (am_config (dy_manager s4))" "tp_state (two_phase_of s4) tid \<noteq> Some Prepared"
      using s1 s2 s3 s4 assms(1) by (auto simp: touches_def)
    obtain a d where del: "ev_deliver env fresh (dy_destination s4) = (a, d)" by fastforce
    from settle_never_ok [of "s4\<lparr>dy_destination := d\<rparr>" tid env task_id position fresh a] config s4
    have "settle env task_id tid position fresh a (s4\<lparr>dy_destination := d\<rparr>) \<noteq> Some (Inr (), x)" for x
      by simp
    with assms(2) Some started tid cbegin r2 take False prep del show ?thesis
      by (auto simp: process_batch_with_at_least_once_def split: sum.splits bool.splits prod.splits)
  qed
qed

definition demo_delivery :: "(memory_storage, stream_event list list, memory_dlq) delivery" where
  "demo_delivery = \<lparr>dy_manager = alo_new alo_config_default,
     dy_checkpoint = \<lparr>tx_storage = [], tx_transactions = []\<rparr>, dy_attached = True, dy_checkpoints = [],
     dy_destination = [], dy_dlq = []\<rparr>"

definition demo_delivery_env ::
  "answer \<Rightarrow> string \<Rightarrow> (memory_storage, stream_event list list, memory_dlq) delivery_env" where
  "demo_delivery_env a u = \<lparr>ev_storage = memory_ops, ev_json = (\<lambda>_. ''1''), ev_time = (\<lambda>_. ''now''),
     ev_uuid = (\<lambda>_. u), ev_now = 0, ev_deliver = (\<lambda>batch log. (a, log @ [batch])),
     ev_dlq = Some memory_dlq_ops\<rparr>"

lemmas demo_delivery_defs = demo_delivery_def demo_delivery_env_def alo_new_def alo_config_default_def
  coordinator_new_def two_phase_new_def

theorem ok_means_nothing_was_sent_witness:
  "\<exists>batch' s'. process_batch_with_at_least_once (demo_delivery_env NoResponse ''u1'') ''users'' [EvHeartbeat]
      demo_delivery = Some (Inr (), batch', s') \<and> batch' = [] \<and> dy_destination s' = []"
proof -
  have run: "process_batch_with_at_least_once (demo_delivery_env NoResponse ''u1'') ''users'' [EvHeartbeat]
      demo_delivery = Some (Inr (), [], demo_delivery)"
    by (simp add: process_batch_with_at_least_once_def)
  have "al_two_phase_commit (am_config (dy_manager demo_delivery))" by (simp add: demo_delivery_defs)
  from ok_means_nothing_was_sent [OF this run] run show ?thesis by (simp add: demo_delivery_def)
qed

section \<open>A failed batch\<close>

lemma disjoint_step: "k \<notin> K \<Longrightarrow> insert k K \<inter> T = {} \<Longrightarrow> T' \<subseteq> insert k T \<Longrightarrow> K \<inter> T' = {}"
  by blast

lemma take_fresh_new:
  assumes "al_enabled (am_config m)" and "dedup_inv (am_deduplicator m)"
    and "distinct (map (create_dedup_key_from_event show) es)"
    and "create_dedup_key_from_event show ` set es \<inter> tracked (am_deduplicator m) = {}"
  shows "take_fresh show es m =
    (es, m\<lparr>am_deduplicator := dedup_run (map (create_dedup_key_from_event show) es) (am_deduplicator m)\<rparr>)"
  using assms
proof (induction es arbitrary: m)
  case (Cons e es)
  let ?k = "create_dedup_key_from_event show e" and ?d = "am_deduplicator m"
  have "create_dedup_key_from_event show ` set es \<inter> tracked (dedup_add ?k ?d) = {}"
    by (rule disjoint_step [OF _ _ tracked_add(2) [OF Cons.prems(2)]]) (use Cons.prems(3,4) in simp_all)
  with Cons.IH [of "m\<lparr>am_deduplicator := dedup_add ?k ?d\<rparr>"] Cons.prems show ?case
    by (simp add: alo_is_duplicate_def alo_mark_processed_def dedup_contains_iff)
qed simp

lemma take_fresh_known:
  "al_enabled (am_config m) \<Longrightarrow>
   create_dedup_key_from_event show ` set es \<subseteq> tracked (am_deduplicator m) \<Longrightarrow> take_fresh show es m = ([], m)"
  by (induction es) (auto simp: alo_is_duplicate_def dedup_contains_iff)

lemma tracked_after_run:
  assumes "dedup_inv d" and "length ks \<le> max 1 (dd_window_size d)" and "k \<in> set ks"
  shows "k \<in> tracked (dedup_run ks d)"
proof -
  obtain xs ys where ks: "ks = xs @ k # ys" using split_list [OF assms(3)] by blast
  with assms(2) have "length ys < max 1 (dd_window_size (dedup_run xs d))" by simp
  with assms(1) have "survives (length ys) (dedup_add k (dedup_run xs d)) k" by (simp add: survives_fresh)
  with assms(1) ks show ?thesis by (simp add: survives_run)
qed

lemma roll_back_touches:
  assumes "roll_back env tid s = (r, s')"
  shows "touches tid s s'"
proof -
  obtain r1 s1 where first: "checkpoint_call (txn_rollback (ev_storage env) tid) s = (r1, s1)" by fastforce
  have "txn_ids (snd (txn_rollback (ev_storage env) tid (dy_checkpoint s))) \<subseteq> insert tid (txn_ids (dy_checkpoint s))"
    using txn_ids_ops(4) by blast
  from checkpoint_call_touches [OF this first] have "touches tid s s1" .
  with assms first alo_rollback_call touches_trans show ?thesis
    by (fastforce simp: roll_back_def split: sum.splits)
qed

lemma settle_touches:
  assumes "settle env task_id tid position fresh a s = Some (r, s')"
  shows "touches tid s s'"
proof -
  have fail: "fail_batch env tid e s = (r, s') \<Longrightarrow> touches tid s s'" for e
    by (auto simp: fail_batch_def dest: roll_back_touches split: prod.splits sum.splits)
  have letters: "dead_letter_all env task_id fresh errs s1 = Some s2 \<Longrightarrow> touches tid s s1 \<Longrightarrow> touches tid s s2"
    for errs s1 s2
    by (auto simp: dead_letter_all_def split: option.splits)
  show ?thesis
  proof (cases "\<exists>response. a = Answered (Inr response) \<and> sy_failed_count response = 0")
    case True
    then obtain response where a: "a = Answered (Inr response)" "sy_failed_count response = 0" by blast
    obtain r1 s1 where c1: "checkpoint_call (txn_commit (ev_storage env) (ev_time env) tid (ev_now env)) s = (r1, s1)"
      by fastforce
    have "txn_ids (snd (txn_commit (ev_storage env) (ev_time env) tid (ev_now env) (dy_checkpoint s)))
        \<subseteq> insert tid (txn_ids (dy_checkpoint s))" using txn_ids_ops(3) by blast
    from checkpoint_call_touches [OF this c1] have t1: "touches tid s s1" .
    obtain r2 s2 where c2: "manager_call (alo_commit (ev_storage env) (ev_time env) tid (ev_now env)) s1 = (r2, s2)"
      by fastforce
    from touches_trans [OF t1 alo_commit_call [OF c2]] t1 assms a c1 c2 show ?thesis
      by (auto simp: settle_def split: sum.splits)
  next
    case False
    with assms fail letters show ?thesis
      by (cases a) (auto simp: settle_def dest: roll_back_touches split: sum.splits prod.splits)
  qed
qed

lemma known_txn: "list_ex (txn_is tid) (tx_transactions c) \<longleftrightarrow> tid \<in> txn_ids c"
  by (auto simp: list_ex_iff txn_ids_def intro: rev_image_eqI)

text \<open>The first attempt at a batch of new events, when it ends with an error.\<close>

lemma failed_attempt:
  assumes "al_two_phase_commit (am_config (dy_manager s))" and "al_enabled (am_config (dy_manager s))"
    and "dedup_inv (dedup_of s)" and "extract_position_from_event (last batch) = Some position"
    and "distinct (map (create_dedup_key_from_event (ev_json env)) batch)"
    and "create_dedup_key_from_event (ev_json env) ` set batch \<inter> tracked (dedup_of s) = {}"
    and "task_id @ ''-'' @ ev_uuid env 0 \<notin> tp_ids (two_phase_of s) \<union> txn_ids (dy_checkpoint s)"
    and "process_batch_with_at_least_once env task_id batch s = Some (Inl e, batch', s')"
  shows "batch' = batch \<and> am_config (dy_manager s') = am_config (dy_manager s) \<and>
    dedup_of s' = dedup_run (map (create_dedup_key_from_event (ev_json env)) batch) (dedup_of s) \<and>
    tp_ids (two_phase_of s') \<subseteq> insert (task_id @ ''-'' @ ev_uuid env 0) (tp_ids (two_phase_of s)) \<and>
    txn_ids (dy_checkpoint s') \<subseteq> insert (task_id @ ''-'' @ ev_uuid env 0) (txn_ids (dy_checkpoint s))"
proof -
  let ?tid = "task_id @ ''-'' @ ev_uuid env 0"
  obtain r1 s1 where started: "manager_call (alo_begin_transaction task_id (ev_uuid env 0) (ev_now env)) s = (r1, s1)"
    by fastforce
  with alo_begin_call(3) [OF started assms(1)] assms(7) have r1: "r1 = Inr ?tid" by blast
  note s1 = alo_begin_call(1) [OF started]
  obtain r2 s2 where cbegin: "checkpoint_call (txn_begin ?tid task_id position (ev_now env)) s1 = (r2, s2)"
    by fastforce
  have r2: "r2 = Inr ()"
    using cbegin s1 assms(7)
    by (auto simp: checkpoint_call_def txn_begin_def known_txn split: prod.splits if_splits)
  have t2: "touches ?tid s s2"
    using touches_trans [OF conjunct1 [OF s1] checkpoint_call_touches [OF txn_ids_ops(1) cbegin]] .
  obtain fresh s3 where take: "manager_call (take_fresh (ev_json env) batch) s2 = (fresh, s3)" by fastforce
  have "fresh = batch \<and> dedup_of s3 = dedup_run (map (create_dedup_key_from_event (ev_json env)) batch) (dedup_of s)"
    using take t2 assms(2,3,5,6) by (auto simp: manager_call_def take_fresh_new touches_def Let_def)
  moreover note s3 = take_fresh_call [OF take]
  obtain r4 s4 where prep: "checkpoint_call (txn_prepare (ev_storage env) ?tid (ev_uuid env 1) (ev_now env)) s3 = (r4, s4)"
    by fastforce
  have "txn_ids (snd (txn_prepare (ev_storage env) ?tid (ev_uuid env 1) (ev_now env) (dy_checkpoint s3)))
      \<subseteq> insert ?tid (txn_ids (dy_checkpoint s3))" using txn_ids_ops(2) by blast
  from checkpoint_call_touches [OF this prep] have t4: "touches ?tid s3 s4" .
  have "batch' = batch \<and> touches ?tid s4 s'" if "fresh \<noteq> []"
  proof (cases r4)
    case (Inl x)
    with assms(4,8) started r1 cbegin r2 take that prep show ?thesis
      by (auto simp: process_batch_with_at_least_once_def)
  next
    case (Inr prepared)
    show ?thesis
    proof (cases prepared)
      case True
      obtain a d where "ev_deliver env fresh (dy_destination s4) = (a, d)" by fastforce
      with assms(4,8) started r1 cbegin r2 take that prep Inr True
        settle_touches [of env task_id ?tid position fresh a "s4\<lparr>dy_destination := d\<rparr>" "Inl e" s']
      show ?thesis
        by (auto simp: process_batch_with_at_least_once_def touches_def)
    next
      case False
      obtain r5 s5 where "manager_call (alo_rollback (ev_storage env) ?tid) s4 = (r5, s5)" by fastforce
      with assms(4,8) started r1 cbegin r2 take that prep Inr False alo_rollback_call [of "ev_storage env" ?tid s4 r5 s5]
      show ?thesis by (auto simp: process_batch_with_at_least_once_def)
    qed
  qed
  moreover have "fresh \<noteq> []"
    using assms(4,8) started r1 cbegin r2 take by (auto simp: process_batch_with_at_least_once_def)
  ultimately show ?thesis using t2 t4 s3 unfolding touches_def by (metis insert_chain)
qed

text \<open>An attempt at a batch whose events are all remembered as processed.\<close>

lemma known_attempt:
  assumes "al_two_phase_commit (am_config (dy_manager s))" and "al_enabled (am_config (dy_manager s))"
    and "extract_position_from_event (last batch) = Some position"
    and "create_dedup_key_from_event (ev_json env) ` set batch \<subseteq> tracked (dedup_of s)"
    and fresh: "task_id @ ''-'' @ ev_uuid env 0 \<notin> tp_ids (two_phase_of s) \<union> txn_ids (dy_checkpoint s)"
  shows "\<exists>s'. process_batch_with_at_least_once env task_id batch s = Some (Inr (), [], s') \<and>
    dy_destination s' = dy_destination s"
proof -
  let ?tid = "task_id @ ''-'' @ ev_uuid env 0"
  obtain r1 s1 where started: "manager_call (alo_begin_transaction task_id (ev_uuid env 0) (ev_now env)) s = (r1, s1)"
    by fastforce
  with alo_begin_call(3) [OF started assms(1)] fresh have r1: "r1 = Inr ?tid" by blast
  note s1 = alo_begin_call(1) [OF started]
  obtain r2 s2 where cbegin: "checkpoint_call (txn_begin ?tid task_id position (ev_now env)) s1 = (r2, s2)"
    by fastforce
  have r2: "r2 = Inr ()"
    using cbegin s1 fresh
    by (auto simp: checkpoint_call_def txn_begin_def known_txn split: prod.splits if_splits)
  have t2: "touches ?tid s s2"
    using touches_trans [OF conjunct1 [OF s1] checkpoint_call_touches [OF txn_ids_ops(1) cbegin]] .
  have d2: "dy_destination s2 = dy_destination s"
    using s1 cbegin by (auto simp: checkpoint_call_def split: prod.splits)
  obtain fresh s3 where take: "manager_call (take_fresh (ev_json env) batch) s2 = (fresh, s3)" by fastforce
  have "fresh = []"
    using take t2 assms(2,4) by (auto simp: manager_call_def take_fresh_known touches_def Let_def)
  with assms(3) started r1 cbegin r2 take d2 take_fresh_call [OF take] show ?thesis
    by (auto simp: process_batch_with_at_least_once_def)
qed

text \<open>
  C2. A failed batch is dropped on the retry: the events of a batch are remembered as processed
  before they are sent, so when the batch fails it stays in the buffer, and the next attempt finds
  only duplicates, reports \<open>Ok\<close> and clears it without sending anything.
\<close>

theorem failed_batch_is_dropped:
  assumes "al_two_phase_commit (am_config (dy_manager s))" and "al_enabled (am_config (dy_manager s))"
    and "dedup_inv (dedup_of s)" and "extract_position_from_event (last batch) = Some position"
    and "distinct (map (create_dedup_key_from_event (ev_json env)) batch)"
    and "create_dedup_key_from_event (ev_json env) ` set batch \<inter> tracked (dedup_of s) = {}"
    and "length batch \<le> max 1 (dd_window_size (dedup_of s))"
    and "task_id @ ''-'' @ ev_uuid env 0 \<notin> tp_ids (two_phase_of s) \<union> txn_ids (dy_checkpoint s)"
    and "task_id @ ''-'' @ ev_uuid later 0 \<notin> tp_ids (two_phase_of s) \<union> txn_ids (dy_checkpoint s)"
    and "ev_uuid later 0 \<noteq> ev_uuid env 0" and "ev_json later = ev_json env"
    and "process_batch_with_at_least_once env task_id batch s = Some (Inl e, batch', s')"
  shows "\<exists>s''. process_batch_with_at_least_once later task_id batch' s' = Some (Inr (), [], s'') \<and>
    dy_destination s'' = dy_destination s'"
proof -
  note first = failed_attempt [OF assms(1-6,8,12)]
  have "create_dedup_key_from_event (ev_json later) ` set batch \<subseteq> tracked (dedup_of s')"
    using first assms(3,7,11) tracked_after_run [of "dedup_of s"] by auto
  moreover have "task_id @ ''-'' @ ev_uuid later 0 \<notin> tp_ids (two_phase_of s') \<union> txn_ids (dy_checkpoint s')"
    using first assms(9,10) by (auto dest!: subsetD)
  ultimately show ?thesis
    using known_attempt [of s' batch position later task_id] first assms(1,2,4) by simp
qed

definition demo_delete :: stream_event where
  "demo_delete = EvDelete ''users'' Null (Some (PostgreSQL ''0/1''))"

theorem failed_batch_is_dropped_witness:
  "\<exists>e batch' s'. process_batch_with_at_least_once (demo_delivery_env NoResponse ''u1'') ''users'' [demo_delete]
      demo_delivery = Some (Inl e, batch', s') \<and>
    (\<exists>s''. process_batch_with_at_least_once (demo_delivery_env NoResponse ''u2'') ''users'' batch' s' =
        Some (Inr (), [], s'') \<and> dy_destination s'' = dy_destination s')"
proof -
  let ?env = "demo_delivery_env NoResponse ''u1''" and ?later = "demo_delivery_env NoResponse ''u2''"
  obtain e batch' s' where run:
    "process_batch_with_at_least_once ?env ''users'' [demo_delete] demo_delivery = Some (Inl e, batch', s')"
    by (simp add: demo_delivery_defs demo_delete_def process_batch_with_at_least_once_def manager_call_def
        checkpoint_call_def alo_begin_transaction_def via_coordinator_def co_begin_def tp_begin_def
        txn_begin_def txn_prepare_def memory_save_def settle_def fail_batch_def roll_back_def
        txn_rollback_def memory_delete_def alo_rollback_def co_rollback_def tp_abort_def hmap_simps
        alo_is_duplicate_def alo_mark_processed_def dedup_new_def dedup_contains_def hm_contains_key_def
        Let_def)
  have "\<exists>s''. process_batch_with_at_least_once ?later ''users'' batch' s' = Some (Inr (), [], s'') \<and>
      dy_destination s'' = dy_destination s'"
    by (rule failed_batch_is_dropped [OF _ _ _ _ _ _ _ _ _ _ _ run, where position = "PostgreSQL ''0/1''"])
      (simp_all add: demo_delivery_defs demo_delete_def tp_ids_def txn_ids_def)
  with run show ?thesis by blast
qed

section \<open>Batches without at-least-once delivery\<close>

lemma dead_letter_all_keeps [simp]:
  "dead_letter_all env task_id events errs s = Some s' \<Longrightarrow>
     dy_destination s' = dy_destination s \<and> dy_checkpoints s' = dy_checkpoints s"
  by (auto simp: dead_letter_all_def split: option.splits)

text \<open>Which events a run of the dead letter queue stores.\<close>

lemma dead_letter_stores:
  assumes "dead_letter env memory_dlq_ops task_id events i errs q = Some q'"
    and "hm_get q' k = Some entry" and "hm_get q k \<noteq> Some entry"
  shows "\<exists>j < length events. i \<le> j \<and> j < i + length errs \<and>
    convert_to_models_event (ev_uuid env (3 + 2 * j)) (ev_now env) (events ! j) = Some (de_event entry)"
  using assms
proof (induction errs arbitrary: i q)
  case (Cons err errs)
  show ?case
  proof (cases "i < length events")
    case False
    with Cons.prems have "dead_letter env memory_dlq_ops task_id events (Suc i) errs q = Some q'" by simp
    from Cons.IH [OF this Cons.prems(2,3)] show ?thesis by auto
  next
    case True
    with Cons.prems(1) obtain event where event:
      "convert_to_models_event (ev_uuid env (3 + 2 * i)) (ev_now env) (events ! i) = Some event"
      by (auto split: option.splits)
    define entry0 where "entry0 = failed_entry (ev_uuid env (2 + 2 * i)) (ev_now env) task_id event (Pipeline err) 0"
    define q1 where "q1 = hm_insert (de_id entry0) entry0 q"
    have "snd (add_failed_event memory_dlq_ops (ev_uuid env (2 + 2 * i)) (ev_now env) task_id event (Pipeline err) 0 q) = q1"
      by (simp add: add_failed_event_def q1_def entry0_def mdlq_store_def Let_def split: prod.splits sum.splits)
    with True event Cons.prems(1) have rest: "dead_letter env memory_dlq_ops task_id events (Suc i) errs q1 = Some q'"
      by simp
    show ?thesis
    proof (cases "hm_get q1 k = Some entry")
      case False
      from Cons.IH [OF rest Cons.prems(2) False] show ?thesis by auto
    next
      case stored: True
      with Cons.prems(3) have "entry = entry0" by (auto simp: q1_def hm_get_insert split: if_splits)
      then have "de_event entry = event" by (simp add: entry0_def failed_entry_def)
      with True event show ?thesis by auto
    qed
  qed
qed simp

text \<open>
  C4. Without at-least-once delivery a partly failed batch is given up: the buffer is cleared, the
  checkpoint advances to the last position of the response, and the dead letter queue gains only
  events from the front of the batch, at most one per reported error, whichever events failed.
\<close>

theorem failures_do_not_hold_back_the_checkpoint:
  assumes "process_batch_standard env task_id batch s = Some (batch', s')"
    and "ev_deliver env batch (dy_destination s) = (Answered (Inr response), d)"
    and "ev_dlq env = Some memory_dlq_ops"
  shows "batch' = [] \<and> dy_destination s' = d \<and>
    (\<forall>p. sy_last_position response = Some p \<longrightarrow> hm_get (dy_checkpoints s') task_id = Some p) \<and>
    (\<forall>k entry. hm_get (dy_dlq s') k = Some entry \<and> hm_get (dy_dlq s) k \<noteq> Some entry \<longrightarrow>
       (\<exists>j < min (length batch) (length (sy_errors response)).
          convert_to_models_event (ev_uuid env (3 + 2 * j)) (ev_now env) (batch ! j) = Some (de_event entry)))"
proof -
  let ?s = "s\<lparr>dy_destination := d\<rparr>"
  from assms obtain s2 where s2: "s' = advance_checkpoint task_id (sy_last_position response) s2" "batch' = []"
      "s2 = ?s \<or> dead_letter_all env task_id batch (sy_errors response) ?s = Some s2"
    by (auto simp: process_batch_standard_def Let_def split: if_splits)
  from s2(3) have kept: "dy_destination s2 = d" by (auto dest: dead_letter_all_keeps)
  have "\<exists>j < min (length batch) (length (sy_errors response)).
      convert_to_models_event (ev_uuid env (3 + 2 * j)) (ev_now env) (batch ! j) = Some (de_event entry)"
    if "hm_get (dy_dlq s2) k = Some entry" "hm_get (dy_dlq s) k \<noteq> Some entry" for k entry
    using s2(3) assms(3) that dead_letter_stores [of env task_id batch 0 "sy_errors response" "dy_dlq s" "dy_dlq s2" k entry]
    by (auto simp: dead_letter_all_def)
  moreover have "dy_dlq s' = dy_dlq s2" "dy_destination s' = dy_destination s2"
    using s2(1) by (simp_all add: advance_checkpoint_def split: option.splits)
  ultimately show ?thesis
    using s2(1,2) kept by (auto simp: advance_checkpoint_def hm_get_insert)
qed

definition demo_response :: destination_response where
  "demo_response = \<lparr>sy_success_count = 0, sy_failed_count = 2, sy_last_position = Some (PostgreSQL ''0/2''),
     sy_errors = [''timeout'']\<rparr>"

theorem failures_do_not_hold_back_the_checkpoint_witness:
  "\<exists>s'. process_batch_standard (demo_delivery_env (Answered (Inr demo_response)) ''u1'') ''users''
      [EvHeartbeat, EvCheckpoint (PostgreSQL ''0/2'')] demo_delivery = Some ([], s') \<and>
    hm_get (dy_checkpoints s') ''users'' = Some (PostgreSQL ''0/2'')"
proof -
  let ?env = "demo_delivery_env (Answered (Inr demo_response)) ''u1''"
  obtain batch' s' where run: "process_batch_standard ?env ''users''
      [EvHeartbeat, EvCheckpoint (PostgreSQL ''0/2'')] demo_delivery = Some (batch', s')"
    by (simp add: process_batch_standard_def demo_delivery_defs demo_response_def dead_letter_all_def Let_def)
  from failures_do_not_hold_back_the_checkpoint [OF run, of demo_response "[[EvHeartbeat, EvCheckpoint (PostgreSQL ''0/2'')]]"]
  have "batch' = [] \<and> hm_get (dy_checkpoints s') ''users'' = Some (PostgreSQL ''0/2'')"
    by (simp add: demo_delivery_def demo_delivery_env_def demo_response_def)
  with run show ?thesis by blast
qed

section \<open>The stream\<close>

text \<open>The events that the inputs put into batches, up to the shutdown.\<close>

fun accepted :: "stream_params \<Rightarrow> stream_input list \<Rightarrow> stream_event list" where
  "accepted p [] = []"
| "accepted p (Received (Inl e) # xs) = accepted p xs"
| "accepted p (Received (Inr event) # xs) =
     (case process_single_event (pm_texts p) (pm_stages p) event of
        Some (Some processed) \<Rightarrow> processed # accepted p xs
      | _ \<Rightarrow> accepted p xs)"
| "accepted p (TimerTick # xs) = accepted p xs"
| "accepted p (ShutdownChanged down # xs) = (if down then [] else accepted p xs)"

lemma standard_flush:
  assumes "\<And>b trace. snd (ev_deliver env b trace) = trace @ [b]"
    and "process_batch env False task_id batch s = Some (batch', s')"
  shows "batch' = [] \<and> concat (dy_destination s') = concat (dy_destination s) @ batch"
proof (cases "batch = []")
  case False
  obtain a where "ev_deliver env batch (dy_destination s) = (a, dy_destination s @ [batch])"
    using assms(1) [of batch "dy_destination s"] by (cases "ev_deliver env batch (dy_destination s)") auto
  with False assms(2) show ?thesis
    by (auto simp: process_batch_def process_batch_standard_def advance_checkpoint_def Let_def
        dest: dead_letter_all_keeps split: answer.splits sum.splits if_splits option.splits)
qed (use assms(2) in \<open>simp add: process_batch_def\<close>)

text \<open>
  C3. Without at-least-once delivery the stream of a table hands every event that passes its stages
  to the destination exactly once and in order, except those of the last, unfinished batch, which
  are still in the buffer: batch boundaries, timer ticks, read errors and the answers of the
  destination do not change what is sent.
\<close>

theorem stream_sends_each_event_once:
  assumes "\<forall>i b trace. snd (ev_deliver (env i) b trace) = trace @ [b]" and "\<not> pm_at_least_once p"
    and "process_event_stream env p i inputs (batch, s) = Some (batch', s')"
  shows "concat (dy_destination s') @ batch' = concat (dy_destination s) @ batch @ accepted p inputs"
  using assms(3)
proof (induction inputs arbitrary: i batch s)
  case (Cons x xs)
  from Cons.prems obtain b1 s1 continue where step: "stream_step (env i) p x (batch, s) = Some ((b1, s1), continue)"
    and rest: "if continue then process_event_stream env p (Suc i) xs (b1, s1) = Some (batch', s')
      else (b1, s1) = (batch', s')"
    by (auto split: option.splits prod.splits bool.splits)
  note flush = standard_flush [of "env i" "pm_task_id p", OF assms(1) [rule_format]]
  have "concat (dy_destination s1) @ b1 @ (if continue then accepted p xs else []) =
      concat (dy_destination s) @ batch @ accepted p (x # xs)"
    using step assms(2)
    by (cases x) (auto simp: stream_step_def Let_def dest!: flush split: sum.splits option.splits if_splits)
  with rest Cons.IH [of "Suc i" b1 s1] show ?case by (cases continue) auto
qed simp

definition demo_stream :: stream_params where
  "demo_stream = \<lparr>pm_texts = \<lparr>tt_json = (\<lambda>_. []), tt_unicode = ascii_tables, tt_now = []\<rparr>,
     pm_stages = \<lparr>sg_filter = None, sg_transformer = None, sg_mapper = None, sg_soft_delete = None\<rparr>,
     pm_batch_size = 2, pm_task_id = ''users'', pm_at_least_once = False\<rparr>"

theorem stream_sends_each_event_once_witness:
  "\<exists>batch' s'. process_event_stream (\<lambda>_. demo_delivery_env NoResponse ''u1'') demo_stream 0
      [Received (Inr EvHeartbeat), Received (Inr demo_delete), Received (Inr EvHeartbeat)] ([], demo_delivery) =
      Some (batch', s') \<and>
    concat (dy_destination s') @ batch' = [EvHeartbeat, demo_delete, EvHeartbeat]"
proof -
  let ?env = "\<lambda>_ :: nat. demo_delivery_env NoResponse ''u1''"
    and ?inputs = "[Received (Inr EvHeartbeat), Received (Inr demo_delete), Received (Inr EvHeartbeat)]"
  have passes: "process_single_event (pm_texts demo_stream) (pm_stages demo_stream) e = Some (Some e)" for e
    by (simp add: demo_stream_def process_single_event_def filter_stage_def transform_stage_def mapper_stage_def
        soft_delete_stage_def and_then_def)
  obtain batch' s' where run: "process_event_stream ?env demo_stream 0 ?inputs ([], demo_delivery) = Some (batch', s')"
    by (simp add: stream_step_def passes process_batch_def process_batch_standard_def demo_stream_def
        demo_delivery_defs Let_def passes [unfolded demo_stream_def, simplified])
  have "concat (dy_destination s') @ batch' =
      concat (dy_destination demo_delivery) @ [] @ accepted demo_stream ?inputs"
    by (rule stream_sends_each_event_once [OF _ _ run])
      (simp_all add: demo_delivery_env_def demo_stream_def)
  with run passes show ?thesis by (auto simp: demo_delivery_def)
qed

section \<open>Full synchronisation reports\<close>

text \<open>The documents that the rows of a table become.\<close>

definition row_document :: "texts \<Rightarrow> stages \<Rightarrow> string \<Rightarrow> json result \<Rightarrow> json option" where
  "row_document tx sg table row =
     (case row of
        Inl e \<Rightarrow> None
      | Inr data \<Rightarrow>
          (case process_single_event tx sg (EvFullSync table data) of
             Some (Some (EvFullSync t document)) \<Rightarrow> Some document
           | _ \<Rightarrow> None))"

text \<open>A destination that records the commands it gets.\<close>

definition recording ::
  "(destination_command \<Rightarrow> 'd \<Rightarrow> answer \<times> 'd) \<Rightarrow> destination_command \<Rightarrow>
     destination_command list \<times> 'd \<Rightarrow> answer \<times> destination_command list \<times> 'd" where
  "recording send cmd st = (case send cmd (snd st) of (a, d) \<Rightarrow> (a, fst st @ [cmd], d))"

lemma recording_apply: "recording send cmd (trace, d) = (fst (send cmd d), trace @ [cmd], snd (send cmd d))"
  by (simp add: recording_def split: prod.splits)

definition import_commands :: "sync_task_config \<Rightarrow> json list list \<Rightarrow> destination_command list" where
  "import_commands task = map (\<lambda>docs. ImportData (st_index task) docs (Some (st_primary_key task)))"

lemma full_sync_loop_sends:
  assumes "full_sync_loop (Some (recording send)) tx sg task rows docs n (import_commands task sent, d) =
      Some (Inr n', docs', trace, d')"
    and "\<forall>c \<in> set sent. c \<noteq> [] \<and> length c \<le> max 1 (so_batch_size (st_options task))"
    and "length docs < max 1 (so_batch_size (st_options task))"
  shows "\<exists>sent'. trace = import_commands task sent' \<and>
    concat sent' @ docs' = concat sent @ docs @ List.map_filter (row_document tx sg (st_table task)) rows \<and>
    (\<forall>c \<in> set sent'. c \<noteq> [] \<and> length c \<le> max 1 (so_batch_size (st_options task))) \<and>
    length docs' < max 1 (so_batch_size (st_options task))"
  using assms
proof (induction rows arbitrary: docs n sent d)
  case (Cons row rows)
  show ?case
  proof (cases "row_document tx sg (st_table task) row")
    case None
    with Cons.prems(1) have "\<exists>m. full_sync_loop (Some (recording send)) tx sg task rows docs m (import_commands task sent, d) =
        Some (Inr n', docs', trace, d')"
      by (auto simp: row_document_def split: sum.splits option.splits stream_event.splits)
    with Cons.IH Cons.prems(2,3) None show ?thesis by (fastforce simp: map_filter_simps)
  next
    case (Some document)
    then obtain data t where row: "row = Inr data"
      "process_single_event tx sg (EvFullSync (st_table task) data) = Some (Some (EvFullSync t document))"
      by (auto simp: row_document_def split: sum.splits option.splits stream_event.splits)
    show ?thesis
    proof (cases "so_batch_size (st_options task) \<le> length (docs @ [document])")
      case True
      obtain a d1 where send: "send (ImportData (st_index task) (docs @ [document]) (Some (st_primary_key task))) d = (a, d1)"
        by fastforce
      from Cons.prems(1) row True send
      have "full_sync_loop (Some (recording send)) tx sg task rows [] (Suc n) (import_commands task (sent @ [docs @ [document]]), d1) =
          Some (Inr n', docs', trace, d')"
        by (auto simp: import_documents_def recording_apply import_commands_def Let_def split: answer.splits sum.splits)
      from Cons.IH [OF this] Cons.prems(2,3) Some show ?thesis by (auto simp: map_filter_simps)
    next
      case False
      with Cons.prems(1) row have "full_sync_loop (Some (recording send)) tx sg task rows (docs @ [document]) (Suc n)
          (import_commands task sent, d) = Some (Inr n', docs', trace, d')"
        by (simp add: Let_def)
      from Cons.IH [OF this Cons.prems(2)] False Some show ?thesis by (auto simp: map_filter_simps)
    qed
  qed
qed (auto simp: map_filter_simps)

text \<open>
  C39. A full synchronisation that ends with \<open>Ok\<close> sent the documents of all rows it could read,
  once, in order, in non-empty chunks of at most the configured size.
\<close>

theorem full_sync_sends_every_row:
  assumes "perform_full_sync (Some (recording send)) tx sg task (Some (Inr rows)) ([], d) = Some (Inr (), trace, d')"
  shows "\<exists>sent. trace = import_commands task sent \<and>
    concat sent = List.map_filter (row_document tx sg (st_table task)) rows \<and>
    (\<forall>c \<in> set sent. c \<noteq> [] \<and> length c \<le> max 1 (so_batch_size (st_options task)))"
proof -
  from assms obtain n docs trace1 d1 where loop:
    "full_sync_loop (Some (recording send)) tx sg task rows [] 0 ([], d) = Some (Inr n, docs, trace1, d1)"
    by (auto simp: perform_full_sync_def split: option.splits sum.splits prod.splits)
  then have "full_sync_loop (Some (recording send)) tx sg task rows [] 0 (import_commands task [], d) =
      Some (Inr n, docs, trace1, d1)" by (simp add: import_commands_def)
  from full_sync_loop_sends [OF this] obtain sent where sent: "trace1 = import_commands task sent"
      "concat sent @ docs = List.map_filter (row_document tx sg (st_table task)) rows"
      "\<forall>c \<in> set sent. c \<noteq> [] \<and> length c \<le> max 1 (so_batch_size (st_options task))"
      "length docs < max 1 (so_batch_size (st_options task))"
    by (auto simp: less_max_iff_disj)
  show ?thesis
  proof (cases "docs = []")
    case True
    with assms loop sent show ?thesis by (auto simp: perform_full_sync_def)
  next
    case False
    with assms loop have "trace = trace1 @ import_commands task [docs]"
      by (auto simp: perform_full_sync_def import_documents_def recording_apply import_commands_def
          split: prod.splits answer.splits sum.splits)
    with sent False show ?thesis by (intro exI [of _ "sent @ [docs]"]) (auto simp: import_commands_def)
  qed
qed

definition demo_send :: "destination_command \<Rightarrow> nat \<Rightarrow> answer \<times> nat" where
  "demo_send cmd n = (Answered (Inr demo_response), Suc n)"

theorem full_sync_sends_every_row_witness:
  "\<exists>log n. perform_full_sync (Some (recording demo_send)) (pm_texts demo_stream) (pm_stages demo_stream)
      (demo_task ''users'' ''u'') (Some (Inr [Inr Null, Inl ChannelSend, Inr (Bool True)])) ([], 0) = Some (Inr (), log, n) \<and>
    (\<exists>sent. log = import_commands (demo_task ''users'' ''u'') sent \<and> concat sent = [Null, Bool True])"
proof -
  let ?task = "demo_task ''users'' ''u''" and ?rows = "[Inr Null, Inl ChannelSend, Inr (Bool True)]"
  have passes: "process_single_event (pm_texts demo_stream) (pm_stages demo_stream) e = Some (Some e)" for e
    by (simp add: demo_stream_def process_single_event_def filter_stage_def transform_stage_def mapper_stage_def
        soft_delete_stage_def and_then_def)
  obtain trace n where run: "perform_full_sync (Some (recording demo_send)) (pm_texts demo_stream)
      (pm_stages demo_stream) ?task (Some (Inr ?rows)) ([], 0) = Some (Inr (), trace, n)"
    by (auto simp: perform_full_sync_def passes import_documents_def recording_apply demo_send_def Let_def
        demo_task_def options_of_section_def sync_options_default_def)
  have "row_document (pm_texts demo_stream) (pm_stages demo_stream) (st_table ?task) (Inr v) = Some v"
    "row_document (pm_texts demo_stream) (pm_stages demo_stream) (st_table ?task) (Inl e) = None" for v e
    by (simp_all add: row_document_def passes)
  with full_sync_sends_every_row [OF run] run show ?thesis by (auto simp: map_filter_simps)
qed

lemma full_sync_loop_ok:
  assumes "\<And>i ds pk d r docs d1. import_documents (Some send) i ds pk d = (r, docs, d1) \<Longrightarrow> r = Inr ()"
    and "full_sync_loop (Some send) tx sg task rows docs n d = Some (r, docs', d')"
  shows "\<exists>n'. r = Inr n'"
  using assms(2)
proof (induction rows arbitrary: docs n d)
  case (Cons row rows)
  show ?case
  proof (cases row)
    case (Inl e)
    with Cons show ?thesis by simp
  next
    case (Inr data)
    with Cons.prems show ?thesis
      by (auto simp: Let_def dest: Cons.IH assms(1)
          split: option.splits stream_event.splits if_splits prod.splits sum.splits)
  qed
qed auto

text \<open>
  A full synchronisation reports success whatever fails in it: when the destination answers
  every command, the result is \<open>Ok\<close>, however many documents the answers count as failed and
  however many rows could not be read.
\<close>

theorem full_sync_reports_success:
  assumes "\<forall>cmd d. \<exists>response d1. send cmd d = (Answered (Inr response), d1)"
    and "perform_full_sync (Some send) tx sg task (Some (Inr rows)) d = Some (r, d')"
  shows "r = Inr ()"
proof -
  have ok: "import_documents (Some send) i ds pk d = (r, docs, d1) \<Longrightarrow> r = Inr ()" for i ds pk d r docs d1
  proof -
    obtain response d2 where "send (ImportData i ds pk) d = (Answered (Inr response), d2)" using assms(1) by blast
    moreover assume "import_documents (Some send) i ds pk d = (r, docs, d1)"
    ultimately show "r = Inr ()" by (simp add: import_documents_def)
  qed
  have "full_sync_loop (Some send) tx sg task rows [] 0 d = Some (r1, docs, d1) \<Longrightarrow> \<exists>n. r1 = Inr n" for r1 docs d1
    by (rule full_sync_loop_ok [OF ok])
  with assms(2) show ?thesis
    by (fastforce simp: perform_full_sync_def dest: ok split: option.splits sum.splits prod.splits if_splits)
qed

theorem full_sync_reports_success_witness:
  "\<exists>r d. perform_full_sync (Some demo_send) (pm_texts demo_stream) (pm_stages demo_stream) (demo_task ''users'' ''u'')
      (Some (Inr [Inl ChannelSend])) 0 = Some (r, d) \<and> r = Inr () \<and> sy_failed_count demo_response = 2"
proof -
  obtain r d where run: "perform_full_sync (Some demo_send) (pm_texts demo_stream) (pm_stages demo_stream)
      (demo_task ''users'' ''u'') (Some (Inr [Inl ChannelSend])) 0 = Some (r, d)"
    by (simp add: perform_full_sync_def)
  have "\<forall>cmd d. \<exists>response d1. demo_send cmd d = (Answered (Inr response), d1)"
    by (simp add: demo_send_def)
  from full_sync_reports_success [OF this run] run show ?thesis
    by (intro exI [of _ r] exI [of _ d]) (simp add: demo_response_def)
qed

end
