(* ===== verification/Parallel.thy ===== *)
theory Parallel
  imports Delivery "HOL-Library.Multiset"
begin

text \<open>
  Parallel processing, \<open>src/pipeline/parallel_processor.rs\<close>, and the tasks of
  \<open>src/pipeline/orchestrator.rs\<close> that feed it and read its results. Queues, permits and
  workers are explicit; every turn of a task that the scheduler may choose is a step of its own.
\<close>

section \<open>Processors and their queues\<close>

record parallel_config =
  pc_workers_per_table :: nat
  pc_max_concurrent_events :: nat
  pc_work_stealing :: bool
  pc_steal_interval_ms :: u64

definition parallel_config_default :: parallel_config where
  "parallel_config_default = \<lparr>pc_workers_per_table = 4, pc_max_concurrent_events = 1000,
     pc_work_stealing = True, pc_steal_interval_ms = 100\<rparr>"

text \<open>
  A worker between its turns: idle, waiting for permits with the events it took from the queue,
  sending processed events while it holds permits, or gone (after a shutdown or a panic).
\<close>

datatype worker =
    Idle
  | AwaitingPermits "stream_event list"
  | SendingEvents nat "stream_event list"
  | Gone

record table_processor =
  tq_table_name :: string
  tq_config :: parallel_config
  tq_queue :: "stream_event list"
  tq_permits :: nat
  tq_workers :: "worker list"
  tq_texts :: texts
  tq_stages :: stages
  tq_results :: "stream_event list list"

definition processor_new :: "string \<Rightarrow> parallel_config \<Rightarrow> texts \<Rightarrow> stages \<Rightarrow> table_processor" where
  "processor_new table config tx sg =
     \<lparr>tq_table_name = table, tq_config = config, tq_queue = [],
      tq_permits = pc_max_concurrent_events config, tq_workers = [],
      tq_texts = tx, tq_stages = sg, tq_results = []\<rparr>"

definition start_workers :: "table_processor \<Rightarrow> table_processor" where
  "start_workers p =
     p\<lparr>tq_workers := tq_workers p @ replicate (pc_workers_per_table (tq_config p)) Idle\<rparr>"

definition enqueue_events :: "stream_event list \<Rightarrow> table_processor \<Rightarrow> table_processor" where
  "enqueue_events events p = p\<lparr>tq_queue := tq_queue p @ events\<rparr>"

definition queue_size :: "table_processor \<Rightarrow> nat" where
  "queue_size p = length (tq_queue p)"

text \<open>\<open>Vec::pop\<close>, \<open>n\<close> times.\<close>

fun pop_events :: "nat \<Rightarrow> 'a list \<Rightarrow> 'a list \<times> 'a list" where
  "pop_events 0 queue = ([], queue)"
| "pop_events (Suc n) queue =
     (if queue = [] then pop_events n queue
      else (case pop_events n (butlast queue) of (stolen, rest) \<Rightarrow> (last queue # stolen, rest)))"

definition steal_events :: "nat \<Rightarrow> table_processor \<Rightarrow> stream_event list \<times> table_processor" where
  "steal_events wanted p =
     (let steal_count = min wanted (length (tq_queue p) div 2)
      in if steal_count > 0 then
           (case pop_events steal_count (tq_queue p) of (stolen, queue) \<Rightarrow> (stolen, p\<lparr>tq_queue := queue\<rparr>))
         else ([], p))"

section \<open>Workers\<close>

text \<open>The events that come out of the stages; \<open>None\<close> when one of them panics.\<close>

fun process_events_of :: "texts \<Rightarrow> stages \<Rightarrow> stream_event list \<Rightarrow> stream_event list option" where
  "process_events_of tx sg [] = Some []"
| "process_events_of tx sg (e # es) =
     (case parallel_single_event tx sg e of
        None \<Rightarrow> None
      | Some r \<Rightarrow>
          map_option (\<lambda>rest. case r of Some processed \<Rightarrow> processed # rest | None \<Rightarrow> rest)
            (process_events_of tx sg es))"

definition set_worker :: "nat \<Rightarrow> worker \<Rightarrow> table_processor \<Rightarrow> table_processor" where
  "set_worker i w p = p\<lparr>tq_workers := (tq_workers p)[i := w]\<rparr>"

text \<open>
  The turns of a worker: take up to ten events, get as many permits, process, send. The last one
  returns the batch that goes into the channel of results.
\<close>

definition worker_take :: "nat \<Rightarrow> table_processor \<Rightarrow> table_processor" where
  "worker_take i p =
     (let take_count = min 10 (length (tq_queue p));
          events = take take_count (tq_queue p);
          p1 = p\<lparr>tq_queue := drop take_count (tq_queue p)\<rparr>
      in if events = [] then p1 else set_worker i (AwaitingPermits events) p1)"

definition worker_acquire :: "nat \<Rightarrow> stream_event list \<Rightarrow> table_processor \<Rightarrow> table_processor option" where
  "worker_acquire i events p =
     (if length events \<le> tq_permits p then
        Some (case process_events_of (tq_texts p) (tq_stages p) events of
           None \<Rightarrow> set_worker i Gone p
         | Some processed \<Rightarrow>
             set_worker i (SendingEvents (length events) processed)
               (p\<lparr>tq_permits := tq_permits p - length events\<rparr>))
      else None)"

definition worker_send :: "nat \<Rightarrow> nat \<Rightarrow> stream_event list \<Rightarrow> table_processor \<Rightarrow> table_processor" where
  "worker_send i permits processed p =
     set_worker i Idle (p\<lparr>tq_permits := tq_permits p + permits,
       tq_results := tq_results p @ (if processed = [] then [] else [processed])\<rparr>)"

definition worker_shutdown :: "nat \<Rightarrow> table_processor \<Rightarrow> table_processor" where
  "worker_shutdown i p = set_worker i Gone p"

section \<open>Work stealing\<close>

text \<open>The registered processors, in order of registration.\<close>

type_synonym registry = "table_processor list"

definition register_processor :: "table_processor \<Rightarrow> registry \<Rightarrow> registry" where
  "register_processor p ps = ps @ [p]"

text \<open>The period of a timer must not be zero.\<close>

definition stealing_starts :: "parallel_config \<Rightarrow> bool" where
  "stealing_starts config \<longleftrightarrow> pc_steal_interval_ms config \<noteq> 0"

definition by_queue_size :: "registry \<Rightarrow> (nat \<times> nat) list" where
  "by_queue_size ps = sort_key snd (enumerate 0 (map queue_size ps))"

definition balance_work :: "registry \<Rightarrow> registry" where
  "balance_work ps =
     (if length ps < 2 then ps
      else
        (let queue_info = by_queue_size ps;
             (small, small_size) = hd queue_info;
             (large, large_size) = last queue_info
         in if large_size > small_size + 100 then
              (case steal_events ((large_size - small_size) div 2) (ps ! large) of
                 (stolen, p) \<Rightarrow>
                   if stolen = [] then ps[large := p]
                   else (let ps1 = ps[large := p] in ps1[small := enqueue_events stolen (ps1 ! small)]))
            else ps))"

section \<open>Feeding a processor and reading its results\<close>

text \<open>One turn of the distributor: its batch, the events to enqueue, and whether it goes on.\<close>

fun distribute_step ::
  "stream_input \<Rightarrow> stream_event list \<Rightarrow> stream_event list \<times> stream_event list \<times> bool" where
  "distribute_step (Received (Inr event)) batch =
     (let batch1 = batch @ [event] in if length batch1 \<ge> 50 then ([], batch1, True) else (batch1, [], True))"
| "distribute_step (Received (Inl e)) batch = (batch, [], True)"
| "distribute_step TimerTick batch = ([], batch, True)"
| "distribute_step (ShutdownChanged down) batch = (if down then ([], batch, False) else (batch, [], True))"

fun distribute_events ::
  "stream_input list \<Rightarrow> stream_event list \<Rightarrow> table_processor \<Rightarrow> stream_event list \<times> table_processor" where
  "distribute_events [] batch p = (batch, p)"
| "distribute_events (x # xs) batch p =
     (case distribute_step x batch of
        (batch1, events, goes_on) \<Rightarrow>
          (let p1 = (if events = [] then p else enqueue_events events p)
           in if goes_on then distribute_events xs batch1 p1 else (batch1, p1)))"

text \<open>What happens to one batch of results; failures are counted in the log only.\<close>

definition parallel_result ::
  "(stream_event list \<Rightarrow> 'd \<Rightarrow> answer \<times> 'd) \<Rightarrow> string \<Rightarrow> stream_event list \<Rightarrow>
     'd \<times> (string, position) hmap \<Rightarrow> 'd \<times> (string, position) hmap" where
  "parallel_result deliver task_id events st =
     (if events = [] then st
      else (case deliver events (fst st) of
              (Answered (Inr response), d) \<Rightarrow>
                (d, case sy_last_position response of
                      Some position \<Rightarrow> hm_insert task_id position (snd st)
                    | None \<Rightarrow> snd st)
            | (_, d) \<Rightarrow> (d, snd st)))"

definition process_parallel_results ::
  "(stream_event list \<Rightarrow> 'd \<Rightarrow> answer \<times> 'd) \<Rightarrow> string \<Rightarrow> stream_event list list \<Rightarrow>
     'd \<times> (string, position) hmap \<Rightarrow> 'd \<times> (string, position) hmap" where
  "process_parallel_results deliver task_id = fold (parallel_result deliver task_id)"

section \<open>Runs of the processors\<close>

text \<open>
  What the scheduler may do next: the events that enter the queues and the events that are
  processed are counted along a run.
\<close>

inductive par_run ::
  "registry \<Rightarrow> stream_event multiset \<Rightarrow> stream_event multiset \<Rightarrow> registry \<Rightarrow> bool" for ps0 where
  par_start: "par_run ps0 {#} {#} ps0"
| par_enqueue: "par_run ps0 entered handled ps \<Longrightarrow> i < length ps \<Longrightarrow>
    par_run ps0 (entered + mset events) handled (ps[i := enqueue_events events (ps ! i)])"
| par_take: "par_run ps0 entered handled ps \<Longrightarrow> i < length ps \<Longrightarrow> j < length (tq_workers (ps ! i)) \<Longrightarrow>
    tq_workers (ps ! i) ! j = Idle \<Longrightarrow> par_run ps0 entered handled (ps[i := worker_take j (ps ! i)])"
| par_acquire: "par_run ps0 entered handled ps \<Longrightarrow> i < length ps \<Longrightarrow> j < length (tq_workers (ps ! i)) \<Longrightarrow>
    tq_workers (ps ! i) ! j = AwaitingPermits events \<Longrightarrow> worker_acquire j events (ps ! i) = Some p \<Longrightarrow>
    par_run ps0 entered (handled + mset events) (ps[i := p])"
| par_send: "par_run ps0 entered handled ps \<Longrightarrow> i < length ps \<Longrightarrow> j < length (tq_workers (ps ! i)) \<Longrightarrow>
    tq_workers (ps ! i) ! j = SendingEvents n processed \<Longrightarrow>
    par_run ps0 entered handled (ps[i := worker_send j n processed (ps ! i)])"
| par_shutdown: "par_run ps0 entered handled ps \<Longrightarrow> i < length ps \<Longrightarrow> j < length (tq_workers (ps ! i)) \<Longrightarrow>
    tq_workers (ps ! i) ! j = Idle \<Longrightarrow> par_run ps0 entered handled (ps[i := worker_shutdown j (ps ! i)])"
| par_balance: "par_run ps0 entered handled ps \<Longrightarrow> par_run ps0 entered handled (balance_work ps)"

fun awaiting :: "worker \<Rightarrow> stream_event multiset" where
  "awaiting (AwaitingPermits events) = mset events"
| "awaiting w = {#}"

fun permits_held :: "worker \<Rightarrow> nat" where
  "permits_held (SendingEvents n processed) = n"
| "permits_held w = 0"

definition pending :: "table_processor \<Rightarrow> stream_event multiset" where
  "pending p = mset (tq_queue p) + sum_list (map awaiting (tq_workers p))"

definition all_pending :: "registry \<Rightarrow> stream_event multiset" where
  "all_pending ps = sum_list (map pending ps)"

definition permits_ok :: "table_processor \<Rightarrow> bool" where
  "permits_ok p \<longleftrightarrow> tq_permits p + sum_list (map permits_held (tq_workers p)) = pc_max_concurrent_events (tq_config p)"

section \<open>Stealing\<close>

lemma pop_events_eq: "pop_events n q = (rev (drop (length q - n) q), take (length q - n) q)"
proof (induction n arbitrary: q)
  case (Suc n)
  show ?case
  proof (cases q rule: rev_cases)
    case (snoc xs x)
    then show ?thesis by (simp add: Suc)
  qed (simp add: Suc)
qed simp

lemma steal_events_eq:
  "steal_events n p =
     (let k = length (tq_queue p) - min n (length (tq_queue p) div 2)
      in (rev (drop k (tq_queue p)), p\<lparr>tq_queue := take k (tq_queue p)\<rparr>))"
  by (simp add: steal_events_def pop_events_eq Let_def)

lemma by_queue_size_set: "set (by_queue_size ps) = {(i, queue_size (ps ! i)) | i. i < length ps}"
  by (auto simp: by_queue_size_def in_set_enumerate_eq)

lemma by_queue_size_extremes:
  assumes "ps \<noteq> []" and "hd (by_queue_size ps) = (small, s)" and "last (by_queue_size ps) = (large, l)"
  shows "small < length ps" "large < length ps" "s = queue_size (ps ! small)" "l = queue_size (ps ! large)"
    "\<forall>p \<in> set ps. s \<le> queue_size p \<and> queue_size p \<le> l"
proof -
  let ?qs = "by_queue_size ps"
  have len: "length ?qs = length ps" by (simp add: by_queue_size_def)
  with assms(1) have ne: "?qs \<noteq> []" by auto
  have "(small, s) \<in> set ?qs" "(large, l) \<in> set ?qs"
    using hd_in_set [OF ne] last_in_set [OF ne] assms(2,3) by simp_all
  then show "small < length ps" "large < length ps" "s = queue_size (ps ! small)" "l = queue_size (ps ! large)"
    by (auto simp: by_queue_size_set)
  have sorted: "sorted (map snd ?qs)" by (simp add: by_queue_size_def)
  show "\<forall>p \<in> set ps. s \<le> queue_size p \<and> queue_size p \<le> l"
  proof
    fix p assume "p \<in> set ps"
    then obtain i where "i < length ps" "p = ps ! i" by (auto simp: in_set_conv_nth)
    then have "(i, queue_size p) \<in> set ?qs" by (auto simp: by_queue_size_set)
    then obtain k where k: "k < length ?qs" "?qs ! k = (i, queue_size p)" by (auto simp: in_set_conv_nth)
    have "snd (?qs ! 0) \<le> snd (?qs ! k)" "snd (?qs ! k) \<le> snd (?qs ! (length ?qs - 1))"
      using sorted_nth_mono [OF sorted, of 0 k] sorted_nth_mono [OF sorted, of k "length ?qs - 1"] k(1) ne
      by (simp_all add: nth_map [symmetric, of _ _ snd] del: nth_map)
    with k(2) assms(2,3) ne show "s \<le> queue_size p \<and> queue_size p \<le> l"
      by (simp add: hd_conv_nth last_conv_nth)
  qed
qed

text \<open>What one round of balancing does, when it moves anything.\<close>

definition moved :: "registry \<Rightarrow> nat \<Rightarrow> nat \<Rightarrow> nat \<Rightarrow> registry" where
  "moved ps small large k =
     ps[large := (ps ! large)\<lparr>tq_queue := take k (tq_queue (ps ! large))\<rparr>,
        small := enqueue_events (rev (drop k (tq_queue (ps ! large)))) (ps ! small)]"

lemma balance_work_cases:
  obtains "balance_work ps = ps"
  | small large where "small < length ps" "large < length ps" "small \<noteq> large"
      "queue_size (ps ! small) + 100 < queue_size (ps ! large)"
      "\<forall>p \<in> set ps. queue_size (ps ! small) \<le> queue_size p \<and> queue_size p \<le> queue_size (ps ! large)"
      "balance_work ps = moved ps small large
         (queue_size (ps ! large) - (queue_size (ps ! large) - queue_size (ps ! small)) div 2)"
proof (cases "length ps < 2")
  case True
  then show thesis using that(1) by (simp add: balance_work_def)
next
  case False
  then have "ps \<noteq> []" by auto
  obtain small s large l where ends: "hd (by_queue_size ps) = (small, s)" "last (by_queue_size ps) = (large, l)"
    by fastforce
  note ext = by_queue_size_extremes [OF \<open>ps \<noteq> []\<close> ends]
  show thesis
  proof (cases "l > s + 100")
    case True
    then have ne: "small \<noteq> large" using ext by auto
    let ?k = "l - (l - s) div 2"
    have k: "min ((l - s) div 2) (l div 2) = (l - s) div 2" by (simp add: min_def div_le_mono)
    have "balance_work ps = moved ps small large ?k"
      using False True ends ext ne k
      by (auto simp: balance_work_def steal_events_eq moved_def Let_def queue_size_def)
    with that(2) [of small large] ext ne True show thesis by simp
  next
    case False
    with \<open>\<not> length ps < 2\<close> ends that(1) show thesis by (simp add: balance_work_def)
  qed
qed

text \<open>
  Balancing moves the newest events of the longest queue to the shortest one, at least fifty,
  and evens the two out to within one event; but it appends them newest first, so that events of
  one row that are stolen together are handled in the opposite order.
\<close>

theorem stolen_events_are_reversed:
  assumes "balance_work ps \<noteq> ps"
  shows "\<exists>small large older newer. small < length ps \<and> large < length ps \<and> small \<noteq> large \<and>
    tq_queue (ps ! large) = older @ newer \<and> 50 \<le> length newer \<and>
    tq_queue (balance_work ps ! large) = older \<and>
    tq_queue (balance_work ps ! small) = tq_queue (ps ! small) @ rev newer \<and>
    queue_size (balance_work ps ! small) \<le> queue_size (balance_work ps ! large) \<and>
    queue_size (balance_work ps ! large) \<le> Suc (queue_size (balance_work ps ! small)) \<and>
    (\<forall>i. i \<noteq> small \<and> i \<noteq> large \<longrightarrow> balance_work ps ! i = ps ! i)"
proof (cases rule: balance_work_cases [of ps])
  case 1
  with assms show ?thesis by contradiction
next
  case (2 small large)
  let ?q = "tq_queue (ps ! large)" and ?l = "queue_size (ps ! large)" and ?s = "queue_size (ps ! small)"
  define k where "k = ?l - (?l - ?s) div 2"
  have sizes: "50 \<le> ?l - k" "?s + (?l - k) \<le> k" "k \<le> Suc (?s + (?l - k))" "k \<le> ?l"
    using 2(4) by (auto simp: k_def)
  have bal: "balance_work ps = moved ps small large k" using 2(6) by (simp add: k_def)
  have queues: "balance_work ps ! large = (ps ! large)\<lparr>tq_queue := take k ?q\<rparr>"
    "balance_work ps ! small = enqueue_events (rev (drop k ?q)) (ps ! small)"
    "i \<noteq> small \<Longrightarrow> i \<noteq> large \<Longrightarrow> balance_work ps ! i = ps ! i" for i
    unfolding bal moved_def using 2(1-3) by simp_all
  have "queue_size (balance_work ps ! large) = k" "queue_size (balance_work ps ! small) = ?s + (?l - k)"
    using sizes unfolding queues by (simp_all add: queue_size_def enqueue_events_def)
  with sizes 2(1-3) queues show ?thesis
    by (intro exI [of _ small] exI [of _ large] exI [of _ "take k ?q"] exI [of _ "drop k ?q"])
      (simp add: enqueue_events_def queue_size_def)
qed

lemma balance_two:
  assumes "queue_size a + 100 < queue_size b"
  shows "balance_work [a, b] = moved [a, b] 0 1 (queue_size b - (queue_size b - queue_size a) div 2)"
proof -
  have "by_queue_size [a, b] = [(0, queue_size a), (1, queue_size b)]"
    using assms by (simp add: by_queue_size_def)
  moreover have "min ((queue_size b - queue_size a) div 2) (length (tq_queue b) div 2) = (queue_size b - queue_size a) div 2"
    by (simp add: min_def queue_size_def div_le_mono)
  ultimately show ?thesis
    using assms by (auto simp: balance_work_def steal_events_eq moved_def Let_def queue_size_def)
qed

definition demo_processor :: "nat \<Rightarrow> stream_event list \<Rightarrow> worker list \<Rightarrow> table_processor" where
  "demo_processor permits queue ws =
     \<lparr>tq_table_name = ''users'', tq_config = parallel_config_default\<lparr>pc_max_concurrent_events := permits\<rparr>,
      tq_queue = queue, tq_permits = permits, tq_workers = ws,
      tq_texts = \<lparr>tt_json = (\<lambda>_. []), tt_unicode = ascii_tables, tt_now = []\<rparr>,
      tq_stages = \<lparr>sg_filter = None, sg_transformer = None, sg_mapper = None, sg_soft_delete = None\<rparr>,
      tq_results = []\<rparr>"

theorem stolen_events_are_reversed_witness:
  "\<exists>small large older newer.
    tq_queue (balance_work [demo_processor 9 [] [], demo_processor 9 (replicate 101 EvHeartbeat) []] ! large) = older \<and>
    tq_queue (balance_work [demo_processor 9 [] [], demo_processor 9 (replicate 101 EvHeartbeat) []] ! small) =
      tq_queue ([demo_processor 9 [] [], demo_processor 9 (replicate 101 EvHeartbeat) []] ! small) @ rev newer \<and>
    50 \<le> length newer"
proof -
  let ?ps = "[demo_processor 9 [] [], demo_processor 9 (replicate 101 EvHeartbeat) []]"
  have "length (tq_queue (balance_work ?ps ! 0)) = 50"
    by (subst balance_two) (simp_all add: demo_processor_def queue_size_def moved_def enqueue_events_def)
  then have "balance_work ?ps \<noteq> ?ps" by (auto simp: demo_processor_def)
  from stolen_events_are_reversed [OF this] show ?thesis by blast
qed

section \<open>No event is lost in the queues\<close>

lemma sum_list_update_mset:
  fixes xs :: "'a :: cancel_comm_monoid_add list"
  assumes "i < length xs"
  shows "sum_list (xs[i := y]) + xs ! i = sum_list xs + y"
  using assms by (induction xs arbitrary: i) (auto split: nat.splits simp: algebra_simps)

lemma all_pending_update:
  assumes "i < length ps" and "pending p + x = pending (ps ! i) + y"
  shows "all_pending (ps[i := p]) + x = all_pending ps + y"
proof -
  have "all_pending (ps[i := p]) + pending (ps ! i) = all_pending ps + pending p"
    using sum_list_update_mset [of i "map pending ps" "pending p"] assms(1)
    by (simp add: all_pending_def map_update)
  with assms(2) have "all_pending (ps[i := p]) + x + pending (ps ! i) = all_pending ps + y + pending (ps ! i)"
    by (metis add.assoc add.commute)
  then show ?thesis by simp
qed

lemma workers_update:
  assumes "j < length ws"
  shows "sum_list (map awaiting (ws[j := w])) + awaiting (ws ! j) = sum_list (map awaiting ws) + awaiting w"
    and "sum_list (map permits_held (ws[j := w])) + permits_held (ws ! j) = sum_list (map permits_held ws) + permits_held w"
  using sum_list_update_mset [of j "map awaiting ws" "awaiting w"]
    sum_list_update_mset [of j "map permits_held ws" "permits_held w"] assms by (simp_all add: map_update)

lemma pending_enqueue: "pending (enqueue_events events p) = pending p + mset events"
  by (simp add: pending_def enqueue_events_def)

lemma pending_set_worker:
  "j < length (tq_workers p) \<Longrightarrow> pending (set_worker j w p) + awaiting (tq_workers p ! j) = pending p + awaiting w"
  using workers_update(1) [of j "tq_workers p" w] by (simp add: pending_def set_worker_def ac_simps)

lemma pending_take:
  assumes "j < length (tq_workers p)" and "tq_workers p ! j = Idle"
  shows "pending (worker_take j p) = pending p"
proof -
  let ?n = "min 10 (length (tq_queue p))" and ?p = "p\<lparr>tq_queue := drop (min 10 (length (tq_queue p))) (tq_queue p)\<rparr>"
  have parts: "mset (take ?n (tq_queue p)) + mset (drop ?n (tq_queue p)) = mset (tq_queue p)"
    by (metis append_take_drop_id mset_append)
  then have "pending ?p + mset (take ?n (tq_queue p)) = pending p"
    by (simp add: pending_def) (metis (no_types, lifting) add.assoc add.commute)
  with pending_set_worker [of j ?p "AwaitingPermits (take ?n (tq_queue p))"] assms show ?thesis
    by (auto simp: worker_take_def Let_def)
qed

lemma pending_acquire:
  assumes "j < length (tq_workers p)" and "tq_workers p ! j = AwaitingPermits events"
    and "worker_acquire j events p = Some p'"
  shows "pending p' + mset events = pending p"
proof -
  have same: "pending (p\<lparr>tq_permits := n\<rparr>) = pending p" for n by (simp add: pending_def)
  show ?thesis
    using assms pending_set_worker [of j p Gone]
      pending_set_worker [of j "p\<lparr>tq_permits := tq_permits p - length events\<rparr>"] same
    by (auto simp: worker_acquire_def split: if_splits option.splits)
qed

lemma pending_send:
  assumes "j < length (tq_workers p)" and "tq_workers p ! j = SendingEvents n processed"
  shows "pending (worker_send j n processed p) = pending p"
proof -
  have "pending (set_worker j Idle (p\<lparr>tq_permits := a, tq_results := r\<rparr>)) = pending p" for a r
    using pending_set_worker [of j "p\<lparr>tq_permits := a, tq_results := r\<rparr>" Idle] assms
    by (simp add: pending_def)
  then show ?thesis by (simp add: worker_send_def)
qed

lemma all_pending_balance: "all_pending (balance_work ps) = all_pending ps"
proof (cases rule: balance_work_cases [of ps])
  case (2 small large)
  let ?q = "tq_queue (ps ! large)" and ?l = "queue_size (ps ! large)" and ?s = "queue_size (ps ! small)"
  define k where "k = ?l - (?l - ?s) div 2"
  let ?p = "(ps ! large)\<lparr>tq_queue := take k ?q\<rparr>"
  have parts: "mset (take k ?q) + mset (drop k ?q) = mset ?q" by (metis append_take_drop_id mset_append)
  then have "pending ?p + mset (drop k ?q) = pending (ps ! large)"
    by (simp add: pending_def)
  then have first: "all_pending (ps[large := ?p]) + mset (drop k ?q) = all_pending ps"
    using all_pending_update [of large ps ?p "mset (drop k ?q)" "{#}"] 2(2) by simp
  have "all_pending (moved ps small large k) = all_pending (ps[large := ?p]) + mset (drop k ?q)"
    using all_pending_update [of small "ps[large := ?p]" "enqueue_events (rev (drop k ?q)) (ps ! small)" "{#}" "mset (drop k ?q)"]
      2(1,3) by (simp add: moved_def pending_enqueue)
  with first 2(6) show ?thesis by (simp add: k_def)
qed simp

text \<open>
  No event is lost or duplicated between its queue and its processing: along every interleaving
  of enqueueing, workers and work stealing, the events that entered are exactly those handled by a
  worker and those still in a queue or in the hands of a worker that waits for permits.
\<close>

theorem queues_conserve_events:
  assumes "par_run ps0 entered handled ps"
  shows "entered + all_pending ps0 = handled + all_pending ps"
  using assms
proof (induction rule: par_run.induct)
  case (par_enqueue entered handled ps i events)
  with all_pending_update [of i ps "enqueue_events events (ps ! i)" "{#}" "mset events"]
  show ?case by (simp add: pending_enqueue ac_simps)
next
  case (par_take entered handled ps i j)
  with all_pending_update [of i ps "worker_take j (ps ! i)" "{#}" "{#}"] pending_take [of j "ps ! i"]
  show ?case by simp
next
  case (par_acquire entered handled ps i j events p)
  with all_pending_update [of i ps p "mset events" "{#}"] pending_acquire [of j "ps ! i" events p]
  show ?case by (simp add: ac_simps)
next
  case (par_send entered handled ps i j n processed)
  with all_pending_update [of i ps "worker_send j n processed (ps ! i)" "{#}" "{#}"]
    pending_send [of j "ps ! i" n processed]
  show ?case by simp
next
  case (par_shutdown entered handled ps i j)
  with all_pending_update [of i ps "worker_shutdown j (ps ! i)" "{#}" "{#}"]
    pending_set_worker [of j "ps ! i" Gone]
  show ?case by (simp add: worker_shutdown_def)
qed (simp_all add: all_pending_balance)

theorem queues_conserve_events_witness:
  "\<exists>handled ps. par_run [demo_processor 9 [] [Idle]] {#EvHeartbeat#} handled ps \<and> handled = {#EvHeartbeat#} \<and>
    all_pending ps = {#}"
proof -
  let ?p0 = "demo_processor 9 [] [Idle]"
  have "par_run [?p0] ({#} + mset [EvHeartbeat]) {#} ([?p0][0 := enqueue_events [EvHeartbeat] ([?p0] ! 0)])"
    by (rule par_enqueue [OF par_start]) simp
  then have one: "par_run [?p0] {#EvHeartbeat#} {#} [demo_processor 9 [EvHeartbeat] [Idle]]"
    by (simp add: demo_processor_def enqueue_events_def)
  have two: "par_run [?p0] {#EvHeartbeat#} {#} [demo_processor 9 [] [AwaitingPermits [EvHeartbeat]]]"
    using par_take [OF one, of 0 0] by (simp add: demo_processor_def worker_take_def set_worker_def Let_def)
  obtain p where p: "worker_acquire 0 [EvHeartbeat] (demo_processor 9 [] [AwaitingPermits [EvHeartbeat]]) = Some p"
    by (simp add: worker_acquire_def demo_processor_def)
  have three: "par_run [?p0] {#EvHeartbeat#} {#EvHeartbeat#} [p]"
    using par_acquire [OF two, of 0 0 "[EvHeartbeat]" p] p by (simp add: demo_processor_def)
  from queues_conserve_events [OF three] have "all_pending [p] = {#}"
    by (simp add: all_pending_def pending_def demo_processor_def)
  with three show ?thesis by blast
qed

section \<open>Permits\<close>

lemma set_worker_simps [simp]:
  "tq_permits (set_worker j w p) = tq_permits p" "tq_config (set_worker j w p) = tq_config p"
  "tq_queue (set_worker j w p) = tq_queue p" "tq_results (set_worker j w p) = tq_results p"
  "tq_workers (set_worker j w p) = (tq_workers p)[j := w]" "tq_texts (set_worker j w p) = tq_texts p"
  "tq_stages (set_worker j w p) = tq_stages p"
  by (simp_all add: set_worker_def)

abbreviation held :: "table_processor \<Rightarrow> nat" where
  "held p \<equiv> sum_list (map permits_held (tq_workers p))"

lemma permits_ok_set_worker:
  assumes "permits_ok p" and "j < length (tq_workers p)"
    and "tq_permits p' + permits_held w = tq_permits p + permits_held (tq_workers p ! j)"
    and "tq_workers p' = (tq_workers p)[j := w]" and "tq_config p' = tq_config p"
  shows "permits_ok p'"
  using assms workers_update(2) [of j "tq_workers p" w] by (simp add: permits_ok_def)

lemma permits_ok_turns:
  assumes "permits_ok p" and "j < length (tq_workers p)"
  shows "tq_workers p ! j = Idle \<Longrightarrow> permits_ok (worker_take j p)"
    and "tq_workers p ! j = AwaitingPermits events \<Longrightarrow> worker_acquire j events p = Some p' \<Longrightarrow> permits_ok p'"
    and "tq_workers p ! j = SendingEvents n processed \<Longrightarrow> permits_ok (worker_send j n processed p)"
    and "tq_workers p ! j = Idle \<Longrightarrow> permits_ok (worker_shutdown j p)"
proof -
  show "permits_ok (worker_take j p)" if "tq_workers p ! j = Idle"
  proof (cases "tq_queue p = []")
    case True
    with assms(1) show ?thesis by (simp add: worker_take_def permits_ok_def)
  next
    case False
    with that show ?thesis
      by (intro permits_ok_set_worker [OF assms, of _ "AwaitingPermits (take (min 10 (length (tq_queue p))) (tq_queue p))"])
        (auto simp: worker_take_def Let_def min_def)
  qed
  show "permits_ok p'" if "tq_workers p ! j = AwaitingPermits events" "worker_acquire j events p = Some p'"
    using that permits_ok_set_worker [OF assms, of p' Gone]
      permits_ok_set_worker [OF assms, of p' "SendingEvents (length events) (the (process_events_of (tq_texts p) (tq_stages p) events))"]
    by (auto simp: worker_acquire_def split: if_splits option.splits)
  show "permits_ok (worker_send j n processed p)" if "tq_workers p ! j = SendingEvents n processed"
    using that permits_ok_set_worker [OF assms, of "worker_send j n processed p" Idle]
    by (simp add: worker_send_def)
  show "permits_ok (worker_shutdown j p)" if "tq_workers p ! j = Idle"
    using that permits_ok_set_worker [OF assms, of "worker_shutdown j p" Gone]
    by (simp add: worker_shutdown_def)
qed

lemma update_preserves: "\<forall>p \<in> set ps. P p \<Longrightarrow> P p' \<Longrightarrow> \<forall>p \<in> set (ps[i := p']). P p"
  using set_update_subset_insert [of ps i p'] by auto

text \<open>Whatever holds of every processor and does not look at its queue survives balancing.\<close>

lemma balance_preserves:
  assumes "\<forall>p \<in> set ps. P p" and "\<And>p q. P p \<Longrightarrow> P (p\<lparr>tq_queue := q\<rparr>)"
  shows "\<forall>p \<in> set (balance_work ps). P p"
proof (cases rule: balance_work_cases [of ps])
  case (2 small large)
  then have "P (ps ! small)" "P (ps ! large)" using assms(1) by simp_all
  with assms show ?thesis
    unfolding 2(6) moved_def enqueue_events_def by (intro update_preserves) simp_all
qed (use assms in simp)

lemma permits_ok_run:
  assumes "par_run ps0 entered handled ps" and "\<forall>p \<in> set ps0. permits_ok p"
  shows "\<forall>p \<in> set ps. permits_ok p"
  using assms
proof (induction rule: par_run.induct)
  case (par_enqueue entered handled ps i events)
  then have "permits_ok (enqueue_events events (ps ! i))" by (simp add: permits_ok_def enqueue_events_def)
  with par_enqueue show ?case by (intro update_preserves) simp_all
next
  case (par_take entered handled ps i j)
  then have "permits_ok (ps ! i)" by simp
  from permits_ok_turns(1) [OF this] par_take show ?case by (intro update_preserves) simp_all
next
  case (par_acquire entered handled ps i j events p)
  then have "permits_ok (ps ! i)" by simp
  from permits_ok_turns(2) [OF this] par_acquire show ?case by (intro update_preserves) simp_all
next
  case (par_send entered handled ps i j n processed)
  then have "permits_ok (ps ! i)" by simp
  from permits_ok_turns(3) [OF this] par_send show ?case by (intro update_preserves) simp_all
next
  case (par_shutdown entered handled ps i j)
  then have "permits_ok (ps ! i)" by simp
  from permits_ok_turns(4) [OF this] par_shutdown show ?case by (intro update_preserves) simp_all
next
  case (par_balance entered handled ps)
  then show ?case by (intro balance_preserves) (simp_all add: permits_ok_def)
qed simp

text \<open>
  Permits are accounted for: from freshly started processors, along every interleaving, the
  permits in use and the free ones of each processor add up to the configured maximum, so that no
  more events than that are between processing and the destination at any time.
\<close>

theorem permits_are_accounted_for:
  assumes "par_run (map start_workers (map (\<lambda>(t, c). processor_new t c tx sg) tables)) entered handled ps"
    and "p \<in> set ps"
  shows "tq_permits p + sum_list (map permits_held (tq_workers p)) = pc_max_concurrent_events (tq_config p)"
proof -
  have "permits_held Idle = 0" by simp
  then have "permits_ok (start_workers (processor_new t c tx sg))" for t c
    by (simp add: permits_ok_def start_workers_def processor_new_def map_replicate_const sum_list_replicate)
  then have "\<forall>p \<in> set (map start_workers (map (\<lambda>(t, c). processor_new t c tx sg) tables)). permits_ok p" by auto
  with permits_ok_run [OF assms(1)] assms(2) show ?thesis by (auto simp: permits_ok_def)
qed

theorem permits_are_accounted_for_witness:
  "\<exists>ps p. par_run (map start_workers (map (\<lambda>(t, c). processor_new t c (tq_texts (demo_processor 0 [] []))
        (tq_stages (demo_processor 0 [] []))) [(''users'', parallel_config_default)])) {#} {#} ps \<and> ps = [p] \<and>
    tq_permits p + sum_list (map permits_held (tq_workers p)) = 1000"
proof -
  let ?p = "start_workers (processor_new ''users'' parallel_config_default (tq_texts (demo_processor 0 [] []))
        (tq_stages (demo_processor 0 [] [])))"
  have run: "par_run (map start_workers (map (\<lambda>(t, c). processor_new t c (tq_texts (demo_processor 0 [] []))
        (tq_stages (demo_processor 0 [] []))) [(''users'', parallel_config_default)])) {#} {#} [?p]"
    by (simp add: par_start)
  from permits_are_accounted_for [OF run, of ?p]
  have "tq_permits ?p + sum_list (map permits_held (tq_workers ?p)) = 1000"
    by (simp add: start_workers_def processor_new_def parallel_config_default_def)
  with run show ?thesis by blast
qed

text \<open>A worker that waits for more permits than there are.\<close>

definition stuck :: "nat \<Rightarrow> stream_event list \<Rightarrow> table_processor \<Rightarrow> bool" where
  "stuck j events p \<longleftrightarrow> j < length (tq_workers p) \<and> tq_workers p ! j = AwaitingPermits events \<and>
     pc_max_concurrent_events (tq_config p) < length events"

lemma stuck_turns:
  assumes "stuck j events p" and "permits_ok p" and "j' < length (tq_workers p)"
  shows "tq_workers p ! j' = Idle \<Longrightarrow> stuck j events (worker_take j' p)"
    and "tq_workers p ! j' = AwaitingPermits events' \<Longrightarrow> worker_acquire j' events' p = Some p' \<Longrightarrow> stuck j events p'"
    and "tq_workers p ! j' = SendingEvents n processed \<Longrightarrow> stuck j events (worker_send j' n processed p)"
    and "tq_workers p ! j' = Idle \<Longrightarrow> stuck j events (worker_shutdown j' p)"
  using assms
  by (auto simp: stuck_def permits_ok_def worker_take_def worker_acquire_def worker_send_def worker_shutdown_def
      Let_def nth_list_update split: if_splits option.splits)

lemma stuck_run:
  assumes "par_run ps0 entered handled ps" and "\<forall>p \<in> set ps0. permits_ok p"
    and "i < length ps0" and "stuck j events (ps0 ! i)"
  shows "i < length ps \<and> stuck j events (ps ! i)"
  using assms
proof (induction rule: par_run.induct)
  case (par_balance entered handled ps)
  have keep: "stuck j events (p\<lparr>tq_queue := q\<rparr>) = stuck j events p" for p q by (simp add: stuck_def)
  from par_balance have "i < length ps \<and> stuck j events (ps ! i)" by simp
  then show ?case
    by (cases rule: balance_work_cases [of ps])
      (auto simp: moved_def enqueue_events_def nth_list_update keep)
next
  case (par_enqueue entered handled ps i' events')
  then show ?case by (auto simp: nth_list_update enqueue_events_def stuck_def)
next
  case (par_take entered handled ps i' j')
  with permits_ok_run [OF par_take(1)] show ?case
    by (auto simp: nth_list_update intro: stuck_turns(1))
next
  case (par_acquire entered handled ps i' j' events' p)
  with permits_ok_run [OF par_acquire(1)] show ?case
    by (auto simp: nth_list_update intro: stuck_turns(2))
next
  case (par_send entered handled ps i' j' n processed)
  with permits_ok_run [OF par_send(1)] show ?case
    by (auto simp: nth_list_update intro: stuck_turns(3))
next
  case (par_shutdown entered handled ps i' j')
  with permits_ok_run [OF par_shutdown(1)] show ?case
    by (auto simp: nth_list_update intro: stuck_turns(4))
qed simp

text \<open>
  With fewer than ten permits a worker can wait for ever: once it has taken more events from
  the queue than the configured maximum, it holds them at every later moment of every run, and
  they are never processed.
\<close>

theorem too_few_permits_block_a_worker:
  assumes "pc_max_concurrent_events (tq_config p) < min 10 (length (tq_queue p))" and "permits_ok p"
    and "j < length (tq_workers p)" and "tq_workers p ! j = Idle"
    and "par_run [worker_take j p] entered handled ps"
  shows "\<exists>p'. ps ! 0 = p' \<and> tq_workers p' ! j = AwaitingPermits (take 10 (tq_queue p))"
proof -
  let ?events = "take 10 (tq_queue p)"
  have taken: "worker_take j p = set_worker j (AwaitingPermits ?events)
      (p\<lparr>tq_queue := drop (min 10 (length (tq_queue p))) (tq_queue p)\<rparr>)"
    using assms(1) by (auto simp: worker_take_def Let_def min_def split: if_splits)
  have "stuck j ?events (worker_take j p)"
    using assms(1,3) by (simp add: taken stuck_def)
  moreover have "permits_ok (worker_take j p)"
    using permits_ok_turns(1) [OF assms(2,3,4)] .
  ultimately show ?thesis using stuck_run [OF assms(5), of 0 j ?events] by (simp add: stuck_def)
qed

theorem too_few_permits_block_a_worker_witness:
  "\<exists>p'. [worker_take 0 (demo_processor 1 [EvHeartbeat, EvHeartbeat] [Idle])] ! 0 = p' \<and>
    tq_workers p' ! 0 = AwaitingPermits [EvHeartbeat, EvHeartbeat]"
proof -
  let ?p = "demo_processor 1 [EvHeartbeat, EvHeartbeat] [Idle]"
  have "\<exists>p'. [worker_take 0 ?p] ! 0 = p' \<and> tq_workers p' ! 0 = AwaitingPermits (take 10 (tq_queue ?p))"
    by (rule too_few_permits_block_a_worker [OF _ _ _ _ par_start]) (simp_all add: demo_processor_def permits_ok_def)
  then show ?thesis by (simp add: demo_processor_def)
qed

section \<open>Order\<close>

text \<open>The events that reach the distributor before it stops.\<close>

fun received :: "stream_input list \<Rightarrow> stream_event list" where
  "received [] = []"
| "received (Received (Inr event) # xs) = event # received xs"
| "received (ShutdownChanged down # xs) = (if down then [] else received xs)"
| "received (x # xs) = received xs"

text \<open>
  The distributor puts every event it receives into the queue once and in order, except for
  fewer than fifty that wait in its batch.
\<close>

theorem distributor_keeps_order:
  assumes "distribute_events inputs batch p = (batch', p')" and "length batch < 50"
  shows "tq_queue p' @ batch' = tq_queue p @ batch @ received inputs \<and> length batch' < 50"
  using assms
proof (induction inputs arbitrary: batch p)
  case (Cons x xs)
  obtain batch1 events goes_on where step: "distribute_step x batch = (batch1, events, goes_on)"
    by (cases "distribute_step x batch")
  define p1 where "p1 = (if events = [] then p else enqueue_events events p)"
  have queue: "tq_queue p1 = tq_queue p @ events" by (simp add: p1_def enqueue_events_def)
  have "length batch1 < 50" "events @ batch1 @ (if goes_on then received xs else []) = batch @ received (x # xs)"
    using step Cons.prems(2) by (cases "(x, batch)" rule: distribute_step.cases; auto simp: Let_def split: if_splits)+
  with queue Cons.prems(1) Cons.IH [of batch1 p1] step show ?case
    by (cases goes_on) (auto simp: p1_def [symmetric])
qed simp

theorem distributor_keeps_order_witness:
  "\<exists>batch p. distribute_events [Received (Inr EvHeartbeat), TimerTick, Received (Inr demo_delete)] []
      (demo_processor 9 [] []) = (batch, p) \<and>
    tq_queue p @ batch = [EvHeartbeat, demo_delete] \<and> length batch < 50"
proof -
  obtain batch p where run: "distribute_events [Received (Inr EvHeartbeat), TimerTick, Received (Inr demo_delete)] []
      (demo_processor 9 [] []) = (batch, p)" by fastforce
  from distributor_keeps_order [OF this] run show ?thesis by (simp add: demo_processor_def)
qed

text \<open>
  Workers of one table overtake each other: with two idle workers and more than ten events in
  the queue, the second worker may send the later events while the first still holds the ten
  earlier ones, so that changes of one row reach the destination in the wrong order.
\<close>

theorem later_events_overtake:
  assumes "tq_queue p = earlier @ later" and "length earlier = 10" and "later \<noteq> []" and "length later \<le> 10"
    and "tq_workers p = [Idle, Idle]" and "length later \<le> tq_permits p"
    and "process_events_of (tq_texts p) (tq_stages p) later = Some out" and "out \<noteq> []"
  shows "\<exists>handled p'. par_run [p] {#} handled [p'] \<and> tq_results p' = tq_results p @ [out] \<and>
    tq_workers p' = [AwaitingPermits earlier, Idle] \<and> handled = mset later"
proof -
  let ?p1 = "p\<lparr>tq_queue := later, tq_workers := [AwaitingPermits earlier, Idle]\<rparr>"
  let ?p2 = "p\<lparr>tq_queue := [], tq_workers := [AwaitingPermits earlier, AwaitingPermits later]\<rparr>"
  let ?p3 = "p\<lparr>tq_queue := [], tq_permits := tq_permits p - length later,
      tq_workers := [AwaitingPermits earlier, SendingEvents (length later) out]\<rparr>"
  have "worker_take 0 p = ?p1"
    using assms(1-3,5) by (auto simp: worker_take_def set_worker_def Let_def min_def)
  with par_take [OF par_start, of 0 "[p]" 0] assms(5) have one: "par_run [p] {#} {#} [?p1]" by simp
  have "worker_take 1 ?p1 = ?p2"
    using assms(3,4) by (auto simp: worker_take_def set_worker_def Let_def min_def)
  with par_take [OF one, of 0 1] have two: "par_run [p] {#} {#} [?p2]" by simp
  have "worker_acquire 1 later ?p2 = Some ?p3"
    using assms(6,7) by (simp add: worker_acquire_def set_worker_def)
  with par_acquire [OF two, of 0 1 later ?p3] have three: "par_run [p] {#} (mset later) [?p3]" by simp
  have "par_run [p] {#} (mset later) [worker_send 1 (length later) out ?p3]"
    using par_send [OF three, of 0 1 "length later" out] by simp
  moreover have "tq_results (worker_send 1 (length later) out ?p3) = tq_results p @ [out]"
      "tq_workers (worker_send 1 (length later) out ?p3) = [AwaitingPermits earlier, Idle]"
    using assms(8) by (simp_all add: worker_send_def)
  ultimately show ?thesis by blast
qed

theorem later_events_overtake_witness:
  "\<exists>handled p'. par_run [demo_processor 99 (replicate 10 EvHeartbeat @ [demo_delete]) [Idle, Idle]] {#} handled [p'] \<and>
    tq_results p' = [[demo_delete]] \<and> tq_workers p' = [AwaitingPermits (replicate 10 EvHeartbeat), Idle]"
proof -
  let ?p = "demo_processor 99 (replicate 10 EvHeartbeat @ [demo_delete]) [Idle, Idle]"
  have out: "process_events_of (tq_texts ?p) (tq_stages ?p) [demo_delete] = Some [demo_delete]"
    by (simp add: demo_processor_def parallel_single_event_def filter_stage_def transform_stage_def mapper_stage_def
        soft_delete_stage_def and_then_def)
  have "\<exists>handled p'. par_run [?p] {#} handled [p'] \<and> tq_results p' = tq_results ?p @ [[demo_delete]] \<and>
      tq_workers p' = [AwaitingPermits (replicate 10 EvHeartbeat), Idle] \<and> handled = mset [demo_delete]"
    by (rule later_events_overtake [OF _ _ _ _ _ _ out]) (simp_all add: demo_processor_def)
  then show ?thesis by (auto simp: demo_processor_def)
qed

section \<open>The checkpoint of a parallel task\<close>

text \<open>
  Parallel results advance the checkpoint whatever failed: each batch is handed over once, the
  checkpoint becomes the position of the last answer that has one, and failures leave no other
  trace, since the dead letter queue is not used.
\<close>

theorem parallel_checkpoint_ignores_failures:
  assumes "\<forall>events log. deliver events log = (Answered (Inr (respond events)), log @ [events])"
  shows "process_parallel_results deliver task_id results ([], checkpoints) =
    (filter (\<lambda>b. b \<noteq> []) results,
     fold (hm_insert task_id) (List.map_filter (\<lambda>b. sy_last_position (respond b)) (filter (\<lambda>b. b \<noteq> []) results))
       checkpoints)"
proof -
  have "process_parallel_results deliver task_id results (trace, checkpoints) =
    (trace @ filter (\<lambda>b. b \<noteq> []) results,
     fold (hm_insert task_id) (List.map_filter (\<lambda>b. sy_last_position (respond b)) (filter (\<lambda>b. b \<noteq> []) results))
       checkpoints)" for trace
    unfolding process_parallel_results_def
  proof (induction results arbitrary: trace checkpoints)
    case (Cons b bs)
    from assms have "deliver b trace = (Answered (Inr (respond b)), trace @ [b])" by blast
    with Cons show ?case
      by (auto simp: parallel_result_def map_filter_simps split: option.splits)
  qed (simp add: map_filter_simps)
  from this [of "[]"] show ?thesis by simp
qed

theorem parallel_checkpoint_ignores_failures_witness:
  "process_parallel_results (\<lambda>events log. (Answered (Inr demo_response), log @ [events])) ''users''
      [[EvHeartbeat], []] ([], []) = ([[EvHeartbeat]], [(''users'', PostgreSQL ''0/2'')]) \<and>
    sy_failed_count demo_response = 2"
  using parallel_checkpoint_ignores_failures [of "\<lambda>events log. (Answered (Inr demo_response), log @ [events])"
      "\<lambda>_. demo_response" "''users''" "[[EvHeartbeat], []]" "[]"]
  by (simp add: demo_response_def map_filter_simps)

end
