(* ===== verification/CheckpointManager.thy ===== *)
theory CheckpointManager
  imports Storage
begin

text \<open>
  The checkpoint manager, \<open>src/checkpoint/manager.rs\<close>: a task that serves commands from a channel
  and keeps checkpoints in memory until it flushes them to the storage; and the persistence loop of
  \<open>src/pipeline/orchestrator.rs\<close> that feeds it. Identifiers and the clock are arguments.
\<close>

section \<open>State and commands\<close>

datatype checkpoint_command =
    SaveCmd string position
  | LoadCmd string
  | DeleteCmd string
  | ListCmd
  | FlushCmd

text \<open>What goes back through the response channel of a command, if it has one.\<close>

datatype checkpoint_response = NoAnswer | Loaded "checkpoint option" | Listed "checkpoint list"

datatype manager_phase = NotStarted | Serving | Stopped

record 's ckpt_manager =
  cm_storage :: 's
  cm_pending :: "(string, checkpoint) hmap"
  cm_batch_size :: nat
  cm_queue :: "checkpoint_command list"
  cm_phase :: manager_phase

definition manager_new :: "'s \<Rightarrow> nat \<Rightarrow> 's ckpt_manager" where
  "manager_new storage batch_size =
     \<lparr>cm_storage = storage, cm_pending = [], cm_batch_size = batch_size, cm_queue = [], cm_phase = NotStarted\<rparr>"

definition manager_start :: "'s ckpt_manager \<Rightarrow> 's ckpt_manager" where
  "manager_start s = s\<lparr>cm_phase := Serving\<rparr>"

section \<open>Serving commands\<close>

text \<open>The tasks whose checkpoints could not be saved.\<close>

fun save_each :: "'s storage_ops \<Rightarrow> checkpoint list \<Rightarrow> 's \<Rightarrow> string list \<times> 's" where
  "save_each ops [] st = ([], st)"
| "save_each ops (c # cs) st =
     (case st_save ops st c of
        (Inr _, st1) \<Rightarrow> save_each ops cs st1
      | (Inl e, st1) \<Rightarrow> (case save_each ops cs st1 of (failed, st2) \<Rightarrow> (ck_task_id c # failed, st2)))"

definition flush_pending :: "'s storage_ops \<Rightarrow> 's ckpt_manager \<Rightarrow> 's ckpt_manager" where
  "flush_pending ops s =
     (if cm_pending s = [] then s
      else (case save_each ops (hm_values (cm_pending s)) (cm_storage s) of
              (failed_tasks, st) \<Rightarrow>
                s\<lparr>cm_storage := st,
                  cm_pending := filter (\<lambda>(task_id, c). task_id \<in> set failed_tasks) (cm_pending s)\<rparr>))"

definition add_stored :: "checkpoint list \<Rightarrow> checkpoint list \<Rightarrow> checkpoint list" where
  "add_stored =
     foldl (\<lambda>all c. if list_ex (\<lambda>c'. ck_task_id c' = ck_task_id c) all then all else all @ [c])"

fun serve ::
  "'s storage_ops \<Rightarrow> string \<Rightarrow> time \<Rightarrow> checkpoint_command \<Rightarrow> 's ckpt_manager \<Rightarrow>
     checkpoint_response \<times> 's ckpt_manager" where
  "serve ops uuid now (SaveCmd task_id position) s =
     (let s1 = s\<lparr>cm_pending := hm_insert task_id (checkpoint_new uuid now task_id position) (cm_pending s)\<rparr>
      in (NoAnswer, if length (cm_pending s1) \<ge> cm_batch_size s1 then flush_pending ops s1 else s1))"
| "serve ops uuid now (LoadCmd task_id) s =
     (case hm_get (cm_pending s) task_id of
        Some c \<Rightarrow> (Loaded (Some c), s)
      | None \<Rightarrow>
          (case st_load ops (cm_storage s) task_id of
             (Inr c, st) \<Rightarrow> (Loaded c, s\<lparr>cm_storage := st\<rparr>)
           | (Inl e, st) \<Rightarrow> (Loaded None, s\<lparr>cm_storage := st\<rparr>)))"
| "serve ops uuid now (DeleteCmd task_id) s =
     (NoAnswer, s\<lparr>cm_pending := hm_remove task_id (cm_pending s),
                  cm_storage := snd (st_delete ops (cm_storage s) task_id)\<rparr>)"
| "serve ops uuid now ListCmd s =
     (let pending = hm_values (cm_pending s)
      in case st_list ops (cm_storage s) of
           (Inr stored, st) \<Rightarrow> (Listed (add_stored pending stored), s\<lparr>cm_storage := st\<rparr>)
         | (Inl e, st) \<Rightarrow> (Listed pending, s\<lparr>cm_storage := st\<rparr>))"
| "serve ops uuid now FlushCmd s = (NoAnswer, flush_pending ops s)"

section \<open>The channel\<close>

definition send_command :: "checkpoint_command \<Rightarrow> 's ckpt_manager \<Rightarrow> unit result \<times> 's ckpt_manager" where
  "send_command cmd s =
     (case cm_phase s of
        NotStarted \<Rightarrow> (Inl (Pipeline ''Checkpoint manager not started''), s)
      | Stopped \<Rightarrow> (Inl ChannelSend, s)
      | Serving \<Rightarrow> (Inr (), s\<lparr>cm_queue := cm_queue s @ [cmd]\<rparr>))"

definition save_checkpoint :: "string \<Rightarrow> position \<Rightarrow> 's ckpt_manager \<Rightarrow> unit result \<times> 's ckpt_manager" where
  "save_checkpoint task_id position = send_command (SaveCmd task_id position)"

definition delete_checkpoint :: "string \<Rightarrow> 's ckpt_manager \<Rightarrow> unit result \<times> 's ckpt_manager" where
  "delete_checkpoint task_id = send_command (DeleteCmd task_id)"

text \<open>The first \<open>n\<close> waiting commands are served; the answers are those of the last one.\<close>

fun serve_waiting ::
  "'s storage_ops \<Rightarrow> (nat \<Rightarrow> string \<times> time) \<Rightarrow> nat \<Rightarrow> checkpoint_response \<Rightarrow> 's ckpt_manager \<Rightarrow>
     checkpoint_response \<times> 's ckpt_manager" where
  "serve_waiting ops fresh 0 r s = (r, s)"
| "serve_waiting ops fresh (Suc n) r s =
     (case cm_queue s of
        [] \<Rightarrow> (r, s)
      | cmd # cmds \<Rightarrow>
          (case serve ops (fst (fresh n)) (snd (fresh n)) cmd (s\<lparr>cm_queue := cmds\<rparr>) of
             (r1, s1) \<Rightarrow> serve_waiting ops fresh n r1 s1))"

text \<open>A command with an answer waits until everything before it is served.\<close>

definition ask ::
  "'s storage_ops \<Rightarrow> (nat \<Rightarrow> string \<times> time) \<Rightarrow> checkpoint_command \<Rightarrow> 's ckpt_manager \<Rightarrow>
     checkpoint_response result \<times> 's ckpt_manager" where
  "ask ops fresh cmd s =
     (case send_command cmd s of
        (Inl e, s1) \<Rightarrow> (Inl e, s1)
      | (Inr _, s1) \<Rightarrow> (case serve_waiting ops fresh (length (cm_queue s1)) NoAnswer s1 of (r, s2) \<Rightarrow> (Inr r, s2)))"

definition load_checkpoint ::
  "'s storage_ops \<Rightarrow> (nat \<Rightarrow> string \<times> time) \<Rightarrow> string \<Rightarrow> 's ckpt_manager \<Rightarrow>
     checkpoint option result \<times> 's ckpt_manager" where
  "load_checkpoint ops fresh task_id s =
     (case ask ops fresh (LoadCmd task_id) s of
        (Inr (Loaded c), s1) \<Rightarrow> (Inr c, s1)
      | (Inr _, s1) \<Rightarrow> (Inl ChannelReceive, s1)
      | (Inl e, s1) \<Rightarrow> (Inl e, s1))"

definition list_checkpoints ::
  "'s storage_ops \<Rightarrow> (nat \<Rightarrow> string \<times> time) \<Rightarrow> 's ckpt_manager \<Rightarrow> checkpoint list result \<times> 's ckpt_manager" where
  "list_checkpoints ops fresh s =
     (case ask ops fresh ListCmd s of
        (Inr (Listed cs), s1) \<Rightarrow> (Inr cs, s1)
      | (Inr _, s1) \<Rightarrow> (Inl ChannelReceive, s1)
      | (Inl e, s1) \<Rightarrow> (Inl e, s1))"

text \<open>
  Stopping: \<open>served\<close> commands are served before the loop sees the shutdown signal; what is left in
  the channel is dropped with it.
\<close>

definition manager_stop ::
  "'s storage_ops \<Rightarrow> (nat \<Rightarrow> string \<times> time) \<Rightarrow> nat \<Rightarrow> 's ckpt_manager \<Rightarrow> 's ckpt_manager" where
  "manager_stop ops fresh served s =
     (case cm_phase s of
        Serving \<Rightarrow>
          (let s1 = snd (serve_waiting ops fresh served NoAnswer (snd (send_command FlushCmd s)))
           in (flush_pending ops s1)\<lparr>cm_queue := [], cm_phase := Stopped\<rparr>)
      | _ \<Rightarrow> s)"

section \<open>Cleaning up\<close>

definition group_by_task :: "checkpoint list \<Rightarrow> (string, checkpoint list) hmap" where
  "group_by_task =
     foldl (\<lambda>m c. hm_insert (ck_task_id c)
         ((case hm_get m (ck_task_id c) of Some cs \<Rightarrow> cs | None \<Rightarrow> []) @ [c]) m) []"

text \<open>The tasks whose checkpoints are deleted, one entry per checkpoint; orphans first.\<close>

definition orphans :: "string list \<Rightarrow> (string, checkpoint list) hmap \<Rightarrow> string list" where
  "orphans active groups =
     concat (map (\<lambda>(task_id, cs). if task_id \<in> set active then [] else replicate (length cs) task_id) groups)"

fun surplus :: "nat \<Rightarrow> string list \<Rightarrow> (string, checkpoint list) hmap \<Rightarrow> string list" where
  "surplus n [] groups = []"
| "surplus n (task_id # active) groups =
     (case hm_get groups task_id of
        None \<Rightarrow> surplus n active groups
      | Some cs \<Rightarrow>
          (let sorted = sort_key (\<lambda>c. - ck_created_at c) cs
           in if length sorted > n
              then map ck_task_id (drop n sorted) @ surplus n active (hm_insert task_id (take n sorted) groups)
              else surplus n active (hm_insert task_id sorted groups)))"

definition cleanup_checkpoints ::
  "'s storage_ops \<Rightarrow> (nat \<Rightarrow> string \<times> time) \<Rightarrow> string list \<Rightarrow> nat \<Rightarrow> 's ckpt_manager \<Rightarrow>
     unit result \<times> 's ckpt_manager" where
  "cleanup_checkpoints ops fresh active max_checkpoints s =
     (case list_checkpoints ops fresh s of
        (Inl e, s1) \<Rightarrow> (Inl e, s1)
      | (Inr cs, s1) \<Rightarrow>
          (let groups = group_by_task cs
           in (Inr (), fold (\<lambda>task_id s. snd (delete_checkpoint task_id s))
                 (orphans active groups @ surplus max_checkpoints active groups) s1)))"

section \<open>The persistence loop\<close>

definition persist_checkpoints :: "(string, position) hmap \<Rightarrow> 's ckpt_manager \<Rightarrow> 's ckpt_manager" where
  "persist_checkpoints checkpoints s =
     fold (\<lambda>(task_id, position) s. snd (save_checkpoint task_id position s)) checkpoints s"

section \<open>What the manager implements\<close>

text \<open>
  The abstraction: a map from tasks to checkpoints, in which what is pending hides what is stored.
\<close>

definition ckpt_view :: "('s \<Rightarrow> string \<Rightarrow> checkpoint option) \<Rightarrow> 's ckpt_manager \<Rightarrow> string \<Rightarrow> checkpoint option" where
  "ckpt_view stored s = stored (cm_storage s) ++ hm_get (cm_pending s)"

definition cm_ok :: "('s \<Rightarrow> bool) \<Rightarrow> 's ckpt_manager \<Rightarrow> bool" where
  "cm_ok sinv s \<longleftrightarrow> sinv (cm_storage s) \<and> hm_ok (cm_pending s) \<and>
     (\<forall>(t, c) \<in> set (cm_pending s). ck_task_id c = t)"

lemma ckpt_view_apply:
  "ckpt_view stored s t = (case hm_get (cm_pending s) t of Some c \<Rightarrow> Some c | None \<Rightarrow> stored (cm_storage s) t)"
  by (simp add: ckpt_view_def map_add_def)

lemma view_storage:
  "stored st = stored (cm_storage s) \<Longrightarrow> ckpt_view stored (s\<lparr>cm_storage := st\<rparr>) = ckpt_view stored s"
  by (simp add: ckpt_view_def)

text \<open>A storage that may refuse to save, but otherwise answers.\<close>

definition answering :: "'s storage_ops \<Rightarrow> bool" where
  "answering ops \<longleftrightarrow> (\<forall>st t. (\<exists>c. fst (st_load ops st t) = Inr c) \<and> fst (st_delete ops st t) = Inr () \<and>
     (\<exists>cs. fst (st_list ops st) = Inr cs))"

text \<open>The commands on the abstract map, and the answers it gives.\<close>

fun spec_map :: "string \<Rightarrow> time \<Rightarrow> checkpoint_command \<Rightarrow> (string \<Rightarrow> checkpoint option) \<Rightarrow> string \<Rightarrow> checkpoint option" where
  "spec_map uuid now (SaveCmd t p) m = m(t \<mapsto> checkpoint_new uuid now t p)"
| "spec_map uuid now (DeleteCmd t) m = m(t := None)"
| "spec_map uuid now cmd m = m"

fun spec_answer :: "checkpoint_command \<Rightarrow> (string \<Rightarrow> checkpoint option) \<Rightarrow> checkpoint_response \<Rightarrow> bool" where
  "spec_answer (LoadCmd t) m r \<longleftrightarrow> r = Loaded (m t)"
| "spec_answer ListCmd m r \<longleftrightarrow>
     (\<exists>cs. r = Listed cs \<and> distinct (map ck_task_id cs) \<and> (\<forall>c. c \<in> set cs \<longleftrightarrow> m (ck_task_id c) = Some c))"
| "spec_answer cmd m r \<longleftrightarrow> r = NoAnswer"

lemma add_stored_ids:
  "distinct (map ck_task_id all) \<Longrightarrow> distinct (map ck_task_id cs) \<Longrightarrow>
   distinct (map ck_task_id (add_stored all cs)) \<and>
   set (add_stored all cs) = set all \<union> {c \<in> set cs. ck_task_id c \<notin> ck_task_id ` set all}"
proof (induction cs arbitrary: all)
  case (Cons c cs)
  show ?case
  proof (cases "list_ex (\<lambda>c'. ck_task_id c' = ck_task_id c) all")
    case True
    then have "ck_task_id c \<in> ck_task_id ` set all" by (auto simp: list_ex_iff intro: rev_image_eqI)
    with True Cons show ?thesis by (auto simp: add_stored_def)
  next
    case False
    then have new: "ck_task_id c \<notin> ck_task_id ` set all" by (auto simp: list_ex_iff)
    with Cons.prems have "distinct (map ck_task_id (all @ [c]))" by simp
    from Cons.IH [OF this] Cons.prems have ih: "distinct (map ck_task_id (add_stored (all @ [c]) cs))"
      "set (add_stored (all @ [c]) cs) = set (all @ [c]) \<union> {c' \<in> set cs. ck_task_id c' \<notin> ck_task_id ` set (all @ [c])}"
      by auto
    have step: "add_stored all (c # cs) = add_stored (all @ [c]) cs" using False by (simp add: add_stored_def)
    have "ck_task_id c \<notin> ck_task_id ` set cs" using Cons.prems(2) by simp
    then have "ck_task_id c' \<noteq> ck_task_id c" if "c' \<in> set cs" for c' using that by (metis imageI)
    then show ?thesis unfolding step ih(2) using ih(1) new by auto
  qed
qed (simp add: add_stored_def)

context checkpoint_store
begin

lemma save_each_result:
  assumes "sinv st" and "distinct (map ck_task_id cs)" and "save_each ops cs st = (failed, st')"
  shows "sinv st' \<and> set failed \<subseteq> ck_task_id ` set cs \<and>
    (\<forall>t. t \<notin> ck_task_id ` set cs \<longrightarrow> stored st' t = stored st t) \<and>
    (\<forall>c \<in> set cs. ck_task_id c \<notin> set failed \<longrightarrow> stored st' (ck_task_id c) = Some c)"
  using assms
proof (induction cs arbitrary: st failed)
  case (Cons c cs)
  obtain r st1 where save: "st_save ops st c = (r, st1)" by fastforce
  show ?case
  proof (cases r)
    case (Inr u)
    from save_ok [OF Cons.prems(1) save [unfolded Inr]]
    have one: "sinv st1" "stored st1 = (stored st)(ck_task_id c \<mapsto> c)" by auto
    from Cons.prems(3) save Inr have "save_each ops cs st1 = (failed, st')" by simp
    from Cons.IH [OF one(1) _ this] Cons.prems(2) one(2) show ?thesis by auto
  next
    case (Inl e)
    from save_err [OF Cons.prems(1) save [unfolded Inl]]
    have one: "sinv st1" "stored st1 = stored st" by auto
    from Cons.prems(3) save Inl obtain failed1 where rest: "save_each ops cs st1 = (failed1, st')"
      "failed = ck_task_id c # failed1" by (auto split: prod.splits)
    from Cons.IH [OF one(1) _ rest(1)] Cons.prems(2) one(2) rest(2) show ?thesis by auto
  qed
qed simp

lemma pending_get:
  "cm_ok sinv s \<Longrightarrow> hm_get (cm_pending s) t = Some c \<longleftrightarrow> c \<in> set (hm_values (cm_pending s)) \<and> ck_task_id c = t"
  by (force simp: cm_ok_def hm_ok_def map_of_eq_Some_iff)

lemma pending_ids:
  assumes "cm_ok sinv s"
  shows "map ck_task_id (hm_values (cm_pending s)) = hm_keys (cm_pending s)"
  using assms by (auto simp: cm_ok_def)

lemma pending_distinct: "cm_ok sinv s \<Longrightarrow> distinct (map ck_task_id (hm_values (cm_pending s)))"
  unfolding pending_ids by (simp add: cm_ok_def hm_ok_def)

lemma flush_keeps_view:
  assumes "cm_ok sinv s"
  shows "cm_ok sinv (flush_pending ops s) \<and> ckpt_view stored (flush_pending ops s) = ckpt_view stored s"
proof (cases "cm_pending s = []")
  case True
  then show ?thesis using assms by (simp add: flush_pending_def)
next
  case False
  let ?cs = "hm_values (cm_pending s)"
  obtain failed st' where save: "save_each ops ?cs (cm_storage s) = (failed, st')" by fastforce
  let ?s = "s\<lparr>cm_storage := st', cm_pending := filter (\<lambda>(t, c). t \<in> set failed) (cm_pending s)\<rparr>"
  have flush: "flush_pending ops s = ?s" using False save by (simp add: flush_pending_def)
  from save_each_result [OF _ pending_distinct [OF assms] save] assms
  have res: "sinv st'" "\<And>t. t \<notin> ck_task_id ` set ?cs \<Longrightarrow> stored st' t = stored (cm_storage s) t"
    "\<And>c. c \<in> set ?cs \<Longrightarrow> ck_task_id c \<notin> set failed \<Longrightarrow> stored st' (ck_task_id c) = Some c"
    by (auto simp: cm_ok_def)
  have "cm_ok sinv ?s" using assms res(1) by (auto simp: cm_ok_def hm_ok_filter)
  moreover have "ckpt_view stored ?s t = ckpt_view stored s t" for t
  proof (cases "hm_get (cm_pending s) t")
    case None
    then have "t \<notin> ck_task_id ` set ?cs" using pending_get [OF assms, of t] by auto
    with None res(2) show ?thesis by (simp add: ckpt_view_def map_add_def hm_get_filter_key)
  next
    case (Some c)
    with pending_get [OF assms, of t c] res(3) [of c] show ?thesis
      by (auto simp: ckpt_view_def map_add_def hm_get_filter_key)
  qed
  ultimately show ?thesis unfolding flush by auto
qed

lemma serve_refines:
  assumes "cm_ok sinv s" and "answering ops" and "serve ops uuid now cmd s = (r, s')"
  shows "cm_ok sinv s' \<and> ckpt_view stored s' = spec_map uuid now cmd (ckpt_view stored s) \<and>
    spec_answer cmd (ckpt_view stored s) r"
proof (cases cmd)
  case (SaveCmd t p)
  let ?s = "s\<lparr>cm_pending := hm_insert t (checkpoint_new uuid now t p) (cm_pending s)\<rparr>"
  have "cm_ok sinv ?s"
    using assms(1) set_hm_insert_subset [of t "checkpoint_new uuid now t p" "cm_pending s"]
    by (auto simp: cm_ok_def checkpoint_new_def)
  moreover have "ckpt_view stored ?s = (ckpt_view stored s)(t \<mapsto> checkpoint_new uuid now t p)"
    by (simp add: ckpt_view_def hm_get_insert)
  ultimately show ?thesis using flush_keeps_view [of ?s] assms(3) SaveCmd by (auto simp: Let_def)
next
  case (LoadCmd t)
  show ?thesis
  proof (cases "hm_get (cm_pending s) t")
    case (Some c)
    with assms LoadCmd show ?thesis by (auto simp: ckpt_view_def)
  next
    case None
    obtain c st where load: "st_load ops (cm_storage s) t = (Inr c, st)"
      using assms(2) unfolding answering_def by (metis prod.collapse)
    with load_ok [OF _ load] None assms LoadCmd show ?thesis
      by (auto simp: cm_ok_def view_storage ckpt_view_apply)
  qed
next
  case (DeleteCmd t)
  obtain st where del: "st_delete ops (cm_storage s) t = (Inr (), st)"
    using assms(2) unfolding answering_def by (metis prod.collapse)
  have "set (hm_remove t (cm_pending s)) \<subseteq> set (cm_pending s)" by (auto simp: AList.delete_eq)
  then have "\<forall>(t, c) \<in> set (hm_remove t (cm_pending s)). ck_task_id c = t"
    using assms(1) unfolding cm_ok_def by blast
  moreover have "m(t := None) ++ p(t := None) = (m ++ p)(t := None)" for m p :: "string \<Rightarrow> checkpoint option"
    by (auto simp: map_add_def fun_eq_iff split: option.split)
  moreover have "sinv st" "stored st = (stored (cm_storage s))(t := None)"
    using delete_ok [OF _ del] assms(1) by (simp_all add: cm_ok_def)
  ultimately show ?thesis
    using assms(1,3) DeleteCmd del by (auto simp: cm_ok_def ckpt_view_def hm_get_remove)
next
  case ListCmd
  obtain cs st where list: "st_list ops (cm_storage s) = (Inr cs, st)"
    using assms(2) unfolding answering_def by (metis prod.collapse)
  have sinv: "sinv (cm_storage s)" using assms(1) by (simp add: cm_ok_def)
  note lok = list_ok [OF sinv list]
  let ?ps = "hm_values (cm_pending s)"
  note all = add_stored_ids [OF pending_distinct [OF assms(1)] conjunct1 [OF conjunct2 [OF conjunct2 [OF lok]]]]
  have "c \<in> set (add_stored ?ps cs) \<longleftrightarrow> ckpt_view stored s (ck_task_id c) = Some c" for c
  proof (cases "hm_get (cm_pending s) (ck_task_id c)")
    case None
    then have "ck_task_id c \<notin> ck_task_id ` set ?ps"
      unfolding set_map [symmetric] pending_ids [OF assms(1)] by (simp add: map_of_eq_None_iff)
    moreover from this have "c \<notin> set ?ps" by blast
    moreover have "c \<in> set cs \<longleftrightarrow> stored (cm_storage s) (ck_task_id c) = Some c" using lok by blast
    ultimately show ?thesis using None all by (simp add: ckpt_view_apply)
  next
    case (Some c')
    then have "c' \<in> set ?ps" "ck_task_id c' = ck_task_id c"
      using pending_get [OF assms(1), of "ck_task_id c" c'] by blast+
    then have "ck_task_id c \<in> ck_task_id ` set ?ps" by (metis imageI)
    moreover have "c \<in> set ?ps \<longleftrightarrow> c' = c" using pending_get [OF assms(1), of "ck_task_id c" c] Some by auto
    ultimately show ?thesis using Some all by (simp add: ckpt_view_apply)
  qed
  with all lok list assms ListCmd show ?thesis by (auto simp: cm_ok_def view_storage Let_def)
next
  case FlushCmd
  with assms flush_keeps_view [OF assms(1)] show ?thesis by auto
qed

end

text \<open>
  The checkpoint manager refines a map from tasks to checkpoints: whatever is pending, flushed
  or refused by the storage, every command acts on what can be read like the same command on the
  map, and its answer is that of the map. So a checkpoint that was saved is read back until the
  task is saved or deleted again, even while every write to the storage fails.
\<close>

theorem manager_refines_map:
  assumes "checkpoint_store ops sinv stored" and "answering ops" and "cm_ok sinv s"
    and "serve ops uuid now cmd s = (r, s')"
  shows "cm_ok sinv s' \<and> ckpt_view stored s' = spec_map uuid now cmd (ckpt_view stored s) \<and>
    spec_answer cmd (ckpt_view stored s) r"
  using checkpoint_store.serve_refines [OF assms(1,3,2,4)] .

text \<open>One checkpoint is pending, and the storage refuses it once more.\<close>

definition demo_manager :: "memory_storage ckpt_manager" where
  "demo_manager = (manager_new [] 10)\<lparr>cm_pending :=
     [(''users'', checkpoint_new ''c1'' 5 ''users'' (PostgreSQL ''0/1''))], cm_phase := Serving\<rparr>"

lemma memory_answering: "answering memory_ops"
  by (simp add: answering_def memory_defs)

lemma demo_manager_ok: "cm_ok memory_inv demo_manager"
  by (simp add: demo_manager_def manager_new_def cm_ok_def memory_inv_def checkpoint_new_def hm_ok_def)

theorem manager_refines_map_witness:
  "\<exists>r s'. serve memory_ops ''u'' 9 (LoadCmd ''users'') demo_manager = (r, s') \<and>
    r = Loaded (Some (checkpoint_new ''c1'' 5 ''users'' (PostgreSQL ''0/1'')))"
proof -
  obtain r s' where run: "serve memory_ops ''u'' 9 (LoadCmd ''users'') demo_manager = (r, s')" by fastforce
  from manager_refines_map [OF memory.checkpoint_store_axioms memory_answering demo_manager_ok run]
  have "r = Loaded (Some (checkpoint_new ''c1'' 5 ''users'' (PostgreSQL ''0/1'')))"
    by (simp add: ckpt_view_def demo_manager_def)
  with run show ?thesis by blast
qed

section \<open>What reaches the storage\<close>

lemma serve_save_pending:
  assumes "length (hm_insert t (checkpoint_new uuid now t p) (cm_pending s)) < cm_batch_size s"
  shows "serve ops uuid now (SaveCmd t p) s =
    (NoAnswer, s\<lparr>cm_pending := hm_insert t (checkpoint_new uuid now t p) (cm_pending s)\<rparr>)"
  using assms by simp

definition saves_of :: "(string \<times> position) list \<Rightarrow> checkpoint_command list" where
  "saves_of = map (\<lambda>(t, p). SaveCmd t p)"

lemma persist_enqueues:
  "cm_phase s = Serving \<Longrightarrow>
   persist_checkpoints checkpoints s = s\<lparr>cm_queue := cm_queue s @ saves_of checkpoints\<rparr>"
  unfolding persist_checkpoints_def
  by (induction checkpoints arbitrary: s) (auto simp: saves_of_def save_checkpoint_def send_command_def)

lemma card_keys: "hm_ok m \<Longrightarrow> length m = card (set (hm_keys m))"
  by (metis distinct_card hm_ok_def length_map)

lemma serve_saves_pending:
  assumes "hm_ok (cm_pending s)" and "cm_queue s = saves_of checkpoints @ rest"
    and "card (set (hm_keys (cm_pending s)) \<union> fst ` set checkpoints) < cm_batch_size s"
    and "n \<le> length checkpoints" and "serve_waiting ops fresh n r s = (r', s')"
  shows "cm_storage s' = cm_storage s \<and> cm_queue s' = drop n (saves_of checkpoints) @ rest"
  using assms
proof (induction checkpoints arbitrary: n s r)
  case (Cons tp checkpoints)
  obtain t p where tp: "tp = (t, p)" by fastforce
  show ?case
  proof (cases n)
    case 0
    with Cons.prems show ?thesis by (auto simp: saves_of_def)
  next
    case (Suc k)
    define c where "c = checkpoint_new (fst (fresh k)) (snd (fresh k)) t p"
    define s1 where "s1 = s\<lparr>cm_queue := saves_of checkpoints @ rest, cm_pending := hm_insert t c (cm_pending s)\<rparr>"
    have keys: "set (hm_keys (hm_insert t c (cm_pending s))) = insert t (set (hm_keys (cm_pending s)))"
      by (rule hm_keys_insert)
    have "card (insert t (set (hm_keys (cm_pending s)))) \<le> card (set (hm_keys (cm_pending s)) \<union> fst ` set (tp # checkpoints))"
      using tp by (intro card_mono) auto
    with Cons.prems(1,3) keys have small: "length (hm_insert t c (cm_pending s)) < cm_batch_size s"
      by (simp add: card_keys)
    have "serve_waiting ops fresh n r s = serve_waiting ops fresh k NoAnswer s1"
      using small Cons.prems(2) tp by (simp add: Suc saves_of_def s1_def c_def)
    with Cons.prems(5) have run: "serve_waiting ops fresh k NoAnswer s1 = (r', s')" by simp
    have "set (hm_keys (cm_pending s1)) \<union> fst ` set checkpoints = set (hm_keys (cm_pending s)) \<union> fst ` set (tp # checkpoints)"
      using keys tp by (auto simp: s1_def)
    with Cons.prems(1,3) have "card (set (hm_keys (cm_pending s1)) \<union> fst ` set checkpoints) < cm_batch_size s1" "hm_ok (cm_pending s1)"
      by (simp_all add: s1_def)
    with Cons.IH [of s1 k NoAnswer] run Cons.prems(4) Suc show ?thesis
      by (simp add: s1_def saves_of_def)
  qed
qed (simp add: saves_of_def)

text \<open>
  The checkpoints saved at shutdown do not survive it: with fewer tasks than the batch size of
  the manager (ten), the persistence loop hands over every position and the manager may serve all
  of them, but the storage is the same as before; only a flush, which nobody asks for at shutdown,
  would write them.
\<close>

theorem shutdown_checkpoints_stay_in_memory:
  assumes "cm_phase s = Serving" and "cm_queue s = []" and "hm_ok (cm_pending s)"
    and "card (set (hm_keys (cm_pending s)) \<union> fst ` set checkpoints) < cm_batch_size s"
    and "n \<le> length checkpoints" and "serve_waiting ops fresh n r (persist_checkpoints checkpoints s) = (r', s')"
  shows "cm_storage s' = cm_storage s"
proof -
  have "cm_queue (persist_checkpoints checkpoints s) = saves_of checkpoints @ []"
    using persist_enqueues [OF assms(1)] assms(2) by simp
  from serve_saves_pending [OF _ this _ assms(5,6)] assms(3,4) persist_enqueues [OF assms(1)]
  show ?thesis by simp
qed

theorem shutdown_checkpoints_stay_in_memory_witness:
  "\<exists>r s'. serve_waiting memory_ops (\<lambda>_. (''u'', 9)) 1 NoAnswer
      (persist_checkpoints [(''users'', PostgreSQL ''0/7'')] demo_manager) = (r, s') \<and> cm_storage s' = []"
proof -
  obtain r s' where run: "serve_waiting memory_ops (\<lambda>_. (''u'', 9)) 1 NoAnswer
      (persist_checkpoints [(''users'', PostgreSQL ''0/7'')] demo_manager) = (r, s')" by fastforce
  have "cm_storage s' = cm_storage demo_manager"
    by (rule shutdown_checkpoints_stay_in_memory [OF _ _ _ _ _ run])
      (simp_all add: demo_manager_def manager_new_def hm_ok_def)
  with run show ?thesis by (simp add: demo_manager_def manager_new_def)
qed

section \<open>What a cleanup removes\<close>

lemma group_by_task_get:
  assumes "distinct (map ck_task_id cs)" and "\<forall>c \<in> set cs. hm_get m (ck_task_id c) = None" and "hm_ok m"
  defines "g \<equiv> foldl (\<lambda>m c. hm_insert (ck_task_id c)
      ((case hm_get m (ck_task_id c) of Some cs \<Rightarrow> cs | None \<Rightarrow> []) @ [c]) m) m cs"
  shows "hm_ok g \<and> hm_get g t =
    (case List.find (\<lambda>c. ck_task_id c = t) cs of Some c \<Rightarrow> Some [c] | None \<Rightarrow> hm_get m t)"
  using assms(1-3) unfolding g_def
proof (induction cs arbitrary: m)
  case (Cons c cs)
  let ?m = "hm_insert (ck_task_id c) [c] m"
  have other: "ck_task_id c' \<noteq> ck_task_id c" if "c' \<in> set cs" for c'
    using that Cons.prems(1) by (metis distinct.simps(2) imageI list.simps(9) set_map)
  then have "\<forall>c' \<in> set cs. hm_get ?m (ck_task_id c') = None"
    using Cons.prems(2) by (simp add: hm_get_insert)
  from Cons.IH [OF _ this] Cons.prems
  have ih: "hm_ok (foldl (\<lambda>m c. hm_insert (ck_task_id c)
      ((case hm_get m (ck_task_id c) of Some cs \<Rightarrow> cs | None \<Rightarrow> []) @ [c]) m) ?m cs)"
    "hm_get (foldl (\<lambda>m c. hm_insert (ck_task_id c)
      ((case hm_get m (ck_task_id c) of Some cs \<Rightarrow> cs | None \<Rightarrow> []) @ [c]) m) ?m cs) t =
      (case List.find (\<lambda>c. ck_task_id c = t) cs of Some c \<Rightarrow> Some [c] | None \<Rightarrow> hm_get ?m t)"
    by auto
  have "List.find (\<lambda>c'. ck_task_id c' = ck_task_id c) cs = None"
    using other by (auto simp: find_None_iff)
  with ih Cons.prems(2) show ?case by (auto simp: hm_get_insert split: option.split)
qed simp

definition singles :: "(string, checkpoint list) hmap \<Rightarrow> bool" where
  "singles groups \<longleftrightarrow> (\<forall>t cs. hm_get groups t = Some cs \<longrightarrow> cs = [] \<or> (\<exists>c. cs = [c] \<and> ck_task_id c = t))"

lemma singles_insert: "singles g \<Longrightarrow> hm_get g t = Some cs \<Longrightarrow> singles (hm_insert t cs g)"
  by (auto simp: singles_def hm_get_insert)

lemma surplus_singles:
  assumes "singles groups"
  shows "set (surplus n active groups) =
    (if n = 0 then {t \<in> set active. \<exists>c. hm_get groups t = Some [c]} else {})"
  using assms
proof (induction active arbitrary: groups)
  case (Cons t active)
  show ?case
  proof (cases "hm_get groups t")
    case None
    with Cons show ?thesis by auto
  next
    case (Some cs)
    with Cons.prems have "cs = [] \<or> (\<exists>c. cs = [c] \<and> ck_task_id c = t)" by (simp add: singles_def)
    then show ?thesis
    proof
      assume "cs = []"
      with Some Cons.IH [OF singles_insert [OF Cons.prems Some]] show ?thesis
        by (auto simp: hm_get_insert)
    next
      assume "\<exists>c. cs = [c] \<and> ck_task_id c = t"
      then obtain c where c: "cs = [c]" "ck_task_id c = t" by blast
      have "singles (hm_insert t [] groups)" using Cons.prems by (simp add: singles_def hm_get_insert)
      from Cons.IH [OF this] Cons.IH [OF singles_insert [OF Cons.prems Some]] Some c show ?thesis
        by (cases n) (auto simp: hm_get_insert)
    qed
  qed
qed simp

context checkpoint_store
begin

lemma serve_deletes:
  assumes "cm_ok sinv s" and "answering ops" and "cm_queue s = map DeleteCmd ts"
    and "serve_waiting ops fresh (length ts) r s = (r', s')"
  shows "ckpt_view stored s' = (\<lambda>t. if t \<in> set ts then None else ckpt_view stored s t)"
  using assms(1,3,4)
proof (induction ts arbitrary: r s)
  case (Cons t ts)
  let ?n = "length ts"
  obtain r1 s1 where one: "serve ops (fst (fresh ?n)) (snd (fresh ?n)) (DeleteCmd t) (s\<lparr>cm_queue := map DeleteCmd ts\<rparr>) = (r1, s1)"
    by fastforce
  have "cm_ok sinv (s\<lparr>cm_queue := map DeleteCmd ts\<rparr>)" using Cons.prems(1) by (simp add: cm_ok_def)
  from serve_refines [OF this assms(2) one] have s1: "cm_ok sinv s1" "ckpt_view stored s1 = (ckpt_view stored s)(t := None)"
    by (simp_all add: ckpt_view_def)
  have "cm_queue s1 = map DeleteCmd ts" using one by auto
  moreover have "serve_waiting ops fresh ?n r1 s1 = (r', s')"
    using Cons.prems(2,3) one by simp
  ultimately show ?case using Cons.IH [OF s1(1)] s1(2) by auto
qed simp

lemma enqueue_deletes:
  "cm_phase s = Serving \<Longrightarrow>
   fold (\<lambda>t s. snd (delete_checkpoint t s)) ts s = s\<lparr>cm_queue := cm_queue s @ map DeleteCmd ts\<rparr>"
  by (induction ts arbitrary: s) (simp_all add: delete_checkpoint_def send_command_def)

lemma list_served:
  assumes "cm_ok sinv s" and "answering ops" and "cm_phase s = Serving" and "cm_queue s = []"
  shows "\<exists>cs s'. list_checkpoints ops fresh s = (Inr cs, s') \<and> cm_ok sinv s' \<and> cm_phase s' = Serving \<and>
    cm_queue s' = [] \<and> ckpt_view stored s' = ckpt_view stored s \<and> distinct (map ck_task_id cs) \<and>
    (\<forall>c. c \<in> set cs \<longleftrightarrow> ckpt_view stored s (ck_task_id c) = Some c)"
proof -
  obtain r s' where run: "serve ops (fst (fresh 0)) (snd (fresh 0)) ListCmd s = (r, s')" by fastforce
  note served = serve_refines [OF assms(1,2) run]
  then obtain cs where cs: "r = Listed cs" "distinct (map ck_task_id cs)"
      "\<forall>c. c \<in> set cs \<longleftrightarrow> ckpt_view stored s (ck_task_id c) = Some c" by auto
  have same: "s\<lparr>cm_queue := []\<rparr> = s" using assms(4) by simp
  have "list_checkpoints ops fresh s = (Inr cs, s')"
    using run cs(1) assms(3,4) by (simp add: list_checkpoints_def ask_def send_command_def same del: serve.simps)
  moreover have "cm_phase s' = Serving" "cm_queue s' = []"
    using run assms(3,4) by (auto simp: Let_def split: prod.splits sum.splits)
  ultimately show ?thesis using served cs by auto
qed

lemma cleanup_result:
  assumes "cm_ok sinv s" and "answering ops" and "cm_phase s = Serving" and "cm_queue s = []"
    and "cleanup_checkpoints ops fresh active n s = (r, s1)"
    and "serve_waiting ops fresh (length (cm_queue s1)) r0 s1 = (r', s2)"
  shows "r = Inr () \<and> ckpt_view stored s2 =
    (\<lambda>t. if t \<in> set active \<and> n \<noteq> 0 then ckpt_view stored s t else None)"
proof -
  let ?v = "ckpt_view stored s"
  from list_served [OF assms(1-4), of fresh] obtain cs s' where listed: "list_checkpoints ops fresh s = (Inr cs, s')"
      "cm_ok sinv s'" "cm_phase s' = Serving" "cm_queue s' = []" "ckpt_view stored s' = ?v"
      "distinct (map ck_task_id cs)" "\<And>c. c \<in> set cs \<longleftrightarrow> ?v (ck_task_id c) = Some c" by blast
  let ?g = "group_by_task cs"
  have key: "?v t = Some c \<Longrightarrow> ck_task_id c = t" for t c
    using pending_get [OF assms(1), of t c] stored_key [of "cm_storage s" t c] assms(1)
    by (auto simp: ckpt_view_apply cm_ok_def split: option.splits)
  have g: "hm_ok ?g" "hm_get ?g t = map_option (\<lambda>c. [c]) (?v t)" for t
  proof -
    have base: "hm_ok ?g \<and> hm_get ?g t = (case List.find (\<lambda>c. ck_task_id c = t) cs of Some c \<Rightarrow> Some [c] | None \<Rightarrow> None)"
      using group_by_task_get [OF listed(6), of "[]" t] by (simp add: group_by_task_def split: option.splits)
    then show "hm_ok ?g" by blast
    have "List.find (\<lambda>c. ck_task_id c = t) cs = ?v t"
    proof (cases "?v t")
      case None
      then show ?thesis using listed(7) by (fastforce simp: find_None_iff)
    next
      case (Some c)
      with key listed(7) [of c] have "c \<in> set cs" "ck_task_id c = t" by auto
      then obtain c' where c': "List.find (\<lambda>c. ck_task_id c = t) cs = Some c'"
        by (cases "List.find (\<lambda>c. ck_task_id c = t) cs") (auto simp: find_None_iff)
      then have "c' \<in> set cs" "ck_task_id c' = t" by (auto simp: find_Some_iff)
      with listed(7) [of c'] Some c' show ?thesis by simp
    qed
    with base show "hm_get ?g t = map_option (\<lambda>c. [c]) (?v t)" by (simp split: option.split)
  qed
  then have singles: "singles ?g" using key by (auto simp: singles_def)
  let ?ts = "orphans active ?g @ surplus n active ?g"
  have s1: "r = Inr ()" "s1 = s'\<lparr>cm_queue := map DeleteCmd ?ts\<rparr>"
    using assms(5) listed(1) enqueue_deletes [OF listed(3)] listed(4)
    by (simp_all add: cleanup_checkpoints_def Let_def del: fold_append)
  have "set (orphans active ?g) = {t. ?v t \<noteq> None \<and> t \<notin> set active}"
  proof -
    have "t \<in> set (orphans active ?g) \<longleftrightarrow> (\<exists>cs. (t, cs) \<in> set ?g \<and> t \<notin> set active \<and> cs \<noteq> [])" for t
      by (auto simp: orphans_def)
    also have "\<dots> t \<longleftrightarrow> ?v t \<noteq> None \<and> t \<notin> set active" for t
      using g(1) g(2) [of t] map_of_eq_Some_iff [of ?g t] by (auto simp: hm_ok_def)
    finally show ?thesis by blast
  qed
  moreover have "set (surplus n active ?g) = (if n = 0 then {t \<in> set active. ?v t \<noteq> None} else {})"
    using surplus_singles [OF singles] g(2) by auto
  moreover have "ckpt_view stored s2 = (\<lambda>t. if t \<in> set ?ts then None else ckpt_view stored s1 t)"
    using serve_deletes [OF _ assms(2), of s1 ?ts fresh r0 r' s2] s1(2) listed(2) assms(6) by (simp add: cm_ok_def)
  moreover have "ckpt_view stored s1 = ?v" using listed(5) s1(2) by (simp add: ckpt_view_def)
  ultimately show ?thesis using s1(1) by auto
qed

end

text \<open>
  Cleaning up keeps exactly the checkpoints of the configured tasks, each storage holding at
  most one per task; with a limit of zero it removes those as well, so that every task starts
  afresh after the next restart.
\<close>

theorem cleanup_keeps_active_tasks:
  assumes "checkpoint_store ops sinv stored" and "answering ops" and "cm_ok sinv s"
    and "cm_phase s = Serving" and "cm_queue s = []"
    and "cleanup_checkpoints ops fresh active n s = (r, s1)"
    and "serve_waiting ops fresh (length (cm_queue s1)) r0 s1 = (r', s2)"
  shows "r = Inr () \<and> ckpt_view stored s2 t = (if t \<in> set active \<and> n \<noteq> 0 then ckpt_view stored s t else None)"
  using checkpoint_store.cleanup_result [OF assms(1,3,2,4-7)] by simp

theorem cleanup_keeps_active_tasks_witness:
  "\<exists>r s1 r' s2. cleanup_checkpoints memory_ops (\<lambda>_. (''u'', 9)) [''users''] 0 demo_manager = (r, s1) \<and>
    serve_waiting memory_ops (\<lambda>_. (''u'', 9)) (length (cm_queue s1)) NoAnswer s1 = (r', s2) \<and>
    ckpt_view hm_get s2 ''users'' = None \<and> ckpt_view hm_get demo_manager ''users'' \<noteq> None"
proof -
  obtain r s1 r' s2 where run: "cleanup_checkpoints memory_ops (\<lambda>_. (''u'', 9)) [''users''] 0 demo_manager = (r, s1)"
    "serve_waiting memory_ops (\<lambda>_. (''u'', 9)) (length (cm_queue s1)) NoAnswer s1 = (r', s2)" by fastforce
  have "r = Inr () \<and> ckpt_view hm_get s2 ''users'' =
      (if ''users'' \<in> set [''users''] \<and> (0 :: nat) \<noteq> 0 then ckpt_view hm_get demo_manager ''users'' else None)"
    by (rule cleanup_keeps_active_tasks [OF memory.checkpoint_store_axioms memory_answering demo_manager_ok _ _ run])
      (simp_all add: demo_manager_def manager_new_def)
  then have none: "ckpt_view hm_get s2 ''users'' = None" by simp
  have "ckpt_view hm_get demo_manager ''users'' \<noteq> None" by (simp add: ckpt_view_def demo_manager_def)
  with run none show ?thesis by blast
qed

end
