(* ===== verification/Cdc.thy ===== *)
theory Cdc
  imports Delivery
begin

text \<open>
  The coordinator of change events, \<open>src/pipeline/cdc_coordinator.rs\<close>, and the operations of
  \<open>src/pipeline/orchestrator.rs\<close> that control it. A blocking send is a state of its own, from
  which the coordinator goes on once the receiver has made room.
\<close>

section \<open>Channels and the coordinator\<close>

record channel =
  ch_queue :: "stream_event list"
  ch_capacity :: nat
  ch_open :: bool

record cdc =
  cc_channels :: "(string, channel) hmap"
  cc_is_paused :: bool
  cc_paused_tables :: "string set"

definition cdc_new :: cdc where
  "cdc_new = \<lparr>cc_channels = [], cc_is_paused = False, cc_paused_tables = {}\<rparr>"

definition register_task :: "string \<Rightarrow> channel \<Rightarrow> cdc \<Rightarrow> cdc" where
  "register_task table_name tx c = c\<lparr>cc_channels := hm_insert table_name tx (cc_channels c)\<rparr>"

definition unregister_task :: "string \<Rightarrow> cdc \<Rightarrow> cdc" where
  "unregister_task table_name c = c\<lparr>cc_channels := hm_remove table_name (cc_channels c)\<rparr>"

definition pause_all :: "cdc \<Rightarrow> cdc" where
  "pause_all c = c\<lparr>cc_is_paused := True\<rparr>"

definition resume_all :: "cdc \<Rightarrow> cdc" where
  "resume_all c = c\<lparr>cc_is_paused := False\<rparr>"

definition pause_table :: "string \<Rightarrow> cdc \<Rightarrow> cdc" where
  "pause_table table_name c = c\<lparr>cc_paused_tables := insert table_name (cc_paused_tables c)\<rparr>"

definition resume_table :: "string \<Rightarrow> cdc \<Rightarrow> cdc" where
  "resume_table table_name c = c\<lparr>cc_paused_tables := cc_paused_tables c - {table_name}\<rparr>"

section \<open>Distributing events\<close>

fun event_table :: "stream_event \<Rightarrow> string option" where
  "event_table (EvCdc cdc) =
     Some (if cdc_schema cdc = [] then cdc_table cdc else cdc_schema cdc @ ''.'' @ cdc_table cdc)"
| "event_table e = None"

definition table_only :: "string \<Rightarrow> string" where
  "table_only table_name = last (split_on (CHR ''.'') table_name)"

definition has_schema :: "string \<Rightarrow> bool" where
  "has_schema table_name \<longleftrightarrow> CHR ''.'' \<in> set table_name"

definition table_paused :: "cdc \<Rightarrow> string \<Rightarrow> bool" where
  "table_paused c table_name \<longleftrightarrow> table_name \<in> cc_paused_tables c \<or>
     (has_schema table_name \<and> table_only table_name \<in> cc_paused_tables c)"

definition put_channel :: "string \<Rightarrow> channel \<Rightarrow> cdc \<Rightarrow> cdc" where
  "put_channel key ch c = c\<lparr>cc_channels := hm_insert key ch (cc_channels c)\<rparr>"

text \<open>
  Send the event to the task registered under each key; on a full channel the table is paused and
  the coordinator waits there, with the keys that are left.
\<close>

fun send_keys :: "string list \<Rightarrow> stream_event \<Rightarrow> cdc \<Rightarrow> cdc \<times> (string \<times> string list) option" where
  "send_keys [] event c = (c, None)"
| "send_keys (key # keys) event c =
     (case hm_get (cc_channels c) key of
        None \<Rightarrow> send_keys keys event c
      | Some tx \<Rightarrow>
          if \<not> ch_open tx then send_keys keys event c
          else if length (ch_queue tx) < ch_capacity tx
          then send_keys keys event (put_channel key (tx\<lparr>ch_queue := ch_queue tx @ [event]\<rparr>) c)
          else (pause_table key c, Some (key, keys)))"

definition keys_of :: "string \<Rightarrow> string list" where
  "keys_of table_name = table_name # (if has_schema table_name then [table_only table_name] else [])"

definition distribute_event :: "stream_event \<Rightarrow> cdc \<Rightarrow> cdc \<times> (string \<times> string list) option" where
  "distribute_event event c =
     (case event_table event of
        None \<Rightarrow> (c, None)
      | Some table_name \<Rightarrow>
          if table_paused c table_name then (c, None) else send_keys (keys_of table_name) event c)"

section \<open>The loop\<close>

datatype cdc_phase =
    Reading
  | Blocked stream_event string "string list"
  | Ended

fun phase_after :: "stream_event \<Rightarrow> (string \<times> string list) option \<Rightarrow> cdc_phase" where
  "phase_after event None = Reading"
| "phase_after event (Some (key, keys)) = Blocked event key keys"

definition take_event :: "cdc_phase \<times> cdc \<Rightarrow> stream_event result \<Rightarrow> cdc_phase \<times> cdc" where
  "take_event st event_result =
     (case event_result of
        Inl e \<Rightarrow> st
      | Inr event \<Rightarrow>
          if cc_is_paused (snd st) then st
          else (case distribute_event event (snd st) of (c, w) \<Rightarrow> (phase_after event w, c)))"

text \<open>The blocking send goes through, or fails because the receiver is gone.\<close>

definition unblock :: "stream_event \<Rightarrow> string \<Rightarrow> string list \<Rightarrow> cdc \<Rightarrow> (cdc_phase \<times> cdc) option" where
  "unblock event key keys c =
     (case hm_get (cc_channels c) key of
        None \<Rightarrow> None
      | Some tx \<Rightarrow>
          if \<not> ch_open tx then
            (case send_keys keys event c of (c1, w) \<Rightarrow> Some (phase_after event w, c1))
          else if length (ch_queue tx) < ch_capacity tx then
            (case send_keys keys event (put_channel key (tx\<lparr>ch_queue := ch_queue tx @ [event]\<rparr>) c) of
               (c1, w) \<Rightarrow> Some (phase_after event w, c1))
          else None)"

text \<open>
  What may happen while the coordinator runs. The receivers take events or go away; the operations
  that would pause or resume are not among the steps, because they wait for the lock that the task
  of the coordinator holds (see below).
\<close>

inductive cdc_step :: "cdc_phase \<times> cdc \<Rightarrow> cdc_phase \<times> cdc \<Rightarrow> bool" where
  step_event: "cdc_step (Reading, c) (take_event (Reading, c) event_result)"
| step_unblock: "unblock event key keys c = Some st \<Longrightarrow> cdc_step (Blocked event key keys, c) st"
| step_receive: "hm_get (cc_channels c) key = Some tx \<Longrightarrow> ch_queue tx = event # events \<Longrightarrow>
    cdc_step (phase, c) (phase, put_channel key (tx\<lparr>ch_queue := events\<rparr>) c)"
| step_close: "hm_get (cc_channels c) key = Some tx \<Longrightarrow>
    cdc_step (phase, c) (phase, put_channel key (tx\<lparr>ch_open := False\<rparr>) c)"
| step_shutdown: "cdc_step (Reading, c) (Ended, c)"

abbreviation cdc_steps :: "cdc_phase \<times> cdc \<Rightarrow> cdc_phase \<times> cdc \<Rightarrow> bool" where
  "cdc_steps \<equiv> rtranclp cdc_step"

section \<open>Control\<close>

text \<open>
  The coordinator behind its lock: the task that runs it holds the write lock from before its
  first event until it ends. An operation that needs the lock meanwhile waits, which is \<open>None\<close>.
\<close>

record shared_cdc =
  sh_phase :: cdc_phase
  sh_cdc :: cdc

definition write_locked :: "shared_cdc \<Rightarrow> bool" where
  "write_locked s \<longleftrightarrow> sh_phase s \<noteq> Ended"

definition with_lock :: "shared_cdc \<Rightarrow> (cdc \<Rightarrow> 'a \<times> cdc) \<Rightarrow> ('a \<times> shared_cdc) option" where
  "with_lock s f =
     (if write_locked s then None
      else (case f (sh_cdc s) of (r, c) \<Rightarrow> Some (r, s\<lparr>sh_cdc := c\<rparr>)))"

definition control ::
  "(cdc \<Rightarrow> 'a \<times> cdc) \<Rightarrow> shared_cdc option \<Rightarrow> ('a result \<times> shared_cdc option) option" where
  "control f coordinator =
     (case coordinator of
        None \<Rightarrow> Some (Inl (Pipeline ''CDC coordinator not initialized''), None)
      | Some s \<Rightarrow> map_option (\<lambda>(r, s1). (Inr r, Some s1)) (with_lock s f))"

definition pause_cdc :: "shared_cdc option \<Rightarrow> (unit result \<times> shared_cdc option) option" where
  "pause_cdc = control (\<lambda>c. ((), pause_all c))"

definition resume_cdc :: "shared_cdc option \<Rightarrow> (unit result \<times> shared_cdc option) option" where
  "resume_cdc = control (\<lambda>c. ((), resume_all c))"

definition is_cdc_paused :: "shared_cdc option \<Rightarrow> (bool result \<times> shared_cdc option) option" where
  "is_cdc_paused = control (\<lambda>c. (cc_is_paused c, c))"

definition pause_cdc_table :: "string \<Rightarrow> shared_cdc option \<Rightarrow> (unit result \<times> shared_cdc option) option" where
  "pause_cdc_table table_name = control (\<lambda>c. ((), pause_table table_name c))"

definition resume_cdc_table :: "string \<Rightarrow> shared_cdc option \<Rightarrow> (unit result \<times> shared_cdc option) option" where
  "resume_cdc_table table_name = control (\<lambda>c. ((), resume_table table_name c))"

definition get_paused_tables :: "shared_cdc option \<Rightarrow> (string set result \<times> shared_cdc option) option" where
  "get_paused_tables = control (\<lambda>c. (cc_paused_tables c, c))"

text \<open>
  A full synchronisation on demand: pause the table, synchronise, resume the table; \<open>sync\<close> is
  \<open>perform_full_sync\<close> on the destination. \<open>None\<close> is waiting for the lock, or a panic.
\<close>

definition when_coordinated :: "(cdc \<Rightarrow> cdc) \<Rightarrow> shared_cdc option \<Rightarrow> shared_cdc option option" where
  "when_coordinated f coordinator =
     (case coordinator of
        None \<Rightarrow> Some None
      | Some s \<Rightarrow> map_option (\<lambda>(r, s1). Some s1) (with_lock s (\<lambda>c. ((), f c))))"

definition trigger_full_sync ::
  "sync_task_config list \<Rightarrow> (sync_task_config \<Rightarrow> 'd \<Rightarrow> (unit result \<times> 'd) option) \<Rightarrow> string \<Rightarrow>
     shared_cdc option \<Rightarrow> 'd \<Rightarrow> (unit result \<times> shared_cdc option \<times> 'd) option" where
  "trigger_full_sync tasks sync task_id coordinator d =
     (case List.find (\<lambda>t. st_id t = task_id) tasks of
        None \<Rightarrow> Some (Inl (NotFound (''Task '' @ quoted task_id @ '' not found'')), coordinator, d)
      | Some task \<Rightarrow>
          (case when_coordinated (pause_table (st_table task)) coordinator of
             None \<Rightarrow> None
           | Some coordinator1 \<Rightarrow>
               (case sync task d of
                  None \<Rightarrow> None
                | Some (r, d1) \<Rightarrow>
                    map_option (\<lambda>coordinator2. (r, coordinator2, d1))
                      (when_coordinated (resume_table (st_table task)) coordinator1))))"

section \<open>Where an event goes\<close>

lemma send_keys_paused: "cc_paused_tables c \<subseteq> cc_paused_tables (fst (send_keys keys event c))"
proof (induction keys arbitrary: c)
  case (Cons key keys)
  show ?case
  proof (cases "hm_get (cc_channels c) key")
    case None
    with Cons show ?thesis by simp
  next
    case (Some tx)
    with Cons [of c] Cons [of "put_channel key (tx\<lparr>ch_queue := ch_queue tx @ [event]\<rparr>) c"] show ?thesis
      by (auto simp: put_channel_def pause_table_def)
  qed
qed simp

lemma take_event_paused: "cc_paused_tables (snd st) \<subseteq> cc_paused_tables (snd (take_event st r))"
proof -
  have "cc_paused_tables c \<subseteq> cc_paused_tables (fst (distribute_event event c))" for event c
    using send_keys_paused [of c _ event] by (simp add: distribute_event_def split: option.splits)
  then show ?thesis
    by (auto simp: take_event_def split: sum.splits prod.splits) (metis fst_conv in_mono)
qed

lemma cdc_step_paused: "cdc_step st st' \<Longrightarrow> cc_paused_tables (snd st) \<subseteq> cc_paused_tables (snd st')"
proof (induction rule: cdc_step.induct)
  case (step_event c event_result)
  show ?case using take_event_paused [of "(Reading, c)"] by simp
next
  case (step_unblock event key keys c st)
  have "cc_paused_tables (put_channel k tx c) = cc_paused_tables c" for k tx by (simp add: put_channel_def)
  with step_unblock send_keys_paused show ?case
    by (auto simp: unblock_def split: option.splits if_splits prod.splits) (metis fst_conv in_mono)+
qed (simp_all add: put_channel_def)

lemma cdc_steps_paused: "cdc_steps st st' \<Longrightarrow> cc_paused_tables (snd st) \<subseteq> cc_paused_tables (snd st')"
  by (induction rule: rtranclp_induct) (auto dest: cdc_step_paused)

text \<open>
  A channel that was full once starves its table: the event that finds it full pauses the
  table, and at every later moment of the run each further event of that table is dropped, because
  only the coordinator itself could be asked to resume it while it runs.
\<close>

theorem full_channel_starves_its_table:
  assumes "hm_get (cc_channels c) table = Some tx" and "ch_open tx" and "ch_capacity tx \<le> length (ch_queue tx)"
    and "\<not> table_paused c table" and "\<not> cc_is_paused c" and "event_table event = Some table"
    and "cdc_steps (take_event (Reading, c) (Inr event)) (Reading, c')" and "event_table later = Some table"
  shows "(\<exists>keys. fst (take_event (Reading, c) (Inr event)) = Blocked event table keys) \<and>
    take_event (Reading, c') (Inr later) = (Reading, c')"
proof -
  have take: "take_event (Reading, c) (Inr event) =
      (Blocked event table (tl (keys_of table)), pause_table table c)"
    using assms(1-6) by (simp add: take_event_def distribute_event_def keys_of_def)
  from cdc_steps_paused [OF assms(7)] have "table \<in> cc_paused_tables c'"
    by (simp add: take pause_table_def subset_eq)
  then have "take_event (Reading, c') (Inr later) = (Reading, c')"
    using assms(8) by (simp add: take_event_def distribute_event_def table_paused_def)
  with take show ?thesis by simp
qed

definition demo_insert_event :: "string \<Rightarrow> stream_event" where
  "demo_insert_event schema = EvCdc \<lparr>cdc_event_type = EtCreate, cdc_table = ''users'', cdc_schema = schema,
     cdc_data = [(''id'', Bool True)], cdc_timestamp = 0, cdc_position = None\<rparr>"

definition demo_cdc :: "nat \<Rightarrow> cdc" where
  "demo_cdc room = register_task ''users'' \<lparr>ch_queue = [EvHeartbeat], ch_capacity = Suc room, ch_open = True\<rparr> cdc_new"

theorem full_channel_starves_its_table_witness:
  "\<exists>c'. cdc_steps (take_event (Reading, demo_cdc 0) (Inr (demo_insert_event []))) (Reading, c') \<and>
    take_event (Reading, c') (Inr (demo_insert_event [])) = (Reading, c')"
proof -
  let ?e = "demo_insert_event []" and ?tx = "\<lparr>ch_queue = [EvHeartbeat], ch_capacity = 1, ch_open = True\<rparr>"
  have chan: "hm_get (cc_channels (demo_cdc 0)) ''users'' = Some ?tx"
    by (simp add: demo_cdc_def register_task_def cdc_new_def)
  have ev: "event_table ?e = Some ''users''" by (simp add: demo_insert_event_def)
  have free: "\<not> table_paused (demo_cdc 0) ''users''" "\<not> cc_is_paused (demo_cdc 0)"
    by (simp_all add: demo_cdc_def register_task_def cdc_new_def table_paused_def)
  let ?c1 = "pause_table ''users'' (demo_cdc 0)"
  have take: "take_event (Reading, demo_cdc 0) (Inr ?e) = (Blocked ?e ''users'' [], ?c1)"
    using chan ev free by (simp add: take_event_def distribute_event_def keys_of_def has_schema_def)
  let ?c2 = "put_channel ''users'' (?tx\<lparr>ch_queue := []\<rparr>) ?c1"
  have "cdc_step (Blocked ?e ''users'' [], ?c1) (Blocked ?e ''users'' [], ?c2)"
    using chan by (intro step_receive [where event = EvHeartbeat]) (simp_all add: pause_table_def)
  moreover obtain c' where "unblock ?e ''users'' [] ?c2 = Some (Reading, c')"
    by (simp add: unblock_def put_channel_def hm_get_insert)
  then have "cdc_step (Blocked ?e ''users'' [], ?c2) (Reading, c')" by (rule step_unblock)
  ultimately have steps: "cdc_steps (take_event (Reading, demo_cdc 0) (Inr ?e)) (Reading, c')"
    unfolding take by (meson r_into_rtranclp rtranclp_trans)
  from full_channel_starves_its_table [OF chan _ _ free ev steps ev] steps show ?thesis by auto
qed

text \<open>
  While the coordinator runs, nothing can control it: pausing, resuming, asking whether it is
  paused, and a full synchronisation on demand of a configured task all wait for the lock that the
  running task holds, until the coordinator has ended.
\<close>

theorem control_waits_while_running:
  assumes "sh_phase s \<noteq> Ended" and "List.find (\<lambda>t. st_id t = task_id) tasks = Some task"
  shows "pause_cdc (Some s) = None \<and> resume_cdc (Some s) = None \<and> is_cdc_paused (Some s) = None \<and>
    pause_cdc_table table (Some s) = None \<and> resume_cdc_table table (Some s) = None \<and>
    get_paused_tables (Some s) = None \<and> trigger_full_sync tasks sync task_id (Some s) d = None"
  using assms
  by (simp add: pause_cdc_def resume_cdc_def is_cdc_paused_def pause_cdc_table_def resume_cdc_table_def
      get_paused_tables_def control_def with_lock_def write_locked_def trigger_full_sync_def when_coordinated_def)

theorem control_waits_while_running_witness:
  "pause_cdc (Some \<lparr>sh_phase = Reading, sh_cdc = cdc_new\<rparr>) = None \<and>
    trigger_full_sync [demo_task ''users'' ''u''] (\<lambda>t d. Some (Inr (), d)) ''users''
      (Some \<lparr>sh_phase = Reading, sh_cdc = cdc_new\<rparr>) (0 :: nat) = None"
proof -
  have "List.find (\<lambda>t. st_id t = ''users'') [demo_task ''users'' ''u''] = Some (demo_task ''users'' ''u'')"
    by (simp add: demo_task_def)
  from control_waits_while_running [OF _ this, where s = "\<lparr>sh_phase = Reading, sh_cdc = cdc_new\<rparr>"
      and sync = "\<lambda>t d. Some (Inr (), d)" and d = "0 :: nat"]
  show ?thesis by simp
qed

text \<open>One key of \<open>send_keys\<close> when its channel has room.\<close>

definition offer :: "stream_event \<Rightarrow> string \<Rightarrow> cdc \<Rightarrow> cdc" where
  "offer event key c =
     (case hm_get (cc_channels c) key of
        None \<Rightarrow> c
      | Some tx \<Rightarrow> put_channel key (tx\<lparr>ch_queue := ch_queue tx @ [event]\<rparr>) c)"

lemma offer_get [simp]:
  "hm_get (cc_channels (offer event key c)) k =
     map_option (\<lambda>tx. if k = key then tx\<lparr>ch_queue := ch_queue tx @ [event]\<rparr> else tx) (hm_get (cc_channels c) k)"
  "cc_paused_tables (offer event key c) = cc_paused_tables c"
  by (cases "hm_get (cc_channels c) key"; cases "hm_get (cc_channels c) k";
      auto simp: offer_def put_channel_def hm_get_insert)+

lemma send_keys_offer:
  "(\<And>tx. hm_get (cc_channels c) key = Some tx \<Longrightarrow> ch_open tx \<and> length (ch_queue tx) < ch_capacity tx) \<Longrightarrow>
   send_keys (key # keys) event c = send_keys keys event (offer event key c)"
  by (auto simp: offer_def split: option.split)

text \<open>
  An event goes to the task registered under the full name of its table and to the one under
  the bare name, once each, and to no other: while neither is paused and their channels have room,
  both get it at the end of their queue and every other channel is unchanged.
\<close>

theorem event_reaches_its_tasks:
  assumes "event_table event = Some table" and "\<not> table_paused c table"
    and "\<forall>key tx. hm_get (cc_channels c) key = Some tx \<longrightarrow> ch_open tx \<and> length (ch_queue tx) < ch_capacity tx"
  shows "\<exists>c'. distribute_event event c = (c', None) \<and> cc_paused_tables c' = cc_paused_tables c \<and>
    (\<forall>key. hm_get (cc_channels c') key =
       map_option (\<lambda>tx. if key \<in> set (keys_of table) then tx\<lparr>ch_queue := ch_queue tx @ [event]\<rparr> else tx)
         (hm_get (cc_channels c) key))"
proof -
  have only: "table_only table \<noteq> table" if "has_schema table"
  proof
    assume eq: "table_only table = table"
    have "CHR ''.'' \<notin> set p" if "p \<in> set (split_on (CHR ''.'') xs)" for p xs
      using that by (induction xs arbitrary: p) (auto split: if_splits list.splits)
    moreover have "split_on (CHR ''.'') table \<noteq> []" by (cases table) (auto split: list.splits)
    from last_in_set [OF this] have "table_only table \<in> set (split_on (CHR ''.'') table)"
      by (simp add: table_only_def)
    ultimately have "CHR ''.'' \<notin> set (table_only table)" by blast
    with eq that show False by (simp add: has_schema_def)
  qed
  have one: "distribute_event event c =
      send_keys (if has_schema table then [table_only table] else []) event (offer event table c)"
    using assms send_keys_offer [of c table] by (auto simp: distribute_event_def keys_of_def simp del: send_keys.simps)
  show ?thesis
  proof (cases "has_schema table")
    case False
    with one show ?thesis
      by (intro exI [of _ "offer event table c"]) (simp add: keys_of_def offer_get)
  next
    case True
    have "hm_get (cc_channels (offer event table c)) (table_only table) = hm_get (cc_channels c) (table_only table)"
      using only [OF True] by (simp add: offer_get option.map_ident)
    with assms(3) have "ch_open tx \<and> length (ch_queue tx) < ch_capacity tx"
      if "hm_get (cc_channels (offer event table c)) (table_only table) = Some tx" for tx
      using that by simp
    then have "send_keys [table_only table] event (offer event table c) =
        send_keys [] event (offer event (table_only table) (offer event table c))"
      by (rule send_keys_offer)
    then have "send_keys [table_only table] event (offer event table c) =
        (offer event (table_only table) (offer event table c), None)" by (simp only: send_keys.simps)
    with one True have "distribute_event event c = (offer event (table_only table) (offer event table c), None)"
      by (simp only: if_True)
    moreover have "hm_get (cc_channels (offer event (table_only table) (offer event table c))) key =
        map_option (\<lambda>tx. if key \<in> set (keys_of table) then tx\<lparr>ch_queue := ch_queue tx @ [event]\<rparr> else tx)
          (hm_get (cc_channels c) key)" for key
      using True only [OF True] by (cases "hm_get (cc_channels c) key") (auto simp: keys_of_def offer_get)
    ultimately show ?thesis by (intro exI [of _ "offer event (table_only table) (offer event table c)"]) simp
  qed
qed

theorem event_reaches_its_tasks_witness:
  "\<exists>c'. distribute_event (demo_insert_event ''public'') (demo_cdc 1) = (c', None) \<and>
    map_option ch_queue (hm_get (cc_channels c') ''users'') = Some [EvHeartbeat, demo_insert_event ''public'']"
proof -
  have "event_table (demo_insert_event ''public'') = Some ''public.users''"
    by (simp add: demo_insert_event_def)
  moreover have "\<not> table_paused (demo_cdc 1) ''public.users''"
    by (simp add: demo_cdc_def register_task_def cdc_new_def table_paused_def)
  moreover have "\<forall>key tx. hm_get (cc_channels (demo_cdc 1)) key = Some tx \<longrightarrow>
      ch_open tx \<and> length (ch_queue tx) < ch_capacity tx"
    by (auto simp: demo_cdc_def register_task_def cdc_new_def split: if_splits)
  ultimately obtain c' where c': "distribute_event (demo_insert_event ''public'') (demo_cdc 1) = (c', None)"
    "\<forall>key. hm_get (cc_channels c') key =
       map_option (\<lambda>tx. if key \<in> set (keys_of ''public.users'') then tx\<lparr>ch_queue := ch_queue tx @ [demo_insert_event ''public'']\<rparr> else tx)
         (hm_get (cc_channels (demo_cdc 1)) key)"
    using event_reaches_its_tasks [of "demo_insert_event ''public''" "''public.users''" "demo_cdc 1"] by blast
  have "''users'' \<in> set (keys_of ''public.users'')" by (simp add: keys_of_def has_schema_def table_only_def)
  with c' show ?thesis by (simp add: demo_cdc_def register_task_def cdc_new_def)
qed

section \<open>Bounds of the channels\<close>

definition channels_ok :: "cdc \<Rightarrow> bool" where
  "channels_ok c \<longleftrightarrow> (\<forall>key tx. hm_get (cc_channels c) key = Some tx \<longrightarrow> length (ch_queue tx) \<le> ch_capacity tx)"

lemma channels_ok_put:
  "channels_ok c \<Longrightarrow> length (ch_queue tx) \<le> ch_capacity tx \<Longrightarrow> channels_ok (put_channel key tx c)"
  by (simp add: channels_ok_def put_channel_def hm_get_insert)

lemma channels_ok_pause: "channels_ok (pause_table t c) = channels_ok c"
  by (simp add: channels_ok_def pause_table_def)

lemma channels_ok_send: "channels_ok c \<Longrightarrow> channels_ok (fst (send_keys keys event c))"
proof (induction keys arbitrary: c)
  case (Cons key keys)
  show ?case
  proof (cases "hm_get (cc_channels c) key")
    case (Some tx)
    with Cons.IH [of c] Cons.IH [OF channels_ok_put [OF Cons.prems, of "tx\<lparr>ch_queue := ch_queue tx @ [event]\<rparr>" key]]
      Cons.prems show ?thesis
      by (simp add: channels_ok_pause)
  qed (use Cons in simp)
qed simp

text \<open>
  No channel ever holds more events than its capacity, whatever the coordinator and the
  receivers do.
\<close>

theorem channels_stay_bounded:
  assumes "cdc_steps st st'" and "channels_ok (snd st)"
  shows "channels_ok (snd st')"
  using assms
proof (induction rule: rtranclp_induct)
  case (step st1 st2)
  then have ok: "channels_ok (snd st1)" by simp
  from step(2) ok show ?case
  proof (induction rule: cdc_step.induct)
    case (step_event c event_result)
    have "channels_ok (fst (distribute_event e c))" for e
      using step_event channels_ok_send by (simp add: distribute_event_def split: option.split)
    with step_event show ?case
      by (auto simp: take_event_def split: sum.split prod.splits) (metis fst_conv)
  next
    case (step_unblock event key keys c st)
    have "channels_ok (fst (send_keys keys event c))" using channels_ok_send step_unblock(2) by simp
    moreover have "channels_ok (fst (send_keys keys event (put_channel key (tx\<lparr>ch_queue := ch_queue tx @ [event]\<rparr>) c)))"
      if "length (ch_queue tx) < ch_capacity tx" for tx
      using that step_unblock(2) by (intro channels_ok_send channels_ok_put) simp_all
    ultimately show ?case
      using step_unblock(1) by (auto simp: unblock_def split: option.splits if_splits prod.splits) (metis fst_conv)+
  next
    case (step_receive c key tx event events phase)
    then have "length (ch_queue tx) \<le> ch_capacity tx" unfolding channels_ok_def snd_conv by blast
    with step_receive show ?case by (auto intro!: channels_ok_put)
  next
    case (step_close c key tx phase)
    then have "length (ch_queue tx) \<le> ch_capacity tx" unfolding channels_ok_def snd_conv by blast
    with step_close show ?case by (auto intro!: channels_ok_put)
  qed simp
qed simp

theorem channels_stay_bounded_witness:
  "\<exists>st. cdc_steps (Reading, demo_cdc 0) st \<and> fst st = Ended \<and> channels_ok (snd st)"
proof -
  have "cdc_steps (Reading, demo_cdc 0) (Ended, demo_cdc 0)" by (rule r_into_rtranclp) (rule step_shutdown)
  moreover from channels_stay_bounded [OF this] have "channels_ok (snd (Ended, demo_cdc 0))"
    by (simp add: channels_ok_def demo_cdc_def register_task_def cdc_new_def)
  ultimately show ?thesis by (intro exI [of _ "(Ended, demo_cdc 0)"]) simp
qed

end
