(* ===== verification/Pressure.thy ===== *)
theory Pressure
  imports Models Text F64
begin

text \<open>
  Back-pressure and memory accounting: \<open>src/pipeline/backpressure.rs\<close> and
  \<open>src/pipeline/memory_monitor.rs\<close>. The atomic counters wrap around; every atomic operation is a
  step of its own, so that concurrent callers interleave.
\<close>

section \<open>Back-pressure\<close>

record backpressure_config =
  bk_high_watermark :: f64
  bk_low_watermark :: f64
  bk_check_interval_ms :: u64
  bk_channel_capacity :: nat

definition backpressure_config_default :: backpressure_config where
  "backpressure_config_default = \<lparr>bk_high_watermark = Fin 80, bk_low_watermark = Fin 60,
     bk_check_interval_ms = 100, bk_channel_capacity = 1000\<rparr>"

record channel_metrics =
  cx_current_size :: nat
  cx_is_throttled :: bool

datatype backpressure_event = PauseSource string | ResumeSource string | PauseAll | ResumeAll

record backpressure =
  bk_config :: backpressure_config
  bk_channels :: "(string, channel_metrics) hmap"

definition backpressure_new :: "backpressure_config \<Rightarrow> backpressure" where
  "backpressure_new config = \<lparr>bk_config = config, bk_channels = []\<rparr>"

definition update_channel_size :: "string \<Rightarrow> nat \<Rightarrow> backpressure \<Rightarrow> backpressure" where
  "update_channel_size table n b =
     b\<lparr>bk_channels := hm_insert table
        (case hm_get (bk_channels b) table of
           Some m \<Rightarrow> m\<lparr>cx_current_size := n\<rparr>
         | None \<Rightarrow> \<lparr>cx_current_size = n, cx_is_throttled = False\<rparr>) (bk_channels b)\<rparr>"

definition register_table :: "string \<Rightarrow> backpressure \<Rightarrow> backpressure" where
  "register_table table b =
     (case hm_get (bk_channels b) table of
        Some m \<Rightarrow> b
      | None \<Rightarrow> b\<lparr>bk_channels := hm_insert table \<lparr>cx_current_size = 0, cx_is_throttled = False\<rparr> (bk_channels b)\<rparr>)"

definition is_throttled :: "string \<Rightarrow> backpressure \<Rightarrow> bool" where
  "is_throttled table b =
     (case hm_get (bk_channels b) table of Some m \<Rightarrow> cx_is_throttled m | None \<Rightarrow> False)"

definition usage_percent :: "backpressure_config \<Rightarrow> channel_metrics \<Rightarrow> f64" where
  "usage_percent config m =
     f64_mul (f64_div (f64_of_nat (cx_current_size m)) (f64_of_nat (bk_channel_capacity config))) (Fin 100)"

text \<open>What one check does to one table: the event it sends, if any, and the metrics afterwards.\<close>

definition check_table ::
  "backpressure_config \<Rightarrow> string \<Rightarrow> channel_metrics \<Rightarrow> backpressure_event option \<times> channel_metrics" where
  "check_table config table m =
     (if \<not> cx_is_throttled m \<and> f64_le (bk_high_watermark config) (usage_percent config m)
      then (Some (PauseSource table), m\<lparr>cx_is_throttled := True\<rparr>)
      else if cx_is_throttled m \<and> f64_le (usage_percent config m) (bk_low_watermark config)
      then (Some (ResumeSource table), m\<lparr>cx_is_throttled := False\<rparr>)
      else (None, m))"

definition monitor_tick :: "backpressure \<Rightarrow> backpressure_event list \<times> backpressure" where
  "monitor_tick b =
     (let checked = map (\<lambda>(table, m). (table, check_table (bk_config b) table m)) (bk_channels b)
      in (List.map_filter (\<lambda>(table, e, m). e) checked,
          b\<lparr>bk_channels := map (\<lambda>(table, e, m). (table, m)) checked\<rparr>))"

section \<open>Memory\<close>

record memory_monitor =
  mm_max_queue_memory :: u64
  mm_max_checkpoint_memory :: u64
  mm_current_queue_memory :: u64
  mm_current_checkpoint_memory :: u64
  mm_event_count :: u64

definition memory_monitor_new :: "u64 \<Rightarrow> u64 \<Rightarrow> memory_monitor" where
  "memory_monitor_new max_queue_memory_mb max_checkpoint_memory_mb =
     \<lparr>mm_max_queue_memory = max_queue_memory_mb * 1024 * 1024,
      mm_max_checkpoint_memory = max_checkpoint_memory_mb * 1024 * 1024,
      mm_current_queue_memory = 0, mm_current_checkpoint_memory = 0, mm_event_count = 0\<rparr>"

datatype allocation_type = AllocQueue | AllocCheckpoint

fun memory_limit :: "allocation_type \<Rightarrow> memory_monitor \<Rightarrow> u64" where
  "memory_limit AllocQueue = mm_max_queue_memory"
| "memory_limit AllocCheckpoint = mm_max_checkpoint_memory"

fun memory_current :: "allocation_type \<Rightarrow> memory_monitor \<Rightarrow> u64" where
  "memory_current AllocQueue = mm_current_queue_memory"
| "memory_current AllocCheckpoint = mm_current_checkpoint_memory"

text \<open>\<open>fetch_add\<close> on a counter; subtracting adds the two's complement.\<close>

fun memory_add :: "allocation_type \<Rightarrow> u64 \<Rightarrow> memory_monitor \<Rightarrow> memory_monitor" where
  "memory_add AllocQueue n s = s\<lparr>mm_current_queue_memory := mm_current_queue_memory s + n\<rparr>"
| "memory_add AllocCheckpoint n s = s\<lparr>mm_current_checkpoint_memory := mm_current_checkpoint_memory s + n\<rparr>"

fun count_event :: "allocation_type \<Rightarrow> u64 \<Rightarrow> memory_monitor \<Rightarrow> memory_monitor" where
  "count_event AllocQueue n s = s\<lparr>mm_event_count := mm_event_count s + n\<rparr>"
| "count_event AllocCheckpoint n s = s"

text \<open>The first step of tracking: whether the new total is over the limit.\<close>

definition reserve :: "allocation_type \<Rightarrow> u64 \<Rightarrow> memory_monitor \<Rightarrow> bool \<times> memory_monitor" where
  "reserve t bytes s = (memory_current t s + bytes \<le> memory_limit t s, memory_add t bytes s)"

definition limit_text :: "allocation_type \<Rightarrow> string" where
  "limit_text t = (case t of AllocQueue \<Rightarrow> ''Queue'' | AllocCheckpoint \<Rightarrow> ''Checkpoint'') @ '' memory limit exceeded: ''"

definition track_memory :: "allocation_type \<Rightarrow> u64 \<Rightarrow> memory_monitor \<Rightarrow> u64 result \<times> memory_monitor" where
  "track_memory t bytes s =
     (case reserve t bytes s of
        (False, s1) \<Rightarrow>
          (Inl (ResourceExhausted (limit_text t @ show_nat (unat (memory_limit t s div 1048576)) @ '' MB'')),
           memory_add t (- bytes) s1)
      | (True, s1) \<Rightarrow> (Inr bytes, count_event t 1 s1))"

definition release_memory :: "allocation_type \<Rightarrow> u64 \<Rightarrow> memory_monitor \<Rightarrow> memory_monitor" where
  "release_memory t bytes s = count_event t (- 1) (memory_add t (- bytes) s)"

definition usage_of :: "u64 \<Rightarrow> u64 \<Rightarrow> f64" where
  "usage_of used limit = f64_mul (f64_div (f64_of_nat (unat used)) (f64_of_nat (unat limit))) (Fin 100)"

definition should_apply_backpressure :: "memory_monitor \<Rightarrow> bool" where
  "should_apply_backpressure s = f64_lt (Fin 80) (usage_of (mm_current_queue_memory s) (mm_max_queue_memory s))"

record memory_stats =
  ms_queue_memory_bytes :: u64
  ms_checkpoint_memory_bytes :: u64
  ms_max_queue_memory_bytes :: u64
  ms_max_checkpoint_memory_bytes :: u64
  ms_event_count :: u64

definition memory_get_stats :: "memory_monitor \<Rightarrow> memory_stats" where
  "memory_get_stats s =
     \<lparr>ms_queue_memory_bytes = mm_current_queue_memory s,
      ms_checkpoint_memory_bytes = mm_current_checkpoint_memory s,
      ms_max_queue_memory_bytes = mm_max_queue_memory s,
      ms_max_checkpoint_memory_bytes = mm_max_checkpoint_memory s, ms_event_count = mm_event_count s\<rparr>"

definition queue_usage_percent :: "memory_stats \<Rightarrow> f64" where
  "queue_usage_percent s = usage_of (ms_queue_memory_bytes s) (ms_max_queue_memory_bytes s)"

definition checkpoint_usage_percent :: "memory_stats \<Rightarrow> f64" where
  "checkpoint_usage_percent s = usage_of (ms_checkpoint_memory_bytes s) (ms_max_checkpoint_memory_bytes s)"

datatype memory_pressure_event = HighQueueMemory f64 | HighCheckpointMemory f64

definition memory_tick :: "memory_monitor \<Rightarrow> memory_pressure_event list" where
  "memory_tick s =
     (let queue_percent = usage_of (mm_current_queue_memory s) (mm_max_queue_memory s);
          checkpoint_percent = usage_of (mm_current_checkpoint_memory s) (mm_max_checkpoint_memory s)
      in (if f64_lt (Fin 90) queue_percent then [HighQueueMemory queue_percent] else []) @
         (if f64_lt (Fin 90) checkpoint_percent then [HighCheckpointMemory checkpoint_percent] else []))"

section \<open>Back-pressure alternates\<close>

inductive bp_run :: "backpressure_config \<Rightarrow> backpressure_event list \<Rightarrow> backpressure \<Rightarrow> bool" for config where
  bp_start: "bp_run config [] (backpressure_new config)"
| bp_register: "bp_run config es b \<Longrightarrow> bp_run config es (register_table table b)"
| bp_update: "bp_run config es b \<Longrightarrow> bp_run config es (update_channel_size table n b)"
| bp_tick: "bp_run config es b \<Longrightarrow> monitor_tick b = (new, b') \<Longrightarrow> bp_run config (es @ new) b'"

fun event_source :: "backpressure_event \<Rightarrow> string option" where
  "event_source (PauseSource t) = Some t"
| "event_source (ResumeSource t) = Some t"
| "event_source e = None"

text \<open>Whether the table is paused after these events, if they alternate.\<close>

fun paused_after :: "bool \<Rightarrow> backpressure_event list \<Rightarrow> bool option" where
  "paused_after p [] = Some p"
| "paused_after False (PauseSource t # es) = paused_after True es"
| "paused_after True (ResumeSource t # es) = paused_after False es"
| "paused_after p (e # es) = None"

lemma paused_after_append: "paused_after p (es @ es') = Option.bind (paused_after p es) (\<lambda>q. paused_after q es')"
  by (induction p es rule: paused_after.induct) auto

lemma check_table_cases:
  "check_table config t m = (e, m') \<Longrightarrow>
     paused_after (cx_is_throttled m) (case e of None \<Rightarrow> [] | Some x \<Rightarrow> [x]) = Some (cx_is_throttled m') \<and>
     (\<forall>x. e = Some x \<longrightarrow> event_source x = Some t)"
  by (auto simp: check_table_def split: if_splits)

lemma tick_events:
  "hm_ok ms \<Longrightarrow>
   filter (\<lambda>x. event_source x = Some t) (List.map_filter (\<lambda>(t, m). fst (check_table config t m)) ms) =
     (case hm_get ms t of None \<Rightarrow> [] | Some m \<Rightarrow> (case fst (check_table config t m) of None \<Rightarrow> [] | Some x \<Rightarrow> [x]))"
proof (induction ms)
  case (Cons tm ms)
  obtain t' m where tm: "tm = (t', m)" by fastforce
  obtain e m' where e: "check_table config t' m = (e, m')" by fastforce
  from check_table_cases [OF this] have src: "e = Some x \<Longrightarrow> event_source x = Some t'" for x by simp
  have "hm_ok ms" "t' = t \<Longrightarrow> hm_get ms t = None"
    using Cons.prems tm by (auto simp: hm_ok_def map_of_eq_None_iff)
  with Cons.IH e src tm show ?case
    by (cases e) (auto simp: map_filter_simps)
qed (simp add: map_filter_simps)

lemma get_mapped: "hm_get (map (\<lambda>(t, m). (t, f t m)) ms) k = map_option (f k) (hm_get ms k)"
  by (induction ms) auto

lemma tick_eq:
  "monitor_tick b =
     (List.map_filter (\<lambda>(t, m). fst (check_table (bk_config b) t m)) (bk_channels b),
      b\<lparr>bk_channels := map (\<lambda>(t, m). (t, snd (check_table (bk_config b) t m))) (bk_channels b)\<rparr>)"
proof -
  have "List.map_filter (\<lambda>(t, e, m). e) (map (\<lambda>(t, m). (t, check_table (bk_config b) t m)) ms) =
      List.map_filter (\<lambda>(t, m). fst (check_table (bk_config b) t m)) ms" for ms
    by (induction ms) (auto simp: map_filter_simps split: option.splits prod.splits)
  moreover have "map (\<lambda>(t, e, m). (t, m)) (map (\<lambda>(t, m). (t, check_table (bk_config b) t m)) ms) =
      map (\<lambda>(t, m). (t, snd (check_table (bk_config b) t m))) ms" for ms
    by (induction ms) (auto split: prod.splits)
  ultimately show ?thesis by (simp add: monitor_tick_def Let_def)
qed

text \<open>
  Back-pressure pauses and resumes each table in turn: along every sequence of registrations,
  size updates and checks, the events sent for a table alternate, beginning with a pause, and the
  table counts as throttled exactly when the last one was a pause.
\<close>

theorem backpressure_alternates:
  assumes "bp_run config es b"
  shows "paused_after False (filter (\<lambda>e. event_source e = Some table) es) = Some (is_throttled table b)"
proof -
  have "hm_ok (bk_channels b) \<and> bk_config b = config \<and>
    paused_after False (filter (\<lambda>e. event_source e = Some table) es) = Some (is_throttled table b)"
    using assms
  proof (induction rule: bp_run.induct)
    case bp_start
    show ?case by (simp add: backpressure_new_def is_throttled_def)
  next
    case (bp_register es b t)
    then show ?case
      by (auto simp: register_table_def is_throttled_def hm_get_insert split: option.splits)
  next
    case (bp_update es b t n)
    then show ?case
      by (auto simp: update_channel_size_def is_throttled_def hm_get_insert split: option.splits)
  next
    case (bp_tick es b new b')
    let ?ms = "bk_channels b"
    have b': "new = List.map_filter (\<lambda>(t, m). fst (check_table config t m)) ?ms"
        "bk_channels b' = map (\<lambda>(t, m). (t, snd (check_table config t m))) ?ms" "bk_config b' = config"
      using bp_tick by (auto simp: tick_eq)
    have keys: "hm_ok (bk_channels b')" using bp_tick(3) unfolding b'(2) hm_ok_def
      by (simp add: comp_def case_prod_beta)
    have get: "hm_get (bk_channels b') table = map_option (\<lambda>m. snd (check_table config table m)) (hm_get ?ms table)"
      unfolding b'(2) by (rule get_mapped)
    show ?case
    proof (cases "hm_get ?ms table")
      case None
      with tick_events [of ?ms table config] bp_tick(3) b' keys get show ?thesis
        by (simp add: is_throttled_def)
    next
      case (Some m)
      obtain e m' where e: "check_table config table m = (e, m')" by fastforce
      from check_table_cases [OF this] Some tick_events [of ?ms table config] bp_tick(3) b' keys get e show ?thesis
        by (simp add: is_throttled_def paused_after_append)
    qed
  qed
  then show ?thesis by blast
qed

definition demo_backpressure :: backpressure where
  "demo_backpressure = register_table ''users'' (backpressure_new backpressure_config_default)"

theorem backpressure_alternates_witness:
  "\<exists>new b. monitor_tick demo_backpressure = (new, b) \<and>
    paused_after False (filter (\<lambda>e. event_source e = Some ''users'') ([] @ new)) = Some (is_throttled ''users'' b)"
proof -
  obtain new b where tick: "monitor_tick demo_backpressure = (new, b)" by fastforce
  have "bp_run backpressure_config_default [] demo_backpressure"
    unfolding demo_backpressure_def by (intro bp_register bp_start)
  from bp_tick [OF this tick] have "bp_run backpressure_config_default ([] @ new) b" .
  from backpressure_alternates [OF this, of "''users''"] tick show ?thesis by blast
qed

text \<open>
  As the pipeline uses it, back-pressure never fires: it registers every table, but nothing
  reports a channel size, so that no check ever sends an event or throttles a table.
\<close>

theorem backpressure_never_fires:
  "monitor_tick (fold register_table tables (backpressure_new backpressure_config_default)) =
     ([], fold register_table tables (backpressure_new backpressure_config_default))"
proof -
  let ?m = "\<lparr>cx_current_size = 0, cx_is_throttled = False\<rparr>"
  define empty where "empty b \<longleftrightarrow> bk_config b = backpressure_config_default \<and> snd ` set (bk_channels b) \<subseteq> {?m}" for b :: backpressure
  have "empty b \<Longrightarrow> empty (fold register_table tables b)" for b
  proof (induction tables arbitrary: b)
    case (Cons t tables)
    have "snd ` set (hm_insert t ?m ms) \<subseteq> insert ?m (snd ` set ms)" for ms :: "(string, channel_metrics) hmap"
      using set_hm_insert_subset [of t ?m ms] by auto
    with Cons.prems have "empty (register_table t b)"
      by (auto simp: empty_def register_table_def split: option.split)
    with Cons.IH show ?case by simp
  qed simp
  moreover have "empty (backpressure_new backpressure_config_default)" by (simp add: empty_def backpressure_new_def)
  ultimately have e: "empty (fold register_table tables (backpressure_new backpressure_config_default))" by blast
  have "usage_percent backpressure_config_default ?m = Fin 0"
    by (simp add: usage_percent_def backpressure_config_default_def f64_of_nat_exact f64_div_def f64_mul_def f64_round_def)
  then have "check_table backpressure_config_default t ?m = (None, ?m)" for t
    by (simp add: check_table_def) (simp add: backpressure_config_default_def)
  then have "monitor_tick b = ([], b)" if "empty b" for b
  proof -
    have "List.map_filter (\<lambda>(t, m). fst (check_table backpressure_config_default t m)) ms = [] \<and>
        map (\<lambda>(t, m). (t, snd (check_table backpressure_config_default t m))) ms = ms" if "snd ` set ms \<subseteq> {?m}" for ms
      using that \<open>\<And>t. check_table backpressure_config_default t ?m = (None, ?m)\<close>
      by (induction ms) (auto simp: map_filter_simps)
    with that show ?thesis by (simp add: tick_eq empty_def)
  qed
  with e show ?thesis by blast
qed

section \<open>Memory is accounted for\<close>

text \<open>
  What several callers do to one counter: allocations that were granted, and requests that were
  refused but not yet taken back.
\<close>

inductive mem_run :: "allocation_type \<Rightarrow> u64 list \<Rightarrow> u64 list \<Rightarrow> memory_monitor \<Rightarrow> bool" for t where
  mem_start: "mem_run t [] [] (memory_monitor_new a b)"
| mem_grant: "mem_run t live refused s \<Longrightarrow> reserve t n s = (True, s') \<Longrightarrow>
    mem_run t (n # live) refused (count_event t 1 s')"
| mem_refuse: "mem_run t live refused s \<Longrightarrow> reserve t n s = (False, s') \<Longrightarrow> mem_run t live (n # refused) s'"
| mem_undo: "mem_run t live refused s \<Longrightarrow> n \<in> set refused \<Longrightarrow>
    mem_run t live (remove1 n refused) (memory_add t (- n) s)"
| mem_drop: "mem_run t live refused s \<Longrightarrow> n \<in> set live \<Longrightarrow>
    mem_run t (remove1 n live) refused (release_memory t n s)"

fun counted :: "allocation_type \<Rightarrow> u64 list \<Rightarrow> u64" where
  "counted AllocQueue live = of_nat (length live)"
| "counted AllocCheckpoint live = 0"

lemma memory_add_simps [simp]:
  "memory_current t (memory_add t n s) = memory_current t s + n"
  "memory_current t (count_event t' n s) = memory_current t s"
  "mm_event_count (memory_add t n s) = mm_event_count s"
    apply (cases t; simp)
   apply (cases t; cases t'; simp)
  apply (cases t; simp)
  done

lemma counted_steps:
  "mm_event_count s = counted t live \<Longrightarrow> mm_event_count (count_event t 1 s) = counted t (n # live)"
  "mm_event_count s = counted t live \<Longrightarrow> n \<in> set live \<Longrightarrow>
     mm_event_count (count_event t (- 1) s) = counted t (remove1 n live)"
proof -
  show "mm_event_count s = counted t live \<Longrightarrow> mm_event_count (count_event t 1 s) = counted t (n # live)"
    by (cases t) simp_all
  assume n: "n \<in> set live" and m: "mm_event_count s = counted t live"
  from n have "0 < length live" by (rule length_pos_if_in_set)
  with n have "length live = Suc (length (remove1 n live))" by (simp add: length_remove1)
  then have "(of_nat (length live) :: u64) = of_nat (length (remove1 n live)) + 1" by simp
  with m show "mm_event_count (count_event t (- 1) s) = counted t (remove1 n live)"
    by (cases t) (simp_all del: of_nat_Suc)
qed

lemma sum_list_remove1_word: "x \<in> set xs \<Longrightarrow> sum_list (remove1 x xs) = sum_list xs - (x :: u64)"
  by (induction xs) (auto simp: algebra_simps)

text \<open>
  The memory counters are exact: whatever callers interleave, a counter is the sum, modulo
  \<open>2 ^ 64\<close>, of the allocations that are alive and of the refused requests that are not yet taken
  back, and the number of events is that of the live queue allocations.
\<close>

theorem memory_is_accounted_for:
  assumes "mem_run t live refused s"
  shows "memory_current t s = sum_list live + sum_list refused \<and> mm_event_count s = counted t live"
  using assms
proof (induction rule: mem_run.induct)
  case (mem_start a b)
  show ?case by (cases t) (simp_all add: memory_monitor_new_def)
next
  case (mem_grant live refused s n s')
  then have "s' = memory_add t n s" by (auto simp: reserve_def)
  with mem_grant show ?case by (simp add: algebra_simps counted_steps)
next
  case (mem_refuse live refused s n s')
  then have "s' = memory_add t n s" by (auto simp: reserve_def)
  with mem_refuse show ?case by (simp add: algebra_simps)
next
  case (mem_undo live refused s n)
  then show ?case by (simp add: sum_list_remove1_word algebra_simps)
next
  case (mem_drop live refused s n)
  then show ?case
    by (simp add: release_memory_def sum_list_remove1_word counted_steps algebra_simps)
qed

theorem memory_is_accounted_for_witness:
  "\<exists>s. mem_run AllocQueue [5] [] s \<and> mm_current_queue_memory s = 5 \<and> mm_event_count s = 1"
proof -
  let ?s = "memory_add AllocQueue 5 (memory_monitor_new 1 1)"
  have "reserve AllocQueue 5 (memory_monitor_new 1 1) = (True, ?s)"
    by (simp add: reserve_def memory_monitor_new_def word_le_nat_alt)
  from mem_grant [OF mem_start this] have run: "mem_run AllocQueue [5] [] (count_event AllocQueue 1 ?s)" .
  from memory_is_accounted_for [OF run] run show ?thesis
    by (intro exI [of _ "count_event AllocQueue 1 ?s"]) simp
qed

text \<open>
  One caller at a time never exceeds the limit, as long as the limit and the size of a request
  together stay below \<open>2 ^ 64\<close>; a request beyond that wraps around and may be granted.
\<close>

lemma track_within_limit:
  assumes "track_memory t n s = (Inr n', s')" and "unat (memory_limit t s) + unat n < 2 ^ 64"
    and "memory_current t s \<le> memory_limit t s"
  shows "unat (memory_current t s') = unat (memory_current t s) + unat n \<and>
    memory_current t s' \<le> memory_limit t s"
proof -
  have "unat (memory_current t s) + unat n < 2 ^ LENGTH(64)"
    using assms(2,3) by (simp add: word_le_nat_alt)
  then have "unat (memory_current t s + n) = unat (memory_current t s) + unat n" by (rule unat_add_lem [THEN iffD1])
  with assms(1) show ?thesis
    by (auto simp: track_memory_def reserve_def split: bool.splits)
qed

end
