(* ===== verification/StatementCache.thy ===== *)
theory StatementCache
  imports Models F64
begin

text \<open>
  The cache of prepared statements, \<open>src/source/postgres/statement_cache.rs\<close>. Preparing a
  statement is \<open>tokio_postgres\<close>'s, the parameter \<open>prepare\<close> over a world \<open>'w\<close>; which key the
  iterator of the map yields first is the parameter \<open>first_key\<close>. Looking up and inserting take the
  lock separately, so that they are steps of their own.
\<close>

section \<open>The cache\<close>

record cache_config =
  sx_max_size :: nat
  sx_enabled :: bool

definition cache_config_default :: cache_config where
  "cache_config_default = \<lparr>sx_max_size = 100, sx_enabled = True\<rparr>"

record 'p statement_cache =
  sc_cache :: "(string, 'p) hmap"
  sc_config :: cache_config
  sc_hits :: u64
  sc_misses :: u64
  sc_evictions :: u64

definition cache_new :: "cache_config \<Rightarrow> 'p statement_cache" where
  "cache_new config = \<lparr>sc_cache = [], sc_config = config, sc_hits = 0, sc_misses = 0, sc_evictions = 0\<rparr>"

definition cache_lookup :: "string \<Rightarrow> 'p statement_cache \<Rightarrow> 'p option \<times> 'p statement_cache" where
  "cache_lookup query s =
     (case hm_get (sc_cache s) query of
        Some stmt \<Rightarrow> (Some stmt, s\<lparr>sc_hits := sc_hits s + 1\<rparr>)
      | None \<Rightarrow> (None, s\<lparr>sc_misses := sc_misses s + 1\<rparr>))"

definition cache_insert ::
  "((string, 'p) hmap \<Rightarrow> string option) \<Rightarrow> string \<Rightarrow> 'p \<Rightarrow> 'p statement_cache \<Rightarrow> 'p statement_cache" where
  "cache_insert first_key query stmt s =
     (let s1 = (if length (sc_cache s) \<ge> sx_max_size (sc_config s)
                then (case first_key (sc_cache s) of
                        Some key \<Rightarrow> s\<lparr>sc_cache := hm_remove key (sc_cache s), sc_evictions := sc_evictions s + 1\<rparr>
                      | None \<Rightarrow> s)
                else s)
      in s1\<lparr>sc_cache := hm_insert query stmt (sc_cache s1)\<rparr>)"

definition get_or_prepare ::
  "(string \<Rightarrow> 'w \<Rightarrow> (string + 'p) \<times> 'w) \<Rightarrow> ((string, 'p) hmap \<Rightarrow> string option) \<Rightarrow> string \<Rightarrow>
     'p statement_cache \<Rightarrow> 'w \<Rightarrow> 'p result \<times> 'p statement_cache \<times> 'w" where
  "get_or_prepare prepare first_key query s w =
     (let failed = (\<lambda>e. Inl (Source (''Failed to prepare statement: '' @ e)))
      in if \<not> sx_enabled (sc_config s) then
           (case prepare query w of (Inl e, w1) \<Rightarrow> (failed e, s, w1) | (Inr stmt, w1) \<Rightarrow> (Inr stmt, s, w1))
         else (case cache_lookup query s of
             (Some stmt, s1) \<Rightarrow> (Inr stmt, s1, w)
           | (None, s1) \<Rightarrow>
               (case prepare query w of
                  (Inl e, w1) \<Rightarrow> (failed e, s1, w1)
                | (Inr stmt, w1) \<Rightarrow> (Inr stmt, cache_insert first_key query stmt s1, w1))))"

definition cache_clear :: "'p statement_cache \<Rightarrow> 'p statement_cache" where
  "cache_clear s = s\<lparr>sc_cache := []\<rparr>"

definition cache_invalidate :: "string \<Rightarrow> 'p statement_cache \<Rightarrow> 'p statement_cache" where
  "cache_invalidate query s = s\<lparr>sc_cache := hm_remove query (sc_cache s)\<rparr>"

definition cache_contains :: "string \<Rightarrow> 'p statement_cache \<Rightarrow> bool" where
  "cache_contains query s = hm_contains_key (sc_cache s) query"

record cache_stats =
  cz_size :: nat
  cz_hits :: u64
  cz_misses :: u64
  cz_evictions :: u64
  cz_hit_rate :: f64

definition calculate_hit_rate :: "u64 \<Rightarrow> u64 \<Rightarrow> f64" where
  "calculate_hit_rate hits misses =
     (let all = hits + misses
      in if all = 0 then Fin 0 else f64_div (f64_of_nat (unat hits)) (f64_of_nat (unat all)))"

definition cache_get_stats :: "'p statement_cache \<Rightarrow> cache_stats" where
  "cache_get_stats s =
     \<lparr>cz_size = length (sc_cache s), cz_hits = sc_hits s, cz_misses = sc_misses s,
      cz_evictions = sc_evictions s, cz_hit_rate = calculate_hit_rate (sc_hits s) (sc_misses s)\<rparr>"

text \<open>A slice of a string must end between two characters; otherwise it panics, which is \<open>None\<close>.\<close>

definition truncate_query :: "string \<Rightarrow> string option" where
  "truncate_query query =
     (if length query \<le> 100 then Some query
      else if of_char (query ! 100) \<in> {0x80 ..< (0xC0 :: nat)} then None
      else Some (take 100 query))"

text \<open>
  Exporting: gauges are set, counters are incremented by the statistics, which are totals already.
\<close>

record cache_metrics =
  xm_size :: nat
  xm_hits :: f64
  xm_misses :: f64
  xm_evictions :: f64
  xm_hit_rate :: f64

definition export_metrics :: "cache_stats \<Rightarrow> cache_metrics \<Rightarrow> cache_metrics" where
  "export_metrics st m =
     \<lparr>xm_size = cz_size st,
      xm_hits = f64_add (xm_hits m) (f64_of_nat (unat (cz_hits st))),
      xm_misses = f64_add (xm_misses m) (f64_of_nat (unat (cz_misses st))),
      xm_evictions = f64_add (xm_evictions m) (f64_of_nat (unat (cz_evictions st))),
      xm_hit_rate = cz_hit_rate st\<rparr>"

text \<open>
  A connection with the cache: get the statement, then run it; \<open>run\<close> is the call of the client.
\<close>

type_synonym ('p, 'r, 'w) cached_run =
  "(string \<Rightarrow> 'w \<Rightarrow> (string + 'p) \<times> 'w) \<Rightarrow> ((string, 'p) hmap \<Rightarrow> string option) \<Rightarrow>
     ('p \<Rightarrow> 'w \<Rightarrow> (string + 'r) \<times> 'w) \<Rightarrow> string \<Rightarrow> 'p statement_cache \<Rightarrow> 'w \<Rightarrow> 'r result \<times> 'p statement_cache \<times> 'w"

definition cached_call :: "string \<Rightarrow> ('p, 'r, 'w) cached_run" where
  "cached_call failure prepare first_key run query s w =
     (case get_or_prepare prepare first_key query s w of
        (Inl e, s1, w1) \<Rightarrow> (Inl e, s1, w1)
      | (Inr stmt, s1, w1) \<Rightarrow>
          (case run stmt w1 of
             (Inl e, w2) \<Rightarrow> (Inl (Source (failure @ e)), s1, w2)
           | (Inr r, w2) \<Rightarrow> (Inr r, s1, w2)))"

definition cached_query :: "('p, 'row list, 'w) cached_run" where
  "cached_query = cached_call ''Query execution failed: ''"

definition cached_query_opt :: "('p, 'row option, 'w) cached_run" where
  "cached_query_opt = cached_call ''Query execution failed: ''"

definition cached_query_one :: "('p, 'row, 'w) cached_run" where
  "cached_query_one = cached_call ''Query execution failed: ''"

definition cached_execute :: "('p, u64, 'w) cached_run" where
  "cached_execute = cached_call ''Statement execution failed: ''"

section \<open>Correctness\<close>

text \<open>What every sequence of operations, by any number of callers, leaves true.\<close>

definition cache_ok :: "(string \<Rightarrow> 'p \<Rightarrow> bool) \<Rightarrow> 'p statement_cache \<Rightarrow> bool" where
  "cache_ok prepared s \<longleftrightarrow> hm_ok (sc_cache s) \<and>
     (\<forall>query stmt. hm_get (sc_cache s) query = Some stmt \<longrightarrow> prepared query stmt) \<and>
     length (sc_cache s) \<le> max 1 (sx_max_size (sc_config s))"

lemma length_hm_remove:
  assumes "hm_ok m" and "k \<in> set (hm_keys m)"
  shows "Suc (length (hm_remove k m)) = length m"
proof -
  have "length m = card (set (hm_keys m))" "length (hm_remove k m) = card (set (hm_keys (hm_remove k m)))"
    using assms(1) by (metis distinct_card hm_ok_def length_map, metis distinct_card hm_ok_def hm_ok_remove length_map)
  moreover have "set (hm_keys (hm_remove k m)) = set (hm_keys m) - {k}"
    by (rule hm_keys_remove)
  ultimately show ?thesis using assms(2) by (metis List.finite_set card_Suc_Diff1)
qed

lemma cache_ok_insert:
  assumes "cache_ok prepared s" and "prepared query stmt"
    and "\<And>m. m \<noteq> [] \<Longrightarrow> \<exists>k \<in> set (hm_keys m). first_key m = Some k"
  shows "cache_ok prepared (cache_insert first_key query stmt s)"
proof -
  let ?n = "sx_max_size (sc_config s)"
  define s1 where "s1 = (if length (sc_cache s) \<ge> ?n
      then (case first_key (sc_cache s) of
              Some key \<Rightarrow> s\<lparr>sc_cache := hm_remove key (sc_cache s), sc_evictions := sc_evictions s + 1\<rparr>
            | None \<Rightarrow> s) else s)"
  have "cache_ok prepared s1 \<and> sc_config s1 = sc_config s \<and> (length (sc_cache s1) < ?n \<or> sc_cache s1 = [])"
  proof (cases "length (sc_cache s) \<ge> ?n \<and> sc_cache s \<noteq> []")
    case True
    with assms(3) obtain k where k: "k \<in> set (hm_keys (sc_cache s))" "first_key (sc_cache s) = Some k" by blast
    let ?m = "hm_remove k (sc_cache s)"
    have "Suc (length ?m) = length (sc_cache s)" using assms(1) k(1) by (simp add: cache_ok_def length_hm_remove)
    moreover have "length (sc_cache s) \<le> max 1 ?n" using assms(1) by (simp add: cache_ok_def)
    ultimately have "length ?m < ?n \<or> length ?m = 0" "length ?m \<le> max 1 ?n" by linarith+
    then have "length ?m < ?n \<or> ?m = []" "length ?m \<le> max 1 ?n" by (simp_all only: length_0_conv)
    with True k(2) assms(1) show ?thesis
      by (auto simp: s1_def cache_ok_def hm_get_remove split: if_splits)
  next
    case False
    then have "s1 = s \<or> sc_cache s = []" by (auto simp: s1_def)
    with False assms(1) show ?thesis
      by (auto simp: s1_def cache_ok_def split: option.splits if_splits)
  qed
  then have "cache_ok prepared (s1\<lparr>sc_cache := hm_insert query stmt (sc_cache s1)\<rparr>)"
    using assms(2) by (auto simp: cache_ok_def hm_get_insert hm_length_insert)
  moreover have "cache_insert first_key query stmt s = s1\<lparr>sc_cache := hm_insert query stmt (sc_cache s1)\<rparr>"
    by (simp add: cache_insert_def s1_def Let_def)
  ultimately show ?thesis by simp
qed

lemma cache_ok_lookup:
  "cache_ok prepared s \<Longrightarrow> cache_lookup query s = (r, s') \<Longrightarrow>
     cache_ok prepared s' \<and> (\<forall>stmt. r = Some stmt \<longrightarrow> prepared query stmt)"
  by (auto simp: cache_ok_def cache_lookup_def split: option.splits)

lemma cache_ok_others:
  "cache_ok prepared (cache_new config)"
  "cache_ok prepared s \<Longrightarrow> cache_ok prepared (cache_clear s)"
  "cache_ok prepared s \<Longrightarrow> cache_ok prepared (cache_invalidate query s)"
proof -
  show "cache_ok prepared (cache_new config)" by (simp add: cache_ok_def cache_new_def)
  show "cache_ok prepared s \<Longrightarrow> cache_ok prepared (cache_clear s)" by (simp add: cache_ok_def cache_clear_def)
  have "length (hm_remove query (sc_cache s)) \<le> length (sc_cache s)" by (simp add: AList.delete_eq)
  then show "cache_ok prepared s \<Longrightarrow> cache_ok prepared (cache_invalidate query s)"
    by (auto simp: cache_ok_def cache_invalidate_def hm_get_remove split: if_splits)
qed

text \<open>
  The cache answers with statements of the query asked for and stays in its bounds: whatever
  entry is evicted, a successful answer is a statement the server prepared for exactly this query,
  the cache holds at most the configured number of statements (one if that is zero), and with the
  cache on every call counts once, as a hit or as a miss.
\<close>

theorem cache_answers_with_prepared_statements:
  assumes "cache_ok prepared s" and "\<And>w stmt. fst (prepare query w) = Inr stmt \<Longrightarrow> prepared query stmt"
    and "\<And>m. m \<noteq> [] \<Longrightarrow> \<exists>k \<in> set (hm_keys m). first_key m = Some k"
    and "get_or_prepare prepare first_key query s w = (r, s', w')"
  shows "cache_ok prepared s' \<and> (\<forall>stmt. r = Inr stmt \<longrightarrow> prepared query stmt) \<and>
    length (sc_cache s') \<le> max 1 (sx_max_size (sc_config s')) \<and>
    sc_hits s' + sc_misses s' = sc_hits s + sc_misses s + (if sx_enabled (sc_config s) then 1 else 0)"
proof -
  obtain p w1 where prep: "prepare query w = (p, w1)" by fastforce
  obtain l s1 where look: "cache_lookup query s = (l, s1)" by fastforce
  note s1 = cache_ok_lookup [OF assms(1) look]
  have counts: "sc_hits s1 + sc_misses s1 = sc_hits s + sc_misses s + 1"
    using look by (auto simp: cache_lookup_def algebra_simps split: option.splits)
  have ins: "sc_hits (cache_insert first_key query stmt s1) = sc_hits s1"
      "sc_misses (cache_insert first_key query stmt s1) = sc_misses s1" for stmt
    by (auto simp: cache_insert_def Let_def split: option.splits)
  have "cache_ok prepared s' \<and> (\<forall>stmt. r = Inr stmt \<longrightarrow> prepared query stmt) \<and>
      sc_hits s' + sc_misses s' = sc_hits s + sc_misses s + (if sx_enabled (sc_config s) then 1 else 0)"
  proof (cases "sx_enabled (sc_config s)")
    case False
    show ?thesis
    proof (cases p)
      case (Inl e)
      with assms(4) prep False have "s' = s" "r = Inl (Source (''Failed to prepare statement: '' @ e))"
        by (simp_all add: get_or_prepare_def Let_def)
      with assms(1) False show ?thesis by simp
    next
      case (Inr stmt)
      with assms(4) prep False have "s' = s" "r = Inr stmt"
        by (simp_all add: get_or_prepare_def Let_def)
      moreover have "prepared query stmt" using assms(2) [of w stmt] prep Inr by simp
      ultimately show ?thesis using assms(1) False by simp
    qed
  next
    case True
    show ?thesis
    proof (cases l)
      case (Some stmt)
      with assms(4) look True have "s' = s1" "r = Inr stmt" by (simp_all add: get_or_prepare_def Let_def)
      with s1 counts True Some show ?thesis by simp
    next
      case None
      show ?thesis
      proof (cases p)
        case (Inl e)
        with assms(4) prep look None True have "s' = s1" "r = Inl (Source (''Failed to prepare statement: '' @ e))"
          by (simp_all add: get_or_prepare_def Let_def)
        with s1 counts True show ?thesis by simp
      next
        case (Inr stmt)
        with assms(4) prep look None True have "s' = cache_insert first_key query stmt s1" "r = Inr stmt"
          by (simp_all add: get_or_prepare_def Let_def)
        moreover have "prepared query stmt" using assms(2) [of w stmt] prep Inr by simp
        ultimately show ?thesis
          using cache_ok_insert [OF conjunct1 [OF s1] _ assms(3)] ins counts True by simp
      qed
    qed
  qed
  then show ?thesis by (simp add: cache_ok_def)
qed

definition demo_prepare :: "string \<Rightarrow> nat \<Rightarrow> (string + string) \<times> nat" where
  "demo_prepare query n = (Inr query, Suc n)"

definition demo_first :: "(string, string) hmap \<Rightarrow> string option" where
  "demo_first m = (case m of [] \<Rightarrow> None | (k, v) # _ \<Rightarrow> Some k)"

theorem cache_answers_with_prepared_statements_witness:
  "\<exists>r s w. get_or_prepare demo_prepare demo_first ''SELECT 1'' (cache_new cache_config_default) (0 :: nat) = (r, s, w) \<and>
    r = Inr ''SELECT 1'' \<and> length (sc_cache s) \<le> 100 \<and> sc_hits s + sc_misses s = 1"
proof -
  obtain r s w where run: "get_or_prepare demo_prepare demo_first ''SELECT 1'' (cache_new cache_config_default) (0 :: nat) = (r, s, w)"
    by (cases "get_or_prepare demo_prepare demo_first ''SELECT 1'' (cache_new cache_config_default) (0 :: nat)")
  have "r = Inr ''SELECT 1''" "sx_max_size (sc_config s) = 100"
    using run by (auto simp: get_or_prepare_def demo_prepare_def cache_new_def cache_config_default_def cache_lookup_def
        cache_insert_def Let_def)
  moreover have "length (sc_cache s) \<le> max 1 (sx_max_size (sc_config s)) \<and>
      sc_hits s + sc_misses s = sc_hits (cache_new cache_config_default :: string statement_cache) +
        sc_misses (cache_new cache_config_default :: string statement_cache) +
        (if sx_enabled (sc_config (cache_new cache_config_default :: string statement_cache)) then 1 else 0)"
    using cache_answers_with_prepared_statements [OF cache_ok_others(1) _ _ run, of "\<lambda>q p. p = q"]
    by (auto simp: demo_prepare_def demo_first_def split: list.splits)
  ultimately show ?thesis using run by (auto simp: cache_new_def cache_config_default_def)
qed

text \<open>
  The exported counters count twice: they are incremented by totals, so that two exports with no
  call in between double the number of hits.
\<close>

lemma export_twice_doubles:
  assumes "unat (sc_hits s) \<le> 2 ^ 51" and "xm_hits m = Fin 0"
  shows "xm_hits (export_metrics (cache_get_stats s) (export_metrics (cache_get_stats s) m)) =
    Fin (2 * rat_of_nat (unat (sc_hits s)))"
proof -
  let ?n = "unat (sc_hits s)"
  have n: "f64_of_nat ?n = Fin (of_nat ?n)" using assms(1) by (intro f64_of_nat_exact) simp
  have n2: "f64_of_nat (2 * ?n) = Fin (2 * rat_of_nat ?n)"
    using f64_of_nat_exact [of "2 * ?n"] assms(1) by simp
  from n have "f64_add (Fin 0) (f64_of_nat ?n) = f64_of_nat ?n"
      "f64_add (f64_of_nat ?n) (f64_of_nat ?n) = f64_of_nat (2 * ?n)"
    using n2 by (simp_all add: f64_add_def f64_of_nat_def)
  with n2 assms show ?thesis by (simp add: export_metrics_def cache_get_stats_def)
qed

end
