(* ===== verification/Recovery.thy ===== *)
theory Recovery
  imports Models F64
begin

text \<open>
  Recovery: the dead letters of \<open>src/recovery/dead_letter.rs\<close> and the error handler of
  \<open>src/recovery/error_handler.rs\<close>. Identifiers and the clock are arguments.
\<close>

section \<open>Dead letters\<close>

record dead_entry =
  dz_id :: string
  dz_task_id :: string
  dz_event :: stream_event
  dz_error :: string
  dz_error_count :: u32
  dz_first_error_time :: time
  dz_last_error_time :: time
  dz_metadata :: json

definition dead_entry_new :: "string \<Rightarrow> time \<Rightarrow> string \<Rightarrow> stream_event \<Rightarrow> string \<Rightarrow> dead_entry" where
  "dead_entry_new uuid now task_id event err =
     \<lparr>dz_id = uuid, dz_task_id = task_id, dz_event = event, dz_error = err, dz_error_count = 1,
      dz_first_error_time = now, dz_last_error_time = now, dz_metadata = Null\<rparr>"

definition increment_error :: "time \<Rightarrow> string \<Rightarrow> dead_entry \<Rightarrow> dead_entry" where
  "increment_error now err e =
     e\<lparr>dz_error := err, dz_error_count := dz_error_count e + 1, dz_last_error_time := now\<rparr>"

text \<open>The storage trait, a record of operations over a state \<open>'s\<close>.\<close>

record 's dead_ops =
  dg_store :: "dead_entry \<Rightarrow> 's \<Rightarrow> (unit result \<times> 's) option"
  dg_get_by_task :: "string \<Rightarrow> nat \<Rightarrow> 's \<Rightarrow> dead_entry list result"
  dg_delete :: "string \<Rightarrow> 's \<Rightarrow> unit result \<times> 's"
  dg_count_by_task :: "string \<Rightarrow> 's \<Rightarrow> nat result"
  dg_list_tasks :: "'s \<Rightarrow> string list result"

text \<open>The storage in memory. Evicting may never end, which is \<open>None\<close>.\<close>

type_synonym dead_memory = "dead_entry list"

partial_function (option) evict :: "nat \<Rightarrow> dead_memory \<Rightarrow> dead_memory option" where
  "evict max_entries entries =
     (if length entries \<ge> max_entries then evict max_entries (tl entries) else Some entries)"

definition dmem_store :: "nat \<Rightarrow> dead_entry \<Rightarrow> dead_memory \<Rightarrow> (unit result \<times> dead_memory) option" where
  "dmem_store max_entries entry entries =
     map_option (\<lambda>kept. (Inr (), kept @ [entry])) (evict max_entries entries)"

definition dmem_get_by_task :: "string \<Rightarrow> nat \<Rightarrow> dead_memory \<Rightarrow> dead_entry list result" where
  "dmem_get_by_task task_id limit entries = Inr (take limit (filter (\<lambda>e. dz_task_id e = task_id) entries))"

definition dmem_get :: "string \<Rightarrow> dead_memory \<Rightarrow> dead_entry option result" where
  "dmem_get i entries = Inr (List.find (\<lambda>e. dz_id e = i) entries)"

definition dmem_delete :: "string \<Rightarrow> dead_memory \<Rightarrow> unit result \<times> dead_memory" where
  "dmem_delete i entries = (Inr (), filter (\<lambda>e. dz_id e \<noteq> i) entries)"

definition dmem_count_by_task :: "string \<Rightarrow> dead_memory \<Rightarrow> nat result" where
  "dmem_count_by_task task_id entries = Inr (length (filter (\<lambda>e. dz_task_id e = task_id) entries))"

text \<open>Sorted, equal neighbours merged; any linear order of strings does.\<close>

definition dmem_list_tasks :: "(string \<Rightarrow> nat) \<Rightarrow> dead_memory \<Rightarrow> string list result" where
  "dmem_list_tasks rank entries = Inr (remdups_adj (sort_key rank (map dz_task_id entries)))"

definition dead_memory_ops :: "nat \<Rightarrow> (string \<Rightarrow> nat) \<Rightarrow> dead_memory dead_ops" where
  "dead_memory_ops max_entries rank =
     \<lparr>dg_store = dmem_store max_entries, dg_get_by_task = dmem_get_by_task, dg_delete = dmem_delete,
      dg_count_by_task = dmem_count_by_task, dg_list_tasks = dmem_list_tasks rank\<rparr>"

section \<open>The queue\<close>

text \<open>Statistics: every task with its count.\<close>

fun count_tasks :: "'s dead_ops \<Rightarrow> string list \<Rightarrow> 's \<Rightarrow> (string \<times> nat) list result" where
  "count_tasks ops [] s = Inr []"
| "count_tasks ops (t # ts) s =
     (case dg_count_by_task ops t s of
        Inl e \<Rightarrow> Inl e
      | Inr n \<Rightarrow> map_sum id ((#) (t, n)) (count_tasks ops ts s))"

definition dead_get_stats :: "'s dead_ops \<Rightarrow> 's \<Rightarrow> (string \<times> nat) list result" where
  "dead_get_stats ops s = (case dg_list_tasks ops s of Inl e \<Rightarrow> Inl e | Inr ts \<Rightarrow> count_tasks ops ts s)"

fun delete_each :: "'s dead_ops \<Rightarrow> dead_entry list \<Rightarrow> 's \<Rightarrow> unit result \<times> 's" where
  "delete_each ops [] s = (Inr (), s)"
| "delete_each ops (e # es) s =
     (case dg_delete ops (dz_id e) s of (Inl err, s1) \<Rightarrow> (Inl err, s1) | (Inr _, s1) \<Rightarrow> delete_each ops es s1)"

definition reprocess_task :: "'s dead_ops \<Rightarrow> string \<Rightarrow> nat \<Rightarrow> 's \<Rightarrow> dead_entry list result \<times> 's" where
  "reprocess_task ops task_id limit s =
     (case dg_get_by_task ops task_id limit s of
        Inl e \<Rightarrow> (Inl e, s)
      | Inr entries \<Rightarrow>
          (case delete_each ops entries s of (Inl e, s1) \<Rightarrow> (Inl e, s1) | (Inr _, s1) \<Rightarrow> (Inr entries, s1)))"

section \<open>The error handler\<close>

datatype error_strategy = RetryIt | DeadLetterIt | SkipIt | FailTask | PauseTask

datatype error_kind = KNetwork | KDataValidation | KNotFound | KPermission | KRateLimit | KTimeout | KUnknown

record error_context =
  ex_error :: string
  ex_error_type :: error_kind
  ex_event :: "stream_event option"
  ex_task_id :: string
  ex_retry_count :: u32
  ex_first_error_time :: time
  ex_last_error_time :: time

record error_stats =
  et_total_errors :: u64
  et_consecutive_errors :: u32
  et_error_types :: "(error_kind, u64) hmap"
  et_last_success :: "time option"
  et_last_error :: "time option"

definition error_stats_new :: error_stats where
  "error_stats_new = \<lparr>et_total_errors = 0, et_consecutive_errors = 0, et_error_types = [],
     et_last_success = None, et_last_error = None\<rparr>"

definition record_error :: "time \<Rightarrow> error_kind \<Rightarrow> error_stats \<Rightarrow> error_stats" where
  "record_error now k s =
     s\<lparr>et_total_errors := et_total_errors s + 1, et_consecutive_errors := et_consecutive_errors s + 1,
       et_error_types := hm_insert k
         ((case hm_get (et_error_types s) k of Some n \<Rightarrow> n | None \<Rightarrow> 0) + 1) (et_error_types s),
       et_last_error := Some now\<rparr>"

definition record_success :: "time \<Rightarrow> error_stats \<Rightarrow> error_stats" where
  "record_success now s = s\<lparr>et_consecutive_errors := 0, et_last_success := Some now\<rparr>"

record error_handler =
  eh_task_stats :: "(string, error_stats) hmap"
  eh_max_consecutive_errors :: u32
  eh_max_retry_count :: u32
  eh_pause_on_permission_errors :: bool

definition error_handler_new :: error_handler where
  "error_handler_new = \<lparr>eh_task_stats = [], eh_max_consecutive_errors = 10, eh_max_retry_count = 3,
     eh_pause_on_permission_errors = True\<rparr>"

abbreviation minutes :: "int \<Rightarrow> time" where
  "minutes n \<equiv> n * 60 * 1000000000"

definition strategy_for :: "error_handler \<Rightarrow> error_context \<Rightarrow> error_strategy" where
  "strategy_for h c =
     (case ex_error_type c of
        KPermission \<Rightarrow> if eh_pause_on_permission_errors h then PauseTask else DeadLetterIt
      | KDataValidation \<Rightarrow> DeadLetterIt
      | KNotFound \<Rightarrow> if ex_retry_count c < 2 then RetryIt else SkipIt
      | KRateLimit \<Rightarrow> RetryIt
      | KUnknown \<Rightarrow> if ex_retry_count c < eh_max_retry_count h then RetryIt else DeadLetterIt
      | _ \<Rightarrow>
          if ex_retry_count c < eh_max_retry_count h then RetryIt
          else if ex_last_error_time c - ex_first_error_time c > minutes 30 then PauseTask
          else DeadLetterIt)"

definition determine_strategy :: "time \<Rightarrow> error_context \<Rightarrow> error_handler \<Rightarrow> error_strategy \<times> error_handler" where
  "determine_strategy now c h =
     (let stats = record_error now (ex_error_type c)
            (case hm_get (eh_task_stats h) (ex_task_id c) of Some s \<Rightarrow> s | None \<Rightarrow> error_stats_new);
          h1 = h\<lparr>eh_task_stats := hm_insert (ex_task_id c) stats (eh_task_stats h)\<rparr>
      in (if et_consecutive_errors stats \<ge> eh_max_consecutive_errors h then PauseTask else strategy_for h c, h1))"

definition handler_success :: "time \<Rightarrow> string \<Rightarrow> error_handler \<Rightarrow> error_handler" where
  "handler_success now task_id h =
     (case hm_get (eh_task_stats h) task_id of
        None \<Rightarrow> h
      | Some s \<Rightarrow> h\<lparr>eh_task_stats := hm_insert task_id (record_success now s) (eh_task_stats h)\<rparr>)"

definition get_error_rate :: "string \<Rightarrow> error_handler \<Rightarrow> f64" where
  "get_error_rate task_id h =
     (case hm_get (eh_task_stats h) task_id of
        None \<Rightarrow> Fin 0
      | Some s \<Rightarrow>
          if et_total_errors s = 0 then Fin 0
          else (let recent_errors = f64_of_nat (unat (et_consecutive_errors s))
                in f64_div recent_errors (f64_add recent_errors (Fin 1))))"

definition should_auto_resume :: "time \<Rightarrow> string \<Rightarrow> error_handler \<Rightarrow> bool" where
  "should_auto_resume now task_id h =
     (case hm_get (eh_task_stats h) task_id of
        None \<Rightarrow> False
      | Some s \<Rightarrow> (case et_last_error s of None \<Rightarrow> False | Some t \<Rightarrow> now - t > minutes 5))"

definition clear_stats :: "string \<Rightarrow> error_handler \<Rightarrow> error_handler" where
  "clear_stats task_id h = h\<lparr>eh_task_stats := hm_remove task_id (eh_task_stats h)\<rparr>"

fun classify_error :: "error \<Rightarrow> error_kind" where
  "classify_error (Config s) = KPermission"
| "classify_error (Configuration s) = KPermission"
| "classify_error (Validation s) = KDataValidation"
| "classify_error (Io k s) = KNetwork"
| "classify_error _ = KUnknown"

section \<open>Storing in memory\<close>

lemma evict_some:
  assumes "0 < max_entries"
  shows "evict max_entries entries = Some (drop (Suc (length entries) - max_entries) entries)"
proof (induction "length entries" arbitrary: entries)
  case 0
  then show ?case using assms by (simp add: evict.simps)
next
  case (Suc n)
  then obtain e es where es: "entries = e # es" "length es = n" by (cases entries) auto
  show ?case
  proof (cases "length entries \<ge> max_entries")
    case True
    with Suc.hyps(1) [of es] es have "evict max_entries entries = Some (drop (Suc n - max_entries) es)"
      by (subst evict.simps) simp
    with True es show ?thesis by (simp add: Suc_diff_le)
  qed (subst evict.simps, simp)
qed

lemma evict_zero: "evict 0 entries = None"
proof -
  have "n \<noteq> 0" if "evict n es = Some kept" for n es kept
    using that by (rule evict.raw_induct [rotated]) (auto split: if_splits)
  then show ?thesis by (cases "evict 0 entries") auto
qed

text \<open>
  Storing a dead letter in memory keeps the newest entries and never more than the maximum;
  with a maximum of zero it never returns.
\<close>

theorem dead_letter_store_outcome:
  "dmem_store max_entries entry entries =
     (if max_entries = 0 then None
      else Some (Inr (), drop (Suc (length entries) - max_entries) entries @ [entry]))"
  by (simp add: dmem_store_def evict_some evict_zero)

text \<open>
  Reprocessing hands out the oldest entries of the task, up to the limit, and what stays is
  everything else, as long as identifiers are distinct.
\<close>

theorem dead_letter_reprocess:
  assumes "distinct (map dz_id entries)"
  shows "\<exists>out rest. reprocess_task (dead_memory_ops n rank) task_id limit entries = (Inr out, rest) \<and>
    out = take limit (filter (\<lambda>e. dz_task_id e = task_id) entries) \<and> rest = filter (\<lambda>e. e \<notin> set out) entries"
proof -
  let ?ops = "dead_memory_ops n rank" and ?out = "take limit (filter (\<lambda>e. dz_task_id e = task_id) entries)"
  have del: "delete_each ?ops es s = (Inr (), filter (\<lambda>e. dz_id e \<notin> dz_id ` set es) s)" for es s
    by (induction es arbitrary: s) (auto simp: dead_memory_ops_def dmem_delete_def intro!: filter_cong)
  have "dz_id e \<in> dz_id ` set ?out \<longleftrightarrow> e \<in> set ?out" if "e \<in> set entries" for e
  proof -
    have "set ?out \<subseteq> set entries" by (meson filter_is_subset order_trans set_take_subset)
    with that assms show ?thesis by (auto simp: distinct_map inj_on_def)
  qed
  then have "filter (\<lambda>e. dz_id e \<notin> dz_id ` set ?out) entries = filter (\<lambda>e. e \<notin> set ?out) entries"
    by (intro filter_cong) auto
  with del show ?thesis
    by (simp add: reprocess_task_def) (simp add: dead_memory_ops_def dmem_get_by_task_def)
qed

definition demo_dead :: "string \<Rightarrow> dead_entry" where
  "demo_dead i = dead_entry_new i 0 ''users'' EvHeartbeat ''down''"

theorem dead_letter_reprocess_witness:
  "\<exists>out rest. reprocess_task (dead_memory_ops 9 length) ''users'' 1 [demo_dead ''a'', demo_dead ''b''] = (Inr out, rest) \<and>
    out = [demo_dead ''a''] \<and> rest = [demo_dead ''b'']"
proof -
  have "distinct (map dz_id [demo_dead ''a'', demo_dead ''b''])" by (simp add: demo_dead_def dead_entry_new_def)
  from dead_letter_reprocess [OF this, of 9 length "''users''" 1] show ?thesis
    by (auto simp: demo_dead_def dead_entry_new_def)
qed

section \<open>Strategies\<close>

fun fail_times :: "(nat \<Rightarrow> time) \<Rightarrow> nat \<Rightarrow> error_context \<Rightarrow> error_handler \<Rightarrow> error_strategy \<times> error_handler" where
  "fail_times clock 0 c h = determine_strategy (clock 0) c h"
| "fail_times clock (Suc n) c h = determine_strategy (clock (Suc n)) c (snd (fail_times clock n c h))"

lemma fail_times_stats:
  assumes "int n < 2 ^ 32 - 1"
  shows "\<exists>s. hm_get (eh_task_stats (snd (fail_times clock n c error_handler_new))) (ex_task_id c) = Some s \<and>
    unat (et_consecutive_errors s) = Suc n \<and>
    eh_max_consecutive_errors (snd (fail_times clock n c error_handler_new)) = 10"
  using assms
proof (induction n)
  case 0
  show ?case
    by (simp add: determine_strategy_def error_handler_new_def record_error_def error_stats_new_def Let_def hm_get_insert)
next
  case (Suc n)
  then obtain s where s: "hm_get (eh_task_stats (snd (fail_times clock n c error_handler_new))) (ex_task_id c) = Some s"
      "unat (et_consecutive_errors s) = Suc n"
      "eh_max_consecutive_errors (snd (fail_times clock n c error_handler_new)) = 10" by auto
  have "unat (et_consecutive_errors s + 1) = Suc (Suc n)"
    using s(2) Suc.prems by (simp add: unat_plus_if_size word_size)
  with s show ?case by (simp add: determine_strategy_def record_error_def Let_def hm_get_insert)
qed

text \<open>
  Errors that the program classifies are never skipped, and a run of errors pauses the task:
  from a new handler, whatever the error is, the strategy is never to skip the event, although
  missing indexes are meant to be skipped after two retries; the tenth error in a row of a task,
  and every one after it, pauses the task.
\<close>

theorem persistent_errors_pause:
  assumes "9 \<le> n" and "int n < 2 ^ 32 - 1"
  shows "fst (fail_times clock n c error_handler_new) = PauseTask"
proof -
  from fail_times_stats [OF assms(2), of clock c] obtain s where
    s: "hm_get (eh_task_stats (snd (fail_times clock n c error_handler_new))) (ex_task_id c) = Some s"
      "unat (et_consecutive_errors s) = Suc n" by blast
  obtain m where n: "n = Suc m" using assms(1) by (cases n) auto
  have "int m < 2 ^ 32 - 1" using assms(2) n by simp
  from fail_times_stats [OF this, of clock c] have max: "eh_max_consecutive_errors (snd (fail_times clock m c error_handler_new)) = 10"
    by blast
  have "(10 :: u32) \<le> et_consecutive_errors s" using s(2) assms(1) by (simp add: word_le_nat_alt)
  with s(1) max n show ?thesis
    by (auto simp: determine_strategy_def Let_def hm_get_insert)
qed

theorem persistent_errors_pause_witness:
  "fst (fail_times (\<lambda>_. 0) 9 \<lparr>ex_error = ''x'', ex_error_type = KRateLimit, ex_event = None, ex_task_id = ''users'',
     ex_retry_count = 0, ex_first_error_time = 0, ex_last_error_time = 0\<rparr> error_handler_new) = PauseTask"
  by (rule persistent_errors_pause) simp_all

lemma classified_errors_never_skip:
  "ex_error_type c = classify_error e \<Longrightarrow> fst (determine_strategy now c h) \<noteq> SkipIt"
  by (cases e) (auto simp: determine_strategy_def strategy_for_def Let_def)

end
