(* ===== verification/TaskManager.thy ===== *)
theory TaskManager
  imports ConfigCheck
begin

text \<open>
  The manager of sync tasks, \<open>src/sync/task_manager.rs\<close>: a map from tables to statuses that a
  command processor changes. Every command carries the time it is handled at; starting the pipeline
  orchestrator is the parameter \<open>launch\<close>.
\<close>

section \<open>Statuses and commands\<close>

datatype task_state = TaskIdle | TaskRunning | TaskFailed | TaskPaused | TaskCompleted

record task_status =
  tv_task_id :: string
  tv_table :: string
  tv_state :: task_state
  tv_last_position :: "position option"
  tv_processed_count :: u64
  tv_error_count :: u64
  tv_last_error :: "string option"
  tv_started_at :: time
  tv_last_updated :: time

definition fresh_status :: "time \<Rightarrow> string \<Rightarrow> task_status" where
  "fresh_status now table =
     \<lparr>tv_task_id = table, tv_table = table, tv_state = TaskIdle, tv_last_position = None,
      tv_processed_count = 0, tv_error_count = 0, tv_last_error = None, tv_started_at = now,
      tv_last_updated = now\<rparr>"

datatype task_command =
    StartTask string
  | StopTask string
  | PauseTable string
  | ResumeTable string
  | GetStatus string
  | GetAllStatuses
  | CreateTask sync_task_config
  | DeleteTask string
  | ShutdownTasks

datatype task_response =
    NoReply
  | Status "task_status option"
  | Statuses "task_status list"
  | Outcome "unit result"
  | Dropped

datatype processor = NotLaunched | Processing | Finished

text \<open>The state behind the locks, with the commands that are sent and not yet handled.\<close>

record task_manager =
  tk_tasks :: "sync_task_config list"
  tk_statuses :: "(string, task_status) hmap"
  tk_processor :: processor
  tk_queue :: "task_command list"

definition task_manager_new :: "config \<Rightarrow> task_manager" where
  "task_manager_new config =
     \<lparr>tk_tasks = cf_sync_tasks config, tk_statuses = [], tk_processor = NotLaunched, tk_queue = []\<rparr>"

text \<open>\<open>get_mut\<close> on the map: the status of the task is changed in place, if there is one.\<close>

definition with_status :: "string \<Rightarrow> (task_status \<Rightarrow> task_status) \<Rightarrow> task_manager \<Rightarrow> task_manager" where
  "with_status task_id f m =
     (case hm_get (tk_statuses m) task_id of
        None \<Rightarrow> m
      | Some st \<Rightarrow> m\<lparr>tk_statuses := hm_insert task_id (f st) (tk_statuses m)\<rparr>)"

definition set_state :: "time \<Rightarrow> task_state \<Rightarrow> task_status \<Rightarrow> task_status" where
  "set_state now s st = st\<lparr>tv_state := s, tv_last_updated := now\<rparr>"

definition start_task :: "time \<Rightarrow> string \<Rightarrow> task_manager \<Rightarrow> task_manager" where
  "start_task now task_id =
     with_status task_id (\<lambda>st. if tv_state st = TaskRunning then st else set_state now TaskRunning st)"

definition stop_task :: "time \<Rightarrow> string \<Rightarrow> task_manager \<Rightarrow> task_manager" where
  "stop_task now task_id = with_status task_id (set_state now TaskIdle)"

definition pause_task :: "time \<Rightarrow> string \<Rightarrow> task_manager \<Rightarrow> task_manager" where
  "pause_task now task_id =
     with_status task_id (\<lambda>st. if tv_state st = TaskRunning then set_state now TaskPaused st else st)"

definition resume_task :: "time \<Rightarrow> string \<Rightarrow> task_manager \<Rightarrow> task_manager" where
  "resume_task now task_id =
     with_status task_id (\<lambda>st. if tv_state st = TaskPaused then set_state now TaskRunning st else st)"

definition create_task :: "time \<Rightarrow> sync_task_config \<Rightarrow> task_manager \<Rightarrow> unit result \<times> task_manager" where
  "create_task now task m =
     (if \<exists>t \<in> set (tk_tasks m). st_table t = st_table task
      then (Inl (Validation (''Task for table '' @ quoted (st_table task) @ '' already exists'')), m)
      else (Inr (),
            m\<lparr>tk_tasks := tk_tasks m @ [task],
              tk_statuses := hm_insert (st_table task) (fresh_status now (st_table task)) (tk_statuses m)\<rparr>))"

definition delete_task :: "time \<Rightarrow> string \<Rightarrow> task_manager \<Rightarrow> unit result \<times> task_manager" where
  "delete_task now task_id m =
     (let m1 = stop_task now task_id m
      in (Inr (), m1\<lparr>tk_tasks := filter (\<lambda>t. st_table t \<noteq> task_id) (tk_tasks m1),
                      tk_statuses := hm_remove task_id (tk_statuses m1)\<rparr>))"

section \<open>The command processor\<close>

fun handle_command :: "time \<Rightarrow> task_command \<Rightarrow> task_manager \<Rightarrow> task_response \<times> task_manager" where
  "handle_command now (StartTask task_id) m = (NoReply, start_task now task_id m)"
| "handle_command now (StopTask task_id) m = (NoReply, stop_task now task_id m)"
| "handle_command now (PauseTable task_id) m = (NoReply, pause_task now task_id m)"
| "handle_command now (ResumeTable task_id) m = (NoReply, resume_task now task_id m)"
| "handle_command now (GetStatus task_id) m = (Status (hm_get (tk_statuses m) task_id), m)"
| "handle_command now GetAllStatuses m = (Statuses (hm_values (tk_statuses m)), m)"
| "handle_command now (CreateTask task) m = (case create_task now task m of (r, m1) \<Rightarrow> (Outcome r, m1))"
| "handle_command now (DeleteTask task_id) m = (case delete_task now task_id m of (r, m1) \<Rightarrow> (Outcome r, m1))"
| "handle_command now ShutdownTasks m = (NoReply, m\<lparr>tk_processor := Finished\<rparr>)"

text \<open>The commands behind a shutdown are dropped with their reply channels.\<close>

fun process_commands :: "time \<Rightarrow> task_command list \<Rightarrow> task_manager \<Rightarrow> task_response list \<times> task_manager" where
  "process_commands now [] m = ([], m)"
| "process_commands now (c # cs) m =
     (if tk_processor m \<noteq> Processing then (Dropped # map (\<lambda>_. Dropped) cs, m)
      else (case handle_command now c m of
              (r, m1) \<Rightarrow> (case process_commands now cs m1 of (rs, m2) \<Rightarrow> (r # rs, m2))))"

text \<open>
  Sending a command and waiting for its reply: everything sent before is handled first. \<open>None\<close>
  is the refused send on a closed or missing channel.
\<close>

definition ask_manager :: "time \<Rightarrow> task_command \<Rightarrow> task_manager \<Rightarrow> task_response option \<times> task_manager" where
  "ask_manager now c m =
     (if tk_processor m \<noteq> Processing then (None, m)
      else (case process_commands now (tk_queue m @ [c]) (m\<lparr>tk_queue := []\<rparr>) of
              (rs, m1) \<Rightarrow> (Some (last rs), m1)))"

definition send_task_command :: "task_command \<Rightarrow> task_manager \<Rightarrow> task_manager" where
  "send_task_command c m = (if tk_processor m = Processing then m\<lparr>tk_queue := tk_queue m @ [c]\<rparr> else m)"

section \<open>Operations\<close>

definition insert_fresh :: "time \<Rightarrow> sync_task_config \<Rightarrow> (string, task_status) hmap \<Rightarrow> (string, task_status) hmap" where
  "insert_fresh now t = hm_insert (st_table t) (fresh_status now (st_table t))"

definition manager_launch :: "(unit \<Rightarrow> unit result) \<Rightarrow> time \<Rightarrow> task_manager \<Rightarrow> unit result \<times> task_manager" where
  "manager_launch launch now m =
     (let m1 = m\<lparr>tk_statuses := fold (insert_fresh now) (tk_tasks m) (tk_statuses m),
                 tk_processor := Processing\<rparr>
      in (case launch () of
            Inl e \<Rightarrow> (Inl e, m1)
          | Inr _ \<Rightarrow>
              (Inr (), fold (\<lambda>t. if st_auto_start t = Some False then (\<lambda>m. m)
                                 else send_task_command (StartTask (st_table t))) (tk_tasks m1) m1)))"

definition get_task_status :: "time \<Rightarrow> string \<Rightarrow> task_manager \<Rightarrow> task_status option \<times> task_manager" where
  "get_task_status now task_id m =
     (case ask_manager now (GetStatus task_id) m of (Some (Status st), m1) \<Rightarrow> (st, m1) | (_, m1) \<Rightarrow> (None, m1))"

definition get_all_task_statuses :: "time \<Rightarrow> task_manager \<Rightarrow> task_status list \<times> task_manager" where
  "get_all_task_statuses now m =
     (case ask_manager now GetAllStatuses m of (Some (Statuses sts), m1) \<Rightarrow> (sts, m1) | (_, m1) \<Rightarrow> ([], m1))"

definition ask_outcome :: "string \<Rightarrow> time \<Rightarrow> task_command \<Rightarrow> task_manager \<Rightarrow> unit result \<times> task_manager" where
  "ask_outcome verb now c m =
     (if tk_processor m = NotLaunched then (Inl (Pipeline ''Task manager not started''), m)
      else (case ask_manager now c m of
              (None, m1) \<Rightarrow> (Inl (Pipeline (''Failed to send '' @ verb @ '' task command'')), m1)
            | (Some (Outcome r), m1) \<Rightarrow> (r, m1)
            | (Some _, m1) \<Rightarrow> (Inl (Pipeline ''No response from task manager''), m1)))"

definition create_sync_task :: "time \<Rightarrow> sync_task_config \<Rightarrow> task_manager \<Rightarrow> unit result \<times> task_manager" where
  "create_sync_task now task = ask_outcome ''create'' now (CreateTask task)"

definition delete_sync_task :: "time \<Rightarrow> string \<Rightarrow> task_manager \<Rightarrow> unit result \<times> task_manager" where
  "delete_sync_task now task_id = ask_outcome ''delete'' now (DeleteTask task_id)"

definition not_found_task :: "string \<Rightarrow> error" where
  "not_found_task task_id = Pipeline (''Task '' @ quoted task_id @ '' not found'')"

definition update_task_progress ::
  "time \<Rightarrow> string \<Rightarrow> position \<Rightarrow> u64 \<Rightarrow> task_manager \<Rightarrow> unit result \<times> task_manager" where
  "update_task_progress now task_id position processed_count m =
     (if hm_contains_key (tk_statuses m) task_id
      then (Inr (), with_status task_id (\<lambda>st. st\<lparr>tv_last_position := Some position,
              tv_processed_count := processed_count, tv_last_updated := now\<rparr>) m)
      else (Inl (not_found_task task_id), m))"

definition note_error :: "time \<Rightarrow> string \<Rightarrow> task_status \<Rightarrow> task_status" where
  "note_error now err st =
     (let st1 = st\<lparr>tv_error_count := tv_error_count st + 1, tv_last_error := Some err, tv_last_updated := now\<rparr>
      in if 10 < tv_error_count st1 then st1\<lparr>tv_state := TaskFailed\<rparr> else st1)"

definition report_task_error :: "time \<Rightarrow> string \<Rightarrow> string \<Rightarrow> task_manager \<Rightarrow> unit result \<times> task_manager" where
  "report_task_error now task_id err m =
     (if hm_contains_key (tk_statuses m) task_id then (Inr (), with_status task_id (note_error now err) m)
      else (Inl (not_found_task task_id), m))"

text \<open>Stopping: the shutdown signal and the shutdown command end the processor.\<close>

definition stop_manager :: "task_manager \<Rightarrow> task_manager" where
  "stop_manager m = m\<lparr>tk_processor := (if tk_processor m = NotLaunched then NotLaunched else Finished)\<rparr>"

text \<open>What the monitor counts every ten seconds: all, running and failed tasks, and the overdue ones.\<close>

definition monitor_summary :: "time \<Rightarrow> task_manager \<Rightarrow> nat \<times> nat \<times> nat \<times> string list" where
  "monitor_summary now m =
     (length (tk_statuses m),
      length (filter (\<lambda>st. tv_state st = TaskRunning) (hm_values (tk_statuses m))),
      length (filter (\<lambda>st. tv_state st = TaskFailed) (hm_values (tk_statuses m))),
      map fst (filter (\<lambda>(k, st). tv_state st = TaskFailed \<and> now - tv_last_updated st > 300 * 1000000000)
        (tk_statuses m)))"

section \<open>Statuses match tasks\<close>

text \<open>What every manager goes through, whoever calls it.\<close>

inductive manager_run :: "config \<Rightarrow> task_manager \<Rightarrow> bool" for config where
  run_new: "manager_run config (task_manager_new config)"
| run_launch: "manager_run config m \<Longrightarrow> tk_processor m = NotLaunched \<Longrightarrow>
    manager_run config (snd (manager_launch launch now m))"
| run_send: "manager_run config m \<Longrightarrow> manager_run config (send_task_command c m)"
| run_ask: "manager_run config m \<Longrightarrow> manager_run config (snd (ask_manager now c m))"
| run_progress: "manager_run config m \<Longrightarrow> manager_run config (snd (update_task_progress now task_id position n m))"
| run_error: "manager_run config m \<Longrightarrow> manager_run config (snd (report_task_error now task_id err m))"
| run_stop: "manager_run config m \<Longrightarrow> manager_run config (stop_manager m)"

definition status_ok :: "string \<Rightarrow> task_status \<Rightarrow> bool" where
  "status_ok table st \<longleftrightarrow> tv_task_id st = table \<and> tv_table st = table \<and> tv_state st \<noteq> TaskCompleted"

definition tables_of :: "task_manager \<Rightarrow> string set" where
  "tables_of m = st_table ` set (tk_tasks m)"

definition statuses_ok :: "task_manager \<Rightarrow> bool" where
  "statuses_ok m \<longleftrightarrow> hm_ok (tk_statuses m) \<and>
     (\<forall>table st. hm_get (tk_statuses m) table = Some st \<longrightarrow> status_ok table st) \<and>
     set (hm_keys (tk_statuses m)) = (if tk_processor m = NotLaunched then {} else tables_of m)"

lemma hm_insert_same_keys:
  "hm_get m k = Some v \<Longrightarrow> set (hm_keys (hm_insert k w m)) = set (hm_keys m)"
  by (simp only: hm_keys_insert) (force dest: map_of_SomeD)

lemma with_status_fields [simp]:
  "tk_tasks (with_status task_id f m) = tk_tasks m"
  "tk_processor (with_status task_id f m) = tk_processor m"
  "tk_queue (with_status task_id f m) = tk_queue m"
  by (simp_all add: with_status_def split: option.split)

lemma with_status_get:
  "hm_get (tk_statuses (with_status task_id f m)) k =
     (if k = task_id then map_option f (hm_get (tk_statuses m) k) else hm_get (tk_statuses m) k)"
  by (simp add: with_status_def hm_get_insert split: option.split)

lemma with_status_ok:
  assumes "statuses_ok m" and "\<And>st. status_ok task_id st \<Longrightarrow> status_ok task_id (f st)"
  shows "statuses_ok (with_status task_id f m)"
proof -
  have "hm_ok (tk_statuses (with_status task_id f m))"
    using assms(1) by (simp add: statuses_ok_def with_status_def split: option.split)
  moreover have "set (hm_keys (tk_statuses (with_status task_id f m))) = set (hm_keys (tk_statuses m))"
    by (simp add: with_status_def hm_insert_same_keys del: set_map split: option.split)
  moreover have "status_ok k st" if "hm_get (tk_statuses (with_status task_id f m)) k = Some st" for k st
    using that assms by (auto simp: with_status_get statuses_ok_def split: if_splits)
  ultimately show ?thesis using assms(1) by (simp add: statuses_ok_def tables_of_def)
qed

lemma set_state_ok: "s \<noteq> TaskCompleted \<Longrightarrow> status_ok k st \<Longrightarrow> status_ok k (set_state now s st)"
  by (simp add: status_ok_def set_state_def)

lemma note_error_ok: "status_ok k st \<Longrightarrow> status_ok k (note_error now err st)"
  by (simp add: status_ok_def note_error_def Let_def)

lemmas state_change_defs = start_task_def stop_task_def pause_task_def resume_task_def

lemma state_changes_ok:
  assumes "statuses_ok m"
  shows "statuses_ok (start_task now task_id m)" and "statuses_ok (stop_task now task_id m)"
    and "statuses_ok (pause_task now task_id m)" and "statuses_ok (resume_task now task_id m)"
  unfolding state_change_defs using assms by (auto intro!: with_status_ok set_state_ok)

lemma create_task_ok:
  assumes "statuses_ok m" and "tk_processor m = Processing"
  shows "statuses_ok (snd (create_task now task m))"
  using assms
  by (auto simp: create_task_def statuses_ok_def hm_get_insert hm_keys_insert tables_of_def
      fresh_status_def status_ok_def simp del: set_map)

lemma delete_task_ok:
  assumes "statuses_ok m" and "tk_processor m = Processing"
  shows "statuses_ok (snd (delete_task now task_id m))"
proof -
  let ?m = "stop_task now task_id m"
  have "statuses_ok ?m" using assms(1) by (rule state_changes_ok)
  moreover have "tk_processor ?m = Processing" using assms(2) by (simp add: stop_task_def)
  ultimately show ?thesis
    by (auto simp: delete_task_def Let_def statuses_ok_def hm_get_remove hm_keys_remove tables_of_def
        simp del: set_map split: if_splits)
qed

lemma handle_command_ok:
  assumes "statuses_ok m" and "tk_processor m = Processing"
  shows "statuses_ok (snd (handle_command now c m))"
proof (cases c)
  case (CreateTask task)
  with create_task_ok [OF assms, of now task] show ?thesis by (cases "create_task now task m") simp
next
  case (DeleteTask task_id)
  with delete_task_ok [OF assms, of now task_id] show ?thesis by (cases "delete_task now task_id m") simp
next
  case ShutdownTasks
  with assms show ?thesis by (simp add: statuses_ok_def tables_of_def)
qed (use assms state_changes_ok in auto)

lemma process_commands_ok: "statuses_ok m \<Longrightarrow> statuses_ok (snd (process_commands now cs m))"
proof (induction cs arbitrary: m)
  case (Cons c cs)
  show ?case
  proof (cases "tk_processor m = Processing")
    case True
    from Cons.IH [OF handle_command_ok [OF Cons.prems True, of now c]] True show ?thesis
      by (auto split: prod.splits)
  qed (use Cons.prems in simp)
qed simp

lemma statuses_ok_queue [simp]: "statuses_ok (m\<lparr>tk_queue := q\<rparr>) = statuses_ok m"
  by (simp add: statuses_ok_def tables_of_def)

lemma send_fold_fields:
  "tk_tasks (fold (\<lambda>t. if st_auto_start t = Some False then (\<lambda>m. m)
      else send_task_command (StartTask (st_table t))) ts m) = tk_tasks m"
  "statuses_ok (fold (\<lambda>t. if st_auto_start t = Some False then (\<lambda>m. m)
      else send_task_command (StartTask (st_table t))) ts m) = statuses_ok m"
  by (induction ts arbitrary: m) (simp_all add: send_task_command_def)

lemma insert_fresh_ok:
  assumes "hm_ok n \<and> (\<forall>k st. hm_get n k = Some st \<longrightarrow> status_ok k st)"
  shows "hm_ok (insert_fresh now t n) \<and> (\<forall>k st. hm_get (insert_fresh now t n) k = Some st \<longrightarrow> status_ok k st)"
  using assms by (auto simp: insert_fresh_def hm_get_insert status_ok_def fresh_status_def)

lemma insert_fresh_all:
  "hm_ok n \<and> (\<forall>k st. hm_get n k = Some st \<longrightarrow> status_ok k st) \<Longrightarrow>
     hm_ok (fold (insert_fresh now) ts n) \<and>
     (\<forall>k st. hm_get (fold (insert_fresh now) ts n) k = Some st \<longrightarrow> status_ok k st) \<and>
     set (hm_keys (fold (insert_fresh now) ts n)) = set (hm_keys n) \<union> st_table ` set ts"
proof (induction ts arbitrary: n)
  case (Cons t ts)
  have "set (hm_keys (insert_fresh now t n)) = insert (st_table t) (set (hm_keys n))"
    by (simp only: insert_fresh_def hm_keys_insert)
  with Cons.IH [OF insert_fresh_ok [OF Cons.prems]] show ?case by simp
qed simp

lemma manager_launch_ok:
  assumes "statuses_ok m" and "tk_processor m = NotLaunched"
  shows "statuses_ok (snd (manager_launch launch now m))"
proof -
  have "tk_statuses m = []" using assms by (simp add: statuses_ok_def)
  then have "statuses_ok (m\<lparr>tk_statuses := fold (insert_fresh now) (tk_tasks m) (tk_statuses m),
      tk_processor := Processing\<rparr>)"
    using insert_fresh_all [of "[]" now "tk_tasks m"] by (simp add: statuses_ok_def tables_of_def)
  then show ?thesis
    by (cases "launch ()") (simp_all only: manager_launch_def Let_def sum.case snd_conv send_fold_fields)
qed

text \<open>
  The manager reports exactly the configured tasks: however it is launched, used and stopped,
  there is one status for each table with a task, and for no other, named by its table, and no task
  is ever completed.
\<close>

theorem statuses_match_tasks:
  assumes "manager_run config m"
  shows "hm_ok (tk_statuses m) \<and>
    set (hm_keys (tk_statuses m)) = (if tk_processor m = NotLaunched then {} else tables_of m) \<and>
    (\<forall>table st. hm_get (tk_statuses m) table = Some st \<longrightarrow>
       tv_task_id st = table \<and> tv_table st = table \<and> tv_state st \<noteq> TaskCompleted)"
proof -
  from assms have "statuses_ok m"
  proof (induction rule: manager_run.induct)
    case run_new
    show ?case by (simp add: task_manager_new_def statuses_ok_def)
  next
    case (run_launch m launch now)
    then show ?case by (intro manager_launch_ok)
  next
    case (run_send m c)
    then show ?case by (simp add: send_task_command_def)
  next
    case (run_ask m now c)
    then have "statuses_ok (snd (process_commands now cs (m\<lparr>tk_queue := []\<rparr>)))" for cs
      by (intro process_commands_ok) simp
    with run_ask show ?case
      by (cases "process_commands now (tk_queue m @ [c]) (m\<lparr>tk_queue := []\<rparr>)")
        (simp add: ask_manager_def, metis snd_conv)
  next
    case (run_progress m now task_id position n)
    then show ?case by (auto simp: update_task_progress_def status_ok_def intro!: with_status_ok)
  next
    case (run_error m now task_id err)
    then show ?case by (auto simp: report_task_error_def intro!: with_status_ok note_error_ok)
  next
    case (run_stop m)
    then show ?case by (simp add: stop_manager_def statuses_ok_def tables_of_def)
  qed
  then show ?thesis by (simp add: statuses_ok_def status_ok_def)
qed

definition demo_tm_task :: sync_task_config where
  "demo_tm_task = \<lparr>st_id = ''users_sync'', st_source_name = ''primary'', st_table = ''public.users'', st_index = ''users'',
     st_primary_key = ''id'', st_filter = None, st_transform = None, st_mapping = None,
     st_full_sync_on_start = None, st_options = sync_options_default, st_auto_start = None, st_soft_delete = None\<rparr>"

definition demo_service_config :: config where
  "demo_service_config = (readme_config ''t'' ''p'' None None None)\<lparr>cf_sync_tasks := [demo_tm_task]\<rparr>"

definition demo_manager_started :: task_manager where
  "demo_manager_started = snd (manager_launch (\<lambda>_. Inr ()) 0
     \<lparr>tk_tasks = [demo_tm_task], tk_statuses = [], tk_processor = NotLaunched, tk_queue = []\<rparr>)"

lemma demo_manager_started_eq:
  "demo_manager_started = \<lparr>tk_tasks = [demo_tm_task], tk_statuses = [(''public.users'', fresh_status 0 ''public.users'')],
     tk_processor = Processing, tk_queue = [StartTask ''public.users'']\<rparr>"
  by (simp add: demo_manager_started_def manager_launch_def insert_fresh_def send_task_command_def demo_tm_task_def Let_def)

theorem statuses_match_tasks_witness:
  "set (hm_keys (tk_statuses (snd (manager_launch (\<lambda>_. Inr ()) 0
     (task_manager_new demo_service_config))))) = {''public.users''}"
proof -
  let ?c = "demo_service_config"
  let ?m = "snd (manager_launch (\<lambda>_. Inr ()) 0 (task_manager_new ?c))"
  have "manager_run ?c ?m"
    by (intro run_launch run_new) (simp add: task_manager_new_def)
  moreover have "?m = demo_manager_started" by (simp add: demo_manager_started_def task_manager_new_def demo_service_config_def)
  ultimately show ?thesis
    using statuses_match_tasks [of ?c ?m] by (simp add: demo_manager_started_eq tables_of_def demo_tm_task_def)
qed

section \<open>Creating and deleting\<close>

lemma ask_idle:
  assumes "tk_processor m = Processing" and "tk_queue m = []" and "handle_command now c m = (r, m')"
  shows "ask_manager now c m = (Some r, m')"
proof -
  have "m\<lparr>tk_queue := []\<rparr> = m" using assms(2) by simp
  then have "process_commands now (tk_queue m @ [c]) (m\<lparr>tk_queue := []\<rparr>) = ([r], m')"
    using assms by (simp only: append_Nil process_commands.simps) simp
  with assms(1) show ?thesis by (simp add: ask_manager_def)
qed

text \<open>
  A task that is created and deleted again leaves no trace: creating a task on a new table
  succeeds and reports it idle and fresh, a second task on that table is refused without effect,
  and deleting it gives back the tasks and the statuses from before.
\<close>

theorem create_delete_roundtrip:
  assumes "statuses_ok m" and "tk_processor m = Processing" and "tk_queue m = []"
    and "st_table task \<notin> tables_of m" and "st_table again = st_table task"
  shows "\<exists>m1 m2. create_sync_task now task m = (Inr (), m1) \<and>
    get_task_status now (st_table task) m1 = (Some (fresh_status now (st_table task)), m1) \<and>
    (\<exists>e. create_sync_task now again m1 = (Inl e, m1)) \<and>
    delete_sync_task now (st_table task) m1 = (Inr (), m2) \<and>
    tk_tasks m2 = tk_tasks m \<and> hm_get (tk_statuses m2) = hm_get (tk_statuses m)"
proof -
  let ?t = "st_table task"
  let ?m1 = "m\<lparr>tk_tasks := tk_tasks m @ [task], tk_statuses := hm_insert ?t (fresh_status now ?t) (tk_statuses m)\<rparr>"
  let ?m2 = "snd (delete_task now ?t ?m1)"
  have new: "\<not> (\<exists>t \<in> set (tk_tasks m). st_table t = ?t)"
    using assms(4) unfolding tables_of_def by (metis image_eqI)
  have p1: "tk_processor ?m1 = Processing" "tk_queue ?m1 = []" using assms(2,3) by simp_all
  have create: "create_sync_task now task m = (Inr (), ?m1)"
    using ask_idle [OF assms(2,3), of now "CreateTask task"] new assms(2)
    by (simp add: create_sync_task_def ask_outcome_def create_task_def)
  have status: "get_task_status now ?t ?m1 = (Some (fresh_status now ?t), ?m1)"
    using ask_idle [OF p1, of now "GetStatus ?t"] by (simp add: get_task_status_def hm_get_insert)
  have second: "\<exists>e. create_sync_task now again ?m1 = (Inl e, ?m1)"
    using ask_idle [OF p1, of now "CreateTask again"] assms(2,5)
    by (simp add: create_sync_task_def ask_outcome_def create_task_def)
  have "handle_command now (DeleteTask ?t) ?m1 = (Outcome (Inr ()), ?m2)"
    by (simp add: delete_task_def Let_def)
  with ask_idle [OF p1, of now "DeleteTask ?t"] have "ask_manager now (DeleteTask ?t) ?m1 = (Some (Outcome (Inr ())), ?m2)"
    by blast
  with assms(2) have delete: "delete_sync_task now ?t ?m1 = (Inr (), ?m2)"
    by (simp add: delete_sync_task_def ask_outcome_def)
  have tasks: "tk_tasks ?m2 = tk_tasks m"
    using new by (auto simp: delete_task_def Let_def stop_task_def filter_id_conv)
  have "hm_get (tk_statuses m) ?t = None"
    using assms(1,2,4) by (simp add: statuses_ok_def map_of_eq_None_iff)
  then have "hm_get (tk_statuses ?m2) = hm_get (tk_statuses m)"
    by (auto simp: delete_task_def Let_def hm_get_remove stop_task_def with_status_get hm_get_insert)
  with create status second delete tasks show ?thesis by blast
qed

theorem create_delete_roundtrip_witness:
  "\<exists>m1 m2. create_sync_task 0 demo_tm_task \<lparr>tk_tasks = [], tk_statuses = [], tk_processor = Processing, tk_queue = []\<rparr> = (Inr (), m1) \<and>
    get_task_status 0 ''public.users'' m1 = (Some (fresh_status 0 ''public.users''), m1) \<and>
    delete_sync_task 0 ''public.users'' m1 = (Inr (), m2) \<and> tk_tasks m2 = []"
proof -
  let ?m = "\<lparr>tk_tasks = [], tk_statuses = [], tk_processor = Processing, tk_queue = []\<rparr>"
  have ok: "statuses_ok ?m" by (simp add: statuses_ok_def tables_of_def)
  have table: "st_table demo_tm_task = ''public.users''" by (simp add: demo_tm_task_def)
  from create_delete_roundtrip [OF ok _ _ _ refl, of demo_tm_task 0]
  show ?thesis by (auto simp: tables_of_def table)
qed

section \<open>Failing\<close>

fun keeps_task :: "string \<Rightarrow> task_command \<Rightarrow> bool" where
  "keeps_task table (CreateTask task) \<longleftrightarrow> st_table task \<noteq> table"
| "keeps_task table (DeleteTask task_id) \<longleftrightarrow> task_id \<noteq> table"
| "keeps_task table c \<longleftrightarrow> True"

lemma with_status_keeps_errors:
  assumes "hm_get (tk_statuses m) table = Some st" and "\<And>st. tv_error_count (f st) = tv_error_count st"
  shows "\<exists>st'. hm_get (tk_statuses (with_status task_id f m)) table = Some st' \<and>
    tv_error_count st' = tv_error_count st"
  using assms by (cases "table = task_id") (simp_all add: with_status_get)

lemma handle_command_keeps_errors:
  assumes "keeps_task table c" and "hm_get (tk_statuses m) table = Some st"
  shows "\<exists>st'. hm_get (tk_statuses (snd (handle_command now c m))) table = Some st' \<and>
    tv_error_count st' = tv_error_count st"
proof (cases c)
  case (CreateTask task)
  with assms show ?thesis by (auto simp: create_task_def hm_get_insert)
next
  case (DeleteTask task_id)
  with assms with_status_keeps_errors [OF assms(2), of "set_state now TaskIdle" task_id] show ?thesis
    by (auto simp: delete_task_def Let_def stop_task_def hm_get_remove set_state_def)
qed (use assms(2) with_status_keeps_errors [OF assms(2)] in \<open>auto simp: state_change_defs set_state_def\<close>)

lemma process_commands_keeps_errors:
  "list_all (keeps_task table) cs \<Longrightarrow> hm_get (tk_statuses m) table = Some st \<Longrightarrow>
     \<exists>st'. hm_get (tk_statuses (snd (process_commands now cs m))) table = Some st' \<and>
       tv_error_count st' = tv_error_count st"
proof (induction cs arbitrary: m st)
  case (Cons c cs)
  show ?case
  proof (cases "tk_processor m = Processing")
    case True
    obtain r m1 where h: "handle_command now c m = (r, m1)" by fastforce
    from handle_command_keeps_errors [of table c m st now] Cons.prems h obtain st1
      where "hm_get (tk_statuses m1) table = Some st1" "tv_error_count st1 = tv_error_count st" by auto
    with Cons.IH [of m1 st1] Cons.prems(1) True h show ?thesis by (auto split: prod.splits)
  qed (use Cons.prems in simp)
qed simp

text \<open>
  A failed task fails again at its next error: once ten errors are counted, no sequence of
  stops, starts, pauses and resumes clears the count, so that the next error that is reported puts
  the task into the failed state again, however long ago the others were.
\<close>

theorem errors_are_never_forgiven:
  assumes "hm_get (tk_statuses m) table = Some st" and "10 \<le> unat (tv_error_count st)"
    and "unat (tv_error_count st) < 2 ^ 64 - 1" and "list_all (keeps_task table) cs"
  shows "\<exists>m' st'. report_task_error now' table err (snd (process_commands now cs m)) = (Inr (), m') \<and>
    hm_get (tk_statuses m') table = Some st' \<and> tv_state st' = TaskFailed"
proof -
  let ?m = "snd (process_commands now cs m)"
  from process_commands_keeps_errors [OF assms(4,1)] obtain st1 where
    st1: "hm_get (tk_statuses ?m) table = Some st1" "tv_error_count st1 = tv_error_count st" by blast
  have "unat (tv_error_count st + 1) = Suc (unat (tv_error_count st))"
    using assms(3) by (simp add: unat_plus_if_size word_size)
  then have "10 < tv_error_count st1 + 1"
    using assms(2) st1(2) by (simp add: word_less_nat_alt)
  then have "tv_state (note_error now' err st1) = TaskFailed" by (simp add: note_error_def Let_def)
  moreover have "hm_get (tk_statuses (with_status table (note_error now' err) ?m)) table = Some (note_error now' err st1)"
    by (simp add: with_status_get st1(1))
  ultimately show ?thesis
    using st1(1) by (intro exI [of _ "with_status table (note_error now' err) ?m"] exI [of _ "note_error now' err st1"])
      (simp add: report_task_error_def hm_contains_key_def)
qed

theorem errors_are_never_forgiven_witness:
  "\<exists>m' st'. report_task_error 9 ''public.users'' ''timeout'' (snd (process_commands 5 [StopTask ''public.users'', StartTask ''public.users'']
      (demo_manager_started\<lparr>tk_statuses := [(''public.users'', (fresh_status 0 ''public.users'')\<lparr>tv_error_count := 11, tv_state := TaskFailed\<rparr>)]\<rparr>)))
      = (Inr (), m') \<and>
    hm_get (tk_statuses m') ''public.users'' = Some st' \<and> tv_state st' = TaskFailed"
  by (rule errors_are_never_forgiven [where st = "(fresh_status 0 ''public.users'')\<lparr>tv_error_count := 11, tv_state := TaskFailed\<rparr>"])
    simp_all

end
