(* ===== verification/Health.thy ===== *)
theory Health
  imports Settings Text
begin

text \<open>
  Health checks, \<open>src/health/mod.rs\<close>: the registry and the four checks. What a check asks of the
  outside world is an argument; a world \<open>'w\<close> is passed along.
\<close>

section \<open>Results\<close>

datatype health_status = Healthy | Degraded | Unhealthy

text \<open>Ordered by severity.\<close>

fun severity :: "health_status \<Rightarrow> nat" where
  "severity Healthy = 0"
| "severity Degraded = 1"
| "severity Unhealthy = 2"

instantiation health_status :: linorder
begin

definition less_eq_health_status :: "health_status \<Rightarrow> health_status \<Rightarrow> bool" where
  "less_eq_health_status a b \<longleftrightarrow> severity a \<le> severity b"

definition less_health_status :: "health_status \<Rightarrow> health_status \<Rightarrow> bool" where
  "less_health_status a b \<longleftrightarrow> severity a < severity b"

instance
proof
  fix a b :: health_status
  show "a \<le> b \<Longrightarrow> b \<le> a \<Longrightarrow> a = b" by (cases a; cases b) (simp_all add: less_eq_health_status_def)
qed (auto simp: less_eq_health_status_def less_health_status_def)

end

record health_result =
  hr_status :: health_status
  hr_message :: "string option"
  hr_details :: "(string, json) hmap"
  hr_last_check :: time

definition healthy :: "time \<Rightarrow> health_result" where
  "healthy now = \<lparr>hr_status = Healthy, hr_message = None, hr_details = [], hr_last_check = now\<rparr>"

definition unhealthy :: "time \<Rightarrow> string \<Rightarrow> health_result" where
  "unhealthy now message = \<lparr>hr_status = Unhealthy, hr_message = Some message, hr_details = [], hr_last_check = now\<rparr>"

definition degraded :: "time \<Rightarrow> string \<Rightarrow> health_result" where
  "degraded now message = \<lparr>hr_status = Degraded, hr_message = Some message, hr_details = [], hr_last_check = now\<rparr>"

definition with_detail :: "string \<Rightarrow> json \<Rightarrow> health_result \<Rightarrow> health_result" where
  "with_detail key v r = r\<lparr>hr_details := hm_insert key v (hr_details r)\<rparr>"

section \<open>The registry\<close>

type_synonym 'w health_check = "'w \<Rightarrow> health_result \<times> 'w"

record system_health =
  sy_status :: health_status
  sy_components :: "(string, health_result) hmap"
  sy_uptime_seconds :: nat

record 'w health_registry =
  hg_components :: "(string, 'w health_check) hmap"
  hg_start_time :: time

definition registry_new :: "time \<Rightarrow> 'w health_registry" where
  "registry_new now = \<lparr>hg_components = [], hg_start_time = now\<rparr>"

definition register :: "string \<Rightarrow> 'w health_check \<Rightarrow> 'w health_registry \<Rightarrow> 'w health_registry" where
  "register name check g = g\<lparr>hg_components := hm_insert name check (hg_components g)\<rparr>"

fun update_overall :: "health_status \<Rightarrow> health_status \<Rightarrow> health_status" where
  "update_overall overall Unhealthy = Unhealthy"
| "update_overall overall Degraded = (if overall = Healthy then Degraded else overall)"
| "update_overall overall Healthy = overall"

fun check_all ::
  "(string, 'w health_check) hmap \<Rightarrow> health_status \<Rightarrow> (string, health_result) hmap \<Rightarrow> 'w \<Rightarrow>
     (health_status \<times> (string, health_result) hmap) \<times> 'w" where
  "check_all [] overall results w = ((overall, results), w)"
| "check_all ((name, component) # rest) overall results w =
     (case component w of
        (r, w1) \<Rightarrow> check_all rest (update_overall overall (hr_status r)) (hm_insert name r results) w1)"

definition get_system_health :: "time \<Rightarrow> 'w health_registry \<Rightarrow> 'w \<Rightarrow> system_health \<times> 'w" where
  "get_system_health now g w =
     (case check_all (hg_components g) Healthy [] w of
        ((overall, results), w1) \<Rightarrow>
          (\<lparr>sy_status = overall, sy_components = results,
            sy_uptime_seconds = duration_since now (hg_start_time g) div 1000000000\<rparr>, w1))"

definition get_component_health :: "string \<Rightarrow> 'w health_registry \<Rightarrow> 'w \<Rightarrow> health_result option \<times> 'w" where
  "get_component_health name g w =
     (case hm_get (hg_components g) name of
        None \<Rightarrow> (None, w)
      | Some component \<Rightarrow> (case component w of (r, w1) \<Rightarrow> (Some r, w1)))"

section \<open>The checks\<close>

text \<open>\<open>try_step\<close> goes on with the value of a call or ends unhealthy with a message.\<close>

definition try_step ::
  "time \<Rightarrow> string \<Rightarrow> (string + 'a) \<times> 'w \<Rightarrow> ('a \<Rightarrow> 'w \<Rightarrow> health_result \<times> 'w) \<Rightarrow> health_result \<times> 'w" where
  "try_step now message call k =
     (case call of (Inl e, w) \<Rightarrow> (unhealthy now (message @ e), w) | (Inr v, w) \<Rightarrow> k v w)"

definition number_json :: "nat \<Rightarrow> json" where
  "number_json n = Number (PosInt (of_nat n))"

definition postgres_health ::
  "('w \<Rightarrow> (string + unit) \<times> 'w) \<Rightarrow> ('w \<Rightarrow> (string + unit) \<times> 'w) \<Rightarrow> ('w \<Rightarrow> (string + nat \<times> nat) \<times> 'w) \<Rightarrow>
     time \<Rightarrow> 'w health_check" where
  "postgres_health ensure_connected get_client select_one now w =
     try_step now ''Failed to connect: '' (ensure_connected w) (\<lambda>_ w1.
     try_step now ''Failed to get client: '' (get_client w1) (\<lambda>_ w2.
     try_step now ''Query failed: '' (select_one w2) (\<lambda>(pool_size, available) w3.
       (with_detail ''pool_available'' (number_json available)
          (with_detail ''pool_size'' (number_json pool_size) (healthy now)), w3))))"

definition meilisearch_health ::
  "(string + unit) \<Rightarrow> ('w \<Rightarrow> (string + string) \<times> 'w) \<Rightarrow> time \<Rightarrow> 'w health_check" where
  "meilisearch_health client health now w =
     try_step now ''Failed to create client: '' (client, w) (\<lambda>_ w1.
     try_step now ''Health check failed: '' (health w1) (\<lambda>status w2.
       (with_detail ''status'' (String status) (healthy now), w2)))"

text \<open>Lines end with a newline, or a carriage return and a newline.\<close>

definition str_lines :: "string \<Rightarrow> string list" where
  "str_lines s =
     (let ls = split_on (CHR 0x0A) s;
          kept = (if last ls = [] then butlast ls else ls)
      in map (\<lambda>l. if l \<noteq> [] \<and> last l = CHR 0x0D then butlast l else l) kept)"

definition redis_version :: "string \<Rightarrow> string option" where
  "redis_version info =
     (case List.find (str_prefix ''redis_version:'') (str_lines info) of
        None \<Rightarrow> None
      | Some l \<Rightarrow> (case split_on (CHR '':'') l of _ # v # _ \<Rightarrow> Some (trim v) | _ \<Rightarrow> None))"

definition redis_health ::
  "(string + unit) \<Rightarrow> ('w \<Rightarrow> (string + unit) \<times> 'w) \<Rightarrow> ('w \<Rightarrow> (string + string) \<times> 'w) \<Rightarrow>
     ('w \<Rightarrow> (string + string) \<times> 'w) \<Rightarrow> time \<Rightarrow> 'w health_check" where
  "redis_health client connection ping info now w =
     try_step now ''Failed to create client: '' (client, w) (\<lambda>_ w1.
     try_step now ''Connection failed: '' (connection w1) (\<lambda>_ w2.
     try_step now ''PING failed: '' (ping w2) (\<lambda>response w3.
       if response \<noteq> ''PONG'' then (degraded now ''Unexpected PING response'', w3)
       else (case info w3 of
               (Inl e, w4) \<Rightarrow> (healthy now, w4)
             | (Inr text, w4) \<Rightarrow>
                 (case redis_version text of
                    None \<Rightarrow> (healthy now, w4)
                  | Some v \<Rightarrow> (with_detail ''version'' (String v) (healthy now), w4))))))"

definition api_health :: "('w \<Rightarrow> (string + nat) \<times> 'w) \<Rightarrow> (nat \<Rightarrow> string) \<Rightarrow> u16 \<Rightarrow> time \<Rightarrow> 'w health_check" where
  "api_health get show_status port now w =
     (let p = number_json (unat port)
      in (case get w of
            (Inl e, w1) \<Rightarrow> (with_detail ''port'' p (degraded now (''Could not reach API: '' @ e)), w1)
          | (Inr status, w1) \<Rightarrow>
              if 200 \<le> status \<and> status < 300 then (with_detail ''port'' p (healthy now), w1)
              else (degraded now (''API returned status: '' @ show_status status), w1)))"

section \<open>The overall status\<close>

lemma update_overall_max: "update_overall overall s = max overall s"
  by (cases overall; cases s) (simp_all add: max_def less_eq_health_status_def)

text \<open>The results of the checks in the order of the registry, each in the world the one before left.\<close>

fun check_results :: "(string, 'w health_check) hmap \<Rightarrow> 'w \<Rightarrow> (string \<times> health_result) list" where
  "check_results [] w = []"
| "check_results ((name, component) # rest) w =
     (name, fst (component w)) # check_results rest (snd (component w))"

lemma check_results_names: "map fst (check_results cs w) = map fst cs"
  by (induction cs w rule: check_results.induct) simp_all

lemma check_all_results:
  "distinct (map fst cs) \<Longrightarrow> set (map fst cs) \<inter> set (map fst results) = {} \<Longrightarrow>
     fst (check_all cs overall results w) =
       (fold max (map (hr_status \<circ> snd) (check_results cs w)) overall, results @ check_results cs w)"
proof (induction cs overall results w rule: check_all.induct)
  case (2 name component rest overall results w)
  obtain r w1 where run: "component w = (r, w1)" by fastforce
  have new: "hm_insert name r results = results @ [(name, r)]"
    using 2(3) by (intro hm_insert_new) auto
  have "set (map fst rest) \<inter> set (map fst (results @ [(name, r)])) = {}"
    using 2(2,3) by auto
  with 2(1) [OF run [symmetric]] 2(2) new run show ?case
    by (simp add: update_overall_max max.commute)
qed simp

lemma fold_max_Unhealthy: "fold max ss s = Unhealthy \<longleftrightarrow> s = Unhealthy \<or> Unhealthy \<in> set ss"
proof (induction ss arbitrary: s)
  case (Cons a ss)
  then show ?case by (cases a; cases s) (simp_all add: max_def less_eq_health_status_def)
qed simp

lemma fold_max_Healthy: "fold max ss s = Healthy \<longleftrightarrow> s = Healthy \<and> set ss \<subseteq> {Healthy}"
proof (induction ss arbitrary: s)
  case (Cons a ss)
  then show ?case by (cases a; cases s) (simp_all add: max_def less_eq_health_status_def)
qed simp

text \<open>
  The overall health is that of the worst component: every registered component is checked once
  and reported under its name, and the system is unhealthy if and only if one of them is, healthy
  if and only if all are.
\<close>

theorem overall_health_is_the_worst:
  assumes "hm_ok (hg_components g)" and "get_system_health now g w = (h, w')"
  shows "sy_components h = check_results (hg_components g) w \<and>
    sy_status h = fold max (map (hr_status \<circ> snd) (sy_components h)) Healthy \<and>
    (sy_status h = Unhealthy \<longleftrightarrow> (\<exists>(name, r) \<in> set (sy_components h). hr_status r = Unhealthy)) \<and>
    (sy_status h = Healthy \<longleftrightarrow> (\<forall>(name, r) \<in> set (sy_components h). hr_status r = Healthy))"
proof -
  have h: "sy_components h = check_results (hg_components g) w"
      "sy_status h = fold max (map (hr_status \<circ> snd) (sy_components h)) Healthy"
    using check_all_results [of "hg_components g" "[]" Healthy w] assms
    by (auto simp: get_system_health_def hm_ok_def split: prod.splits)
  have "sy_status h = Unhealthy \<longleftrightarrow> (\<exists>(name, r) \<in> set (sy_components h). hr_status r = Unhealthy)"
    by (subst h(2), subst fold_max_Unhealthy) force
  moreover have "sy_status h = Healthy \<longleftrightarrow> (\<forall>(name, r) \<in> set (sy_components h). hr_status r = Healthy)"
    by (subst h(2), subst fold_max_Healthy) auto
  ultimately show ?thesis using h by blast
qed

definition demo_registry :: "nat health_registry" where
  "demo_registry = register ''redis'' (\<lambda>w. (degraded 0 ''slow'', Suc w))
     (register ''meilisearch'' (meilisearch_health (Inr ()) (\<lambda>w. (Inr ''available'', Suc w)) 0) (registry_new 0))"

theorem overall_health_is_the_worst_witness:
  "sy_status (fst (get_system_health 0 demo_registry 0)) = Degraded \<and>
    map fst (sy_components (fst (get_system_health 0 demo_registry 0))) = [''meilisearch'', ''redis'']"
proof -
  obtain h w' where run: "get_system_health 0 demo_registry 0 = (h, w')" by fastforce
  have "hm_ok (hg_components demo_registry)" by (simp add: demo_registry_def register_def registry_new_def hm_ok_def)
  from overall_health_is_the_worst [OF this run] run show ?thesis
    by (simp add: demo_registry_def register_def registry_new_def meilisearch_health_def try_step_def degraded_def
        healthy_def with_detail_def max_def less_eq_health_status_def)
qed

end
