(* ===== verification/Streaming.thy ===== *)
theory Streaming
  imports Pressure Models Text
begin

text \<open>
  Streaming of JSON, \<open>src/pipeline/streaming_processor.rs\<close>: documents from a reader, the items of
  an array, and routing an event by its table without parsing it. Parsing is \<open>serde_json\<close>'s, an
  argument. Texts are their bytes; every character the scanners look for is ASCII.
\<close>

section \<open>Documents\<close>

fun estimate_value_size :: "json \<Rightarrow> nat" where
  "estimate_value_size Null = 8"
| "estimate_value_size (Bool b) = 8"
| "estimate_value_size (Number n) = 16"
| "estimate_value_size (String s) = 24 + length s"
| "estimate_value_size (Array arr) = 24 + sum_list (map estimate_value_size arr)"
| "estimate_value_size (Object obj) =
     24 + sum_list (map (\<lambda>(k, v). 24 + length k + estimate_value_size v) obj)"

record json_processor =
  jp_max_document_size :: nat
  jp_memory_monitor :: "memory_monitor option"

definition json_processor_new :: "nat \<Rightarrow> json_processor" where
  "json_processor_new max_document_size = \<lparr>jp_max_document_size = max_document_size, jp_memory_monitor = None\<rparr>"

definition with_memory_monitor :: "memory_monitor \<Rightarrow> json_processor \<Rightarrow> json_processor" where
  "with_memory_monitor monitor p = p\<lparr>jp_memory_monitor := Some monitor\<rparr>"

text \<open>
  \<open>parse\<close> reads one value from the front of a text: its error, or the value, and how many bytes it
  took from the reader. The guard of the allocation lives until the end of the block that tracks it.
\<close>

type_synonym json_parser = "string \<Rightarrow> (string + json) \<times> nat"

definition parse_document ::
  "json_parser \<Rightarrow> json_processor \<Rightarrow> string \<Rightarrow> json result \<times> string \<times> json_processor" where
  "parse_document parse p reader =
     (case parse (take (jp_max_document_size p) reader) of
        (Inl e, n) \<Rightarrow> (Inl (Validation (''Failed to parse JSON: '' @ e)), drop n reader, p)
      | (Inr v, n) \<Rightarrow>
          (case jp_memory_monitor p of
             None \<Rightarrow> (Inr v, drop n reader, p)
           | Some monitor \<Rightarrow>
               (case track_memory AllocQueue (of_nat (estimate_value_size v)) monitor of
                  (Inl e, m1) \<Rightarrow> (Inl e, drop n reader, p\<lparr>jp_memory_monitor := Some m1\<rparr>)
                | (Inr bytes, m1) \<Rightarrow>
                    (Inr v, drop n reader, p\<lparr>jp_memory_monitor := Some (release_memory AllocQueue bytes m1)\<rparr>))))"

record document_iterator =
  di_reader :: string
  di_processor :: json_processor
  di_done :: bool

definition parse_document_stream :: "json_processor \<Rightarrow> string \<Rightarrow> document_iterator" where
  "parse_document_stream p reader = \<lparr>di_reader = reader, di_processor = p, di_done = False\<rparr>"

definition next_document :: "json_parser \<Rightarrow> document_iterator \<Rightarrow> json result option \<times> document_iterator" where
  "next_document parse it =
     (if di_done it then (None, it)
      else (case parse_document parse (di_processor it) (di_reader it) of
              (Inr doc, reader, p) \<Rightarrow> (Some (Inr doc), it\<lparr>di_reader := reader, di_processor := p\<rparr>)
            | (Inl e, reader, p) \<Rightarrow>
                (if str_contains (error_to_string e) ''EOF'' then None else Some (Inl e),
                 it\<lparr>di_reader := reader, di_processor := p, di_done := True\<rparr>)))"

section \<open>Items of an array\<close>

text \<open>The scanner: inside the array or not, the depth of braces, the item so far and the count.\<close>

fun scan_array ::
  "(string \<Rightarrow> json option) \<Rightarrow> (json \<Rightarrow> 's \<Rightarrow> unit result \<times> 's) \<Rightarrow> string \<Rightarrow> bool \<Rightarrow> int \<Rightarrow> string \<Rightarrow> nat \<Rightarrow> 's \<Rightarrow>
     nat result \<times> 's" where
  "scan_array parse process [] in_array depth item n s = (Inr n, s)"
| "scan_array parse process (ch # chars) False depth item n s =
     scan_array parse process chars (ch = CHR ''['') depth item n s"
| "scan_array parse process (ch # chars) True depth item n s =
     (if ch = CHR ''{'' then scan_array parse process chars True (depth + 1) (item @ [ch]) n s
      else if ch = CHR ''}'' then
        (if depth - 1 = 0 \<and> trim (item @ [ch]) \<noteq> [] then
           (case parse (item @ [ch]) of
              Some v \<Rightarrow>
                (case process v s of
                   (Inl e, s1) \<Rightarrow> (Inl e, s1)
                 | (Inr _, s1) \<Rightarrow> scan_array parse process chars True (depth - 1) [] (Suc n) s1)
            | None \<Rightarrow> scan_array parse process chars True (depth - 1) [] n s)
         else scan_array parse process chars True (depth - 1) (item @ [ch]) n s)
      else if ch = CHR '','' \<and> depth = 0 then scan_array parse process chars True depth item n s
      else if ch = CHR '']'' \<and> depth = 0 then (Inr n, s)
      else if depth > 0 \<or> ch \<noteq> CHR '' '' then scan_array parse process chars True depth (item @ [ch]) n s
      else scan_array parse process chars True depth item n s)"

definition process_array_streaming ::
  "(string \<Rightarrow> json option) \<Rightarrow> (json \<Rightarrow> 's \<Rightarrow> unit result \<times> 's) \<Rightarrow> string \<Rightarrow> 's \<Rightarrow> nat result \<times> 's" where
  "process_array_streaming parse process json_str s = scan_array parse process json_str False 0 [] 0 s"

section \<open>Routing\<close>

definition ascii_whitespace :: "char \<Rightarrow> bool" where
  "ascii_whitespace c \<longleftrightarrow> c \<in> {CHR '' '', CHR 0x09, CHR 0x0A, CHR 0x0C, CHR 0x0D}"

text \<open>The closing quote from a position on, skipping escaped characters.\<close>

fun closing_quote :: "string \<Rightarrow> nat \<Rightarrow> nat option" where
  "closing_quote [] i = None"
| "closing_quote (c # cs) i =
     (if c = CHR 0x5C then (case cs of [] \<Rightarrow> None | d # ds \<Rightarrow> closing_quote ds (i + 2))
      else if c = CHR 0x22 then Some i
      else closing_quote cs (i + 1))"

definition separator :: "char \<Rightarrow> bool" where
  "separator c \<longleftrightarrow> ascii_whitespace c \<or> c = CHR '':''"

text \<open>\<open>data\<close> is what lies from position \<open>i\<close> on.\<close>

function find_json_string_value :: "string \<Rightarrow> string \<Rightarrow> nat \<Rightarrow> (nat \<times> nat) option" where
  "find_json_string_value key data i =
     (if data = [] then None
      else if str_prefix key data then
        (let rest = drop (length key) data;
             i1 = i + length key + length (takeWhile separator rest)
         in (case dropWhile separator rest of
               [] \<Rightarrow> None
             | c # cs \<Rightarrow>
                 if c = CHR 0x22 then map_option (Pair (i1 + 1)) (closing_quote cs (i1 + 1))
                 else find_json_string_value key cs (i1 + 1)))
      else find_json_string_value key (tl data) (i + 1))"
  by auto

termination
proof (relation "measure (\<lambda>(key, data, i). length data)")
  fix key data :: string and i :: nat and rest i1 c cs
  assume "data \<noteq> []" "rest = drop (length key) data" "dropWhile separator rest = c # cs"
  then have "length (c # cs) \<le> length rest" by (metis length_dropWhile_le)
  then have "length cs < length data" using \<open>rest = _\<close> \<open>data \<noteq> []\<close> by (simp add: length_greater_0_conv)
  then show "((key, cs, i1 + 1), key, data, i) \<in> measure (\<lambda>(key, data, i). length data)" by simp
qed auto

declare find_json_string_value.simps [simp del]

record event_view =
  vw_table :: string
  vw_raw_data :: string

abbreviation table_key :: string where
  "table_key \<equiv> [CHR 0x22] @ ''table'' @ [CHR 0x22]"

definition route_event :: "string \<Rightarrow> event_view result" where
  "route_event event_data =
     (case dropWhile ascii_whitespace event_data of
        [] \<Rightarrow> Inl (Validation ''Invalid JSON object'')
      | c # _ \<Rightarrow>
          if c \<noteq> CHR ''{'' then Inl (Validation ''Invalid JSON object'')
          else (case find_json_string_value table_key event_data 0 of
                  None \<Rightarrow> Inl (Validation ''Missing table field'')
                | Some (a, b) \<Rightarrow>
                    (let table = take (b - a) (drop a event_data)
                     in (case from_utf8 table of
                           Some e \<Rightarrow> Inl (Validation (''Invalid UTF-8: '' @ utf8_error_text e))
                         | None \<Rightarrow> Inr \<lparr>vw_table = table, vw_raw_data = event_data\<rparr>))))"

definition parse_full :: "(string \<Rightarrow> string + json) \<Rightarrow> event_view \<Rightarrow> json result" where
  "parse_full parse view =
     (case parse (vw_raw_data view) of
        Inl e \<Rightarrow> Inl (Validation (''Failed to parse event: '' @ e))
      | Inr v \<Rightarrow> Inr v)"

section \<open>Parsing leaves no trace in the memory monitor\<close>

lemma parse_document_frees:
  assumes "parse_document parse p reader = (Inr v, reader', p')" and "jp_memory_monitor p = Some monitor"
  shows "jp_memory_monitor p' = Some monitor"
proof -
  have "release_memory AllocQueue n (snd (track_memory AllocQueue n monitor)) = monitor"
    if "fst (track_memory AllocQueue n monitor) = Inr n" for n
    using that
    by (cases monitor) (auto simp: track_memory_def reserve_def release_memory_def split: bool.splits)
  moreover have "track_memory AllocQueue n monitor = (Inr k, m1) \<Longrightarrow> k = n" for n k m1
    by (auto simp: track_memory_def reserve_def split: bool.splits)
  ultimately show ?thesis
    using assms by (auto simp: parse_document_def split: prod.splits sum.splits) (metis fst_conv snd_conv)
qed

section \<open>Arrays of objects\<close>

text \<open>The text of an object from depth \<open>d\<close> on: the braces close for the first time at its end.\<close>

fun balanced :: "nat \<Rightarrow> string \<Rightarrow> bool" where
  "balanced d [] = False"
| "balanced d (c # cs) =
     (if c = CHR ''{'' then balanced (Suc d) cs
      else if c = CHR ''}'' then (if d = 1 then cs = [] else balanced (d - 1) cs)
      else balanced d cs)"

definition object_text :: "string \<Rightarrow> bool" where
  "object_text t \<longleftrightarrow> (case t of [] \<Rightarrow> False | c # cs \<Rightarrow> c = CHR ''{'' \<and> balanced 1 cs)"

fun process_each :: "(json \<Rightarrow> 's \<Rightarrow> unit result \<times> 's) \<Rightarrow> json list \<Rightarrow> nat \<Rightarrow> 's \<Rightarrow> nat result \<times> 's" where
  "process_each process [] n s = (Inr n, s)"
| "process_each process (v # vs) n s =
     (case process v s of (Inl e, s1) \<Rightarrow> (Inl e, s1) | (Inr _, s1) \<Rightarrow> process_each process vs (Suc n) s1)"

definition item_done ::
  "(string \<Rightarrow> json option) \<Rightarrow> (json \<Rightarrow> 's \<Rightarrow> unit result \<times> 's) \<Rightarrow> string \<Rightarrow> string \<Rightarrow> nat \<Rightarrow> 's \<Rightarrow> nat result \<times> 's" where
  "item_done parse process text rest n s =
     (case parse text of
        Some v \<Rightarrow>
          (case process v s of
             (Inl e, s1) \<Rightarrow> (Inl e, s1)
           | (Inr _, s1) \<Rightarrow> scan_array parse process rest True 0 [] (Suc n) s1)
      | None \<Rightarrow> scan_array parse process rest True 0 [] n s)"

lemma scan_object_rest:
  "balanced d cs \<Longrightarrow> 0 < d \<Longrightarrow> item \<noteq> [] \<Longrightarrow> hd item = CHR ''{'' \<Longrightarrow>
     scan_array parse process (cs @ rest) True (int d) item n s = item_done parse process (item @ cs) rest n s"
proof (induction d cs arbitrary: item rule: balanced.induct)
  case (2 d c cs)
  have hd: "item @ [c] \<noteq> []" "hd (item @ [c]) = CHR ''{''" using 2(6,7) by simp_all
  consider "c = CHR ''{''" | "c = CHR ''}''" "d = 1" | "c = CHR ''}''" "d \<noteq> 1" | "c \<noteq> CHR ''{''" "c \<noteq> CHR ''}''"
    by blast
  then show ?case
  proof cases
    case 1
    with 2(1) [OF 1 _ _ hd] 2(4) show ?thesis by (simp add: add.commute)
  next
    case 2
    with \<open>balanced d (c # cs)\<close> have "cs = []" by (simp split: if_splits)
    have "solid (item @ [c])" using hd 2 \<open>item \<noteq> []\<close> \<open>hd item = _\<close> by (simp add: solid_def)
    then have "trim (item @ [c]) \<noteq> []" by (simp add: trim_solid)
    with 2 \<open>cs = []\<close> show ?thesis
      by (simp add: item_done_def split: option.split sum.split prod.split)
  next
    case 3
    then have pos: "0 < d - 1" and int: "int d - 1 = int (d - 1)" using 2(5) by auto
    have "balanced (d - 1) cs" using 2(4) 3 by simp
    from 2(2) [OF _ 3(1) 3(2) this pos hd]
    have IH: "scan_array parse process (cs @ rest) True (int (d - 1)) (item @ [c]) n s =
        item_done parse process ((item @ [c]) @ cs) rest n s" using 3 by simp
    have "int d - 1 \<noteq> 0" using 3(2) by simp
    then have "scan_array parse process (c # cs @ rest) True (int d) item n s =
        scan_array parse process (cs @ rest) True (int d - 1) (item @ [c]) n s"
      unfolding 3(1) by simp
    then show ?thesis unfolding int IH by simp
  next
    case 4
    have "balanced d cs" using 2(4) 4 by simp
    from 2(3) [OF 4 this 2(5) hd]
    have IH: "scan_array parse process (cs @ rest) True (int d) (item @ [c]) n s =
        item_done parse process ((item @ [c]) @ cs) rest n s" .
    have "scan_array parse process (c # cs @ rest) True (int d) item n s =
        scan_array parse process (cs @ rest) True (int d) (item @ [c]) n s"
      using 4 2(5) by simp
    then show ?thesis unfolding IH by simp
  qed
qed simp

lemma scan_object:
  assumes "object_text t"
  shows "scan_array parse process (t @ rest) True 0 [] n s = item_done parse process t rest n s"
proof -
  from assms obtain cs where t: "t = CHR ''{'' # cs" "balanced 1 cs"
    by (auto simp: object_text_def split: list.splits)
  from scan_object_rest [OF t(2), of "[CHR ''{'']" parse process rest n s] show ?thesis
    by (simp add: t(1))
qed

text \<open>
  Items of an array reach the processor one by one: for a text that lists objects whose braces
  are balanced (braces inside strings count), separated by commas with or without a space, exactly
  the parsed objects are processed, in order, up to the first error of the processor, and the result
  is their number.
\<close>

theorem array_items_in_order:
  assumes "list_all object_text ts" and "map parse ts = map Some vs" and "sep = '','' \<or> sep = '', ''"
  shows "process_array_streaming parse process (''['' @ join_with sep ts @ '']'' @ rest) s =
    process_each process vs 0 s"
proof -
  have skip: "scan_array parse process (sep @ cs) True 0 [] n s = scan_array parse process cs True 0 [] n s" for cs n s
    using assms(3) by auto
  have "scan_array parse process (join_with sep ts @ '']'' @ rest) True 0 [] n s = process_each process vs n s" for n s
    using assms(1,2)
  proof (induction ts arbitrary: vs n s)
    case (Cons t ts)
    then obtain v vs' where vs: "vs = v # vs'" "parse t = Some v" "map parse ts = map Some vs'" by (cases vs) auto
    obtain after where after: "join_with sep (t # ts) @ '']'' @ rest = t @ after"
        "\<And>k s1. scan_array parse process after True 0 [] k s1 = process_each process vs' k s1"
    proof (cases ts)
      case Nil
      with vs(3) that [of "'']'' @ rest"] show thesis by simp
    next
      case (Cons t' ts')
      with Cons.IH [of vs'] Cons.prems vs(3) that [of "sep @ join_with sep ts @ '']'' @ rest"] show thesis
        by (simp add: skip)
    qed
    from Cons.prems have "object_text t" by simp
    from scan_object [OF this, of parse process after n s] show ?case
      unfolding after(1) vs(1) by (simp add: item_done_def vs(2) after(2) split: prod.split sum.split)
  qed simp
  from this [of 0 s] show ?thesis by (simp add: process_array_streaming_def)
qed

definition demo_parse :: "string \<Rightarrow> json option" where
  "demo_parse t = (if t = ''{a}'' then Some Null else if t = ''{b{}}'' then Some (Bool True) else None)"

theorem array_items_in_order_witness:
  "process_array_streaming demo_parse (\<lambda>v s. (Inr (), s @ [v])) ''[{a}, {b{}}]'' [] = (Inr 2, [Null, Bool True])"
  using array_items_in_order [of "[''{a}'', ''{b{}}'']" demo_parse "[Null, Bool True]" "'', ''" "\<lambda>v s. (Inr (), s @ [v])" "[]" "[]"]
  by (simp add: object_text_def demo_parse_def)

text \<open>
  A brace in a string loses the rest of the array, and a number before an object loses the object.
\<close>

lemma brace_in_string_loses_items:
  "process_array_streaming (\<lambda>t. if t = ''{b}'' then Some Null else None) (\<lambda>v s. (Inr (), s @ [v]))
     (''[{a:'' @ [CHR 0x22] @ ''}'' @ [CHR 0x22] @ ''}, {b}]'') [] = (Inr 0, [])"
  by (simp add: process_array_streaming_def)

section \<open>Routing by the first table key\<close>

lemma closing_quote_plain:
  "CHR 0x22 \<notin> set name \<Longrightarrow> CHR 0x5C \<notin> set name \<Longrightarrow>
     closing_quote (name @ CHR 0x22 # rest) i = Some (i + length name)"
  by (induction name arbitrary: i) auto

lemma find_value_skips:
  assumes "\<not> str_contains (pre @ butlast key) key" and "key \<noteq> []"
  shows "find_json_string_value key (pre @ key @ rest) i = find_json_string_value key (key @ rest) (i + length pre)"
  using assms(1)
proof (induction pre arbitrary: i)
  case (Cons c pre)
  have "\<not> str_prefix key (c # pre @ key @ rest)"
  proof
    assume "str_prefix key (c # pre @ key @ rest)"
    then obtain t where t: "c # pre @ key @ rest = key @ t" by (auto simp: str_prefix_iff)
    then have "take (length key) (c # pre @ key @ rest) = key" by (metis append_eq_conv_conj)
    moreover have "length key \<le> length (c # pre @ butlast key)" by (simp add: length_butlast)
    moreover have "c # pre @ key @ rest = (c # pre @ butlast key) @ [last key] @ rest" using assms(2) by simp
    ultimately have "take (length key) (c # pre @ butlast key) = key" by (metis take_append append_Nil2 diff_is_0_eq take_0)
    then have "c # pre @ butlast key = key @ drop (length key) (c # pre @ butlast key)"
      by (metis append_take_drop_id)
    with Cons.prems show False by (metis append_Nil append_Cons str_contains_iff)
  qed
  moreover have "\<not> str_contains (pre @ butlast key) key" using Cons.prems by (simp add: str_contains_iff) (metis append_Cons)
  ultimately show ?case
    using Cons.IH [of "i + 1"] by (subst find_json_string_value.simps) simp
qed simp

lemma find_value_here:
  assumes "list_all separator gap" and "CHR 0x22 \<notin> set name" and "CHR 0x5C \<notin> set name" and "key \<noteq> []"
  shows "find_json_string_value key (key @ gap @ CHR 0x22 # name @ CHR 0x22 # rest) i =
    Some (i + length key + length gap + 1, i + length key + length gap + 1 + length name)"
proof -
  have quote: "\<not> separator (CHR 0x22)" by (simp add: separator_def ascii_whitespace_def)
  let ?rest = "gap @ CHR 0x22 # name @ CHR 0x22 # rest"
  have "takeWhile separator ?rest = gap" "dropWhile separator ?rest = CHR 0x22 # name @ CHR 0x22 # rest"
    using assms(1) quote by (auto simp: takeWhile_append dropWhile_append list_all_iff)
  moreover have "str_prefix key (key @ ?rest)" by (auto simp: str_prefix_iff)
  ultimately show ?thesis
    using assms(4) closing_quote_plain [OF assms(2,3)]
    by (subst find_json_string_value.simps) (simp add: Let_def add.assoc)
qed

lemma route_first_key:
  assumes "list_all ascii_whitespace indent" and "\<not> str_contains (indent @ CHR ''{'' # pre @ butlast table_key) table_key"
    and "list_all separator gap" and "CHR 0x22 \<notin> set name" and "CHR 0x5C \<notin> set name" and "utf8_valid name"
    and "event_data = indent @ CHR ''{'' # pre @ table_key @ gap @ CHR 0x22 # name @ CHR 0x22 # rest"
  shows "route_event event_data = Inr \<lparr>vw_table = name, vw_raw_data = event_data\<rparr>"
proof -
  let ?pre = "indent @ CHR ''{'' # pre"
  have whole: "event_data = ?pre @ table_key @ gap @ CHR 0x22 # name @ CHR 0x22 # rest" using assms(7) by simp
  have brace: "\<not> ascii_whitespace (CHR ''{'')" by (simp add: ascii_whitespace_def)
  have "dropWhile ascii_whitespace event_data = CHR ''{'' # pre @ table_key @ gap @ CHR 0x22 # name @ CHR 0x22 # rest"
    using assms(1) brace unfolding assms(7) by (subst dropWhile_append2) (auto simp: list_all_iff)
  moreover
  let ?a = "length ?pre + length table_key + length gap + 1"
  have "find_json_string_value table_key event_data 0 = Some (?a, ?a + length name)"
    unfolding whole using find_value_skips [of ?pre table_key "gap @ CHR 0x22 # name @ CHR 0x22 # rest" 0]
      find_value_here [OF assms(3-5), of table_key rest "length ?pre"] assms(2) by simp
  moreover have "take (length name) (drop ?a event_data) = name"
  proof -
    have "event_data = (?pre @ table_key @ gap @ [CHR 0x22]) @ name @ CHR 0x22 # rest" unfolding whole by simp
    moreover have "length (?pre @ table_key @ gap @ [CHR 0x22]) = ?a" by simp
    ultimately show ?thesis by (metis append_eq_conv_conj)
  qed
  ultimately show ?thesis
    using assms(6) by (simp add: route_event_def Let_def utf8_valid_def)
qed

text \<open>
  Routing finds the table of an event without parsing it: for every event text whose first
  occurrence of the quoted key \<open>table\<close> is followed by a colon, white space allowed, and a quoted
  name without escapes, the event is routed by this name and its text is passed on unchanged.
\<close>

theorem route_event_finds_table:
  assumes "list_all ascii_whitespace indent" and "\<not> str_contains (indent @ CHR ''{'' # pre @ butlast table_key) table_key"
    and "list_all separator gap" and "CHR 0x22 \<notin> set name" and "CHR 0x5C \<notin> set name" and "utf8_valid name"
    and "event_data = indent @ CHR ''{'' # pre @ table_key @ gap @ CHR 0x22 # name @ CHR 0x22 # rest"
  shows "route_event event_data = Inr \<lparr>vw_table = name, vw_raw_data = event_data\<rparr>"
  using assms by (rule route_first_key)

definition demo_text :: string where
  "demo_text = ''{'' @ table_key @ '': '' @ [CHR 0x22] @ ''users'' @ [CHR 0x22] @ ''}''"

theorem route_event_finds_table_witness:
  "route_event demo_text = Inr \<lparr>vw_table = ''users'', vw_raw_data = demo_text\<rparr>"
  by (rule route_event_finds_table [where indent = "[]" and pre = "[]" and gap = "'': ''" and rest = "''}''"])
    (simp_all add: demo_text_def separator_def ascii_whitespace_def utf8_valid_ascii)

text \<open>A key of a nested object, or a value, that comes first takes the event to the wrong table.\<close>

lemma nested_table_key_misroutes:
  "route_event (''{'' @ [CHR 0x22] @ ''data'' @ [CHR 0x22] @ '':{'' @ table_key @ '':'' @ [CHR 0x22] @ ''x'' @ [CHR 0x22] @ ''},''
     @ table_key @ '':'' @ [CHR 0x22] @ ''users'' @ [CHR 0x22] @ ''}'') =
   Inr \<lparr>vw_table = ''x'', vw_raw_data = ''{'' @ [CHR 0x22] @ ''data'' @ [CHR 0x22] @ '':{'' @ table_key @ '':'' @ [CHR 0x22] @ ''x'' @ [CHR 0x22] @ ''},''
     @ table_key @ '':'' @ [CHR 0x22] @ ''users'' @ [CHR 0x22] @ ''}''\<rparr>"
  by (rule route_first_key [where indent = "[]" and gap = "'':''"
        and pre = "[CHR 0x22] @ ''data'' @ [CHR 0x22] @ '':{''"
        and rest = "''},'' @ table_key @ '':'' @ [CHR 0x22] @ ''users'' @ [CHR 0x22] @ ''}''"])
    (simp_all add: separator_def ascii_whitespace_def utf8_valid_ascii)

text \<open>A document longer than the limit ends the stream as if the input were over.\<close>

lemma oversized_document_ends_stream:
  assumes "\<not> di_done it" and "parse (take (jp_max_document_size (di_processor it)) (di_reader it)) = (Inl e, n)"
    and "str_contains e ''EOF''"
  shows "fst (next_document parse it) = None \<and> di_done (snd (next_document parse it))"
proof -
  from assms(3) obtain a b where "e = a @ ''EOF'' @ b" by (auto simp: str_contains_iff)
  then have "str_contains (error_to_string (Validation (''Failed to parse JSON: '' @ e))) ''EOF''"
    unfolding str_contains_iff by (intro exI [of _ "''Validation error: Failed to parse JSON: '' @ a"] exI [of _ b]) simp
  with assms(1,2) show ?thesis by (simp add: next_document_def parse_document_def)
qed

end
