(* ===== verification/Orchestrator.thy ===== *)
theory Orchestrator
  imports CheckpointManager Cdc Parallel Pressure Adaptive ConfigCheck Lsn
begin

text \<open>
  Setting up the pipeline, \<open>src/pipeline/orchestrator.rs\<close>: \<open>new\<close>, \<open>start\<close>,
  \<open>start_sync_task_with_receiver\<close>, the handlers of pressure events and the operations on the dead
  letter queue. Which key of a hash map comes first, connections, checkpoints and the destination
  are fields of an environment over a world \<open>'w\<close>.
\<close>

section \<open>Construction\<close>

definition create_source_adapter :: "source_config \<Rightarrow> postgresql_config result" where
  "create_source_adapter source =
     (case source of
        PostgreSQLSource pg \<Rightarrow> Inr pg
      | MySQLSource s \<Rightarrow> Inl (Configuration ''MySQL source not yet implemented'')
      | MongoDBSource s \<Rightarrow> Inl (Configuration ''MongoDB source not yet implemented''))"

fun add_adapters ::
  "(string \<times> source_config) list \<Rightarrow> (string, postgresql_config) hmap \<Rightarrow> (string, postgresql_config) hmap result" where
  "add_adapters [] adapters = Inr adapters"
| "add_adapters ((name, source) # rest) adapters =
     (case create_source_adapter source of
        Inl e \<Rightarrow> Inl e
      | Inr adapter \<Rightarrow> add_adapters rest (hm_insert name adapter adapters))"

definition named_configs :: "config \<Rightarrow> (string \<times> source_config) list" where
  "named_configs c =
     (case cf_source c of None \<Rightarrow> [] | Some s \<Rightarrow> [(''primary'', s)]) @
     map (\<lambda>n. (ns_name n, ns_config n)) (cf_sources c)"

text \<open>The handlers of each table that has them; a later task on the same table replaces them.\<close>

definition handlers_by_table ::
  "(sync_task_config \<Rightarrow> 'h option) \<Rightarrow> sync_task_config list \<Rightarrow> (string, 'h) hmap" where
  "handlers_by_table h tasks =
     fold (\<lambda>t m. case h t of None \<Rightarrow> m | Some x \<Rightarrow> hm_insert (st_table t) x m) tasks []"

record orchestrator =
  or_config :: config
  or_source_adapters :: "(string, postgresql_config) hmap"
  or_filters :: "(string, filter_config) hmap"
  or_transformers :: "(string, transform_config) hmap"
  or_mappers :: "(string, mapping_config) hmap"
  or_soft_delete_handlers :: "(string, soft_delete_config) hmap"

definition orchestrator_new :: "config \<Rightarrow> orchestrator result" where
  "orchestrator_new c =
     (case add_adapters (named_configs c) [] of
        Inl e \<Rightarrow> Inl e
      | Inr adapters \<Rightarrow>
          if adapters = [] then
            Inl (Configuration (''No data sources configured. Use either '' @ quoted ''source'' @ '' or '' @ quoted ''sources'' @
              '' configuration''))
          else Inr
            \<lparr>or_config = c, or_source_adapters = adapters,
             or_filters = handlers_by_table st_filter (cf_sync_tasks c),
             or_transformers = handlers_by_table st_transform (cf_sync_tasks c),
             or_mappers = handlers_by_table st_mapping (cf_sync_tasks c),
             or_soft_delete_handlers = handlers_by_table st_soft_delete (cf_sync_tasks c)\<rparr>)"

definition task_stages :: "orchestrator \<Rightarrow> sync_task_config \<Rightarrow> stages" where
  "task_stages o1 t =
     \<lparr>sg_filter = hm_get (or_filters o1) (st_table t), sg_transformer = hm_get (or_transformers o1) (st_table t),
      sg_mapper = hm_get (or_mappers o1) (st_table t),
      sg_soft_delete = hm_get (or_soft_delete_handlers o1) (st_table t)\<rparr>"

section \<open>Where each source starts\<close>

definition add_to_source ::
  "sync_task_config \<Rightarrow> (string, sync_task_config list) hmap \<Rightarrow> (string, sync_task_config list) hmap" where
  "add_to_source t m = hm_insert (st_source_name t)
     ((case hm_get m (st_source_name t) of Some ts \<Rightarrow> ts | None \<Rightarrow> []) @ [t]) m"

definition group_by_source :: "sync_task_config list \<Rightarrow> (string, sync_task_config list) hmap" where
  "group_by_source tasks = fold add_to_source tasks []"

definition earlier_of :: "position option \<Rightarrow> position \<Rightarrow> position option" where
  "earlier_of earliest p =
     (case earliest of
        None \<Rightarrow> Some p
      | Some current \<Rightarrow> if \<not> position_is_after p current then Some p else earliest)"

text \<open>A checkpoint that cannot be loaded is logged and skipped.\<close>

fun load_positions ::
  "(string \<Rightarrow> 'w \<Rightarrow> checkpoint option result \<times> 'w) \<Rightarrow> sync_task_config list \<Rightarrow> position option \<Rightarrow>
     (string, position) hmap \<Rightarrow> 'w \<Rightarrow> position option \<times> (string, position) hmap \<times> 'w" where
  "load_positions load_ck [] earliest checkpoints w = (earliest, checkpoints, w)"
| "load_positions load_ck (t # ts) earliest checkpoints w =
     (case load_ck (st_id t) w of
        (Inr (Some c), w1) \<Rightarrow>
          load_positions load_ck ts (earlier_of earliest (ck_position c))
            (hm_insert (st_id t) (ck_position c) checkpoints) w1
      | (_, w1) \<Rightarrow> load_positions load_ck ts earliest checkpoints w1)"

section \<open>Starting\<close>

record 'w start_env =
  sv_redis :: "'w \<Rightarrow> unit result \<times> 'w"
  sv_connect :: "string \<Rightarrow> 'w \<Rightarrow> unit result \<times> 'w"
  sv_iterate :: "(string \<times> sync_task_config list) list \<Rightarrow> (string \<times> sync_task_config list) list"
  sv_connect_clone :: "string \<Rightarrow> 'w \<Rightarrow> unit result \<times> 'w"
  sv_load :: "string \<Rightarrow> 'w \<Rightarrow> checkpoint option result \<times> 'w"
  sv_set_start :: "string \<Rightarrow> position \<Rightarrow> 'w \<Rightarrow> unit result \<times> 'w"
  sv_rows :: "sync_task_config \<Rightarrow> 'w \<Rightarrow> json result list result \<times> 'w"
  sv_send :: "destination_command \<Rightarrow> 'w \<Rightarrow> answer \<times> 'w"
  sv_texts :: texts

text \<open>How a task processes its events.\<close>

datatype runner =
    ParallelRunner table_processor
  | StreamRunner stream_params

record pipeline =
  pl_checkpoints :: "(string, position) hmap"
  pl_starts :: "(string, position) hmap"
  pl_coordinators :: "(string, cdc) hmap"
  pl_runners :: "(sync_task_config \<times> runner) list"
  pl_backpressure :: backpressure
  pl_delivery :: "alo_config option"
  pl_memory_monitor :: "memory_monitor option"
  pl_adaptive :: "adaptive_manager option"
  pl_work_stealing :: "registry option"

definition pipeline_new :: pipeline where
  "pipeline_new =
     \<lparr>pl_checkpoints = [], pl_starts = [], pl_coordinators = [], pl_runners = [],
      pl_backpressure = backpressure_new backpressure_config_default, pl_delivery = None,
      pl_memory_monitor = None, pl_adaptive = None, pl_work_stealing = None\<rparr>"

fun each_result :: "('a \<Rightarrow> 'w \<Rightarrow> unit result \<times> 'w) \<Rightarrow> 'a list \<Rightarrow> 'w \<Rightarrow> unit result \<times> 'w" where
  "each_result f [] w = (Inr (), w)"
| "each_result f (x # xs) w = (case f x w of (Inl e, w1) \<Rightarrow> (Inl e, w1) | (Inr _, w1) \<Rightarrow> each_result f xs w1)"

definition new_channel :: channel where
  "new_channel = \<lparr>ch_queue = [], ch_capacity = 1000, ch_open = True\<rparr>"

text \<open>One source: its checkpoints, its start position, and its coordinator with the tasks.\<close>

definition start_source ::
  "'w start_env \<Rightarrow> orchestrator \<Rightarrow> string \<Rightarrow> sync_task_config list \<Rightarrow> pipeline \<Rightarrow> 'w \<Rightarrow> unit result \<times> pipeline \<times> 'w" where
  "start_source env o1 source tasks p w =
     (if \<not> hm_contains_key (or_source_adapters o1) source then
        (Inl (Pipeline (''Source adapter '' @ quoted source @ '' not found for sync tasks'')), p, w)
      else (case sv_connect_clone env source w of
          (Inl e, w1) \<Rightarrow> (Inl e, p, w1)
        | (Inr _, w1) \<Rightarrow>
            (case load_positions (sv_load env) tasks None (pl_checkpoints p) w1 of
               (earliest, checkpoints, w2) \<Rightarrow>
                 (let p1 = p\<lparr>pl_checkpoints := checkpoints\<rparr>;
                      started = p1\<lparr>pl_coordinators := hm_insert source
                        (fold (\<lambda>t. register_task (st_table t) new_channel) tasks cdc_new) (pl_coordinators p1)\<rparr>
                  in case earliest of
                       None \<Rightarrow> (Inr (), started, w2)
                     | Some position \<Rightarrow>
                         (case sv_set_start env source position w2 of
                            (Inl e, w3) \<Rightarrow> (Inl e, p1, w3)
                          | (Inr _, w3) \<Rightarrow>
                              (Inr (), started\<lparr>pl_starts := hm_insert source position (pl_starts started)\<rparr>, w3))))))"

fun start_sources ::
  "'w start_env \<Rightarrow> orchestrator \<Rightarrow> (string \<times> sync_task_config list) list \<Rightarrow> pipeline \<Rightarrow> 'w \<Rightarrow>
     unit result \<times> pipeline \<times> 'w" where
  "start_sources env o1 [] p w = (Inr (), p, w)"
| "start_sources env o1 ((source, tasks) # rest) p w =
     (case start_source env o1 source tasks p w of
        (Inl e, p1, w1) \<Rightarrow> (Inl e, p1, w1)
      | (Inr _, p1, w1) \<Rightarrow> start_sources env o1 rest p1 w1)"

definition parallel_config_of :: "config \<Rightarrow> parallel_config" where
  "parallel_config_of c =
     (let pp = pf_parallel_processing (cf_performance c)
      in \<lparr>pc_workers_per_table = pp_workers_per_table pp, pc_max_concurrent_events = pp_max_concurrent_events pp,
          pc_work_stealing = pp_work_stealing pp, pc_steal_interval_ms = pp_work_steal_interval_ms pp\<rparr>)"

definition runner_of :: "texts \<Rightarrow> orchestrator \<Rightarrow> sync_task_config \<Rightarrow> runner" where
  "runner_of tx o1 task =
     (if pp_enabled (pf_parallel_processing (cf_performance (or_config o1))) then
        ParallelRunner (start_workers
          (processor_new (st_table task) (parallel_config_of (or_config o1)) tx (task_stages o1 task)))
      else StreamRunner
        \<lparr>pm_texts = tx, pm_stages = task_stages o1 task, pm_batch_size = so_batch_size (st_options task),
         pm_task_id = st_id task,
         pm_at_least_once = dv_enabled (cf_at_least_once_delivery (or_config o1))\<rparr>)"

definition index_key :: "config \<Rightarrow> sync_task_config \<Rightarrow> string option" where
  "index_key c task = (if st_primary_key task = [] then ms_primary_key (cf_meilisearch c) else Some (st_primary_key task))"

text \<open>A parallel processor is registered for work stealing, when it is on.\<close>

definition run_task :: "texts \<Rightarrow> orchestrator \<Rightarrow> sync_task_config \<Rightarrow> pipeline \<Rightarrow> pipeline" where
  "run_task tx o1 task p =
     (let r = runner_of tx o1 task; p1 = p\<lparr>pl_runners := pl_runners p @ [(task, r)]\<rparr>
      in case r of
           ParallelRunner q \<Rightarrow> p1\<lparr>pl_work_stealing := map_option (register_processor q) (pl_work_stealing p)\<rparr>
         | StreamRunner _ \<Rightarrow> p1)"

text \<open>A full synchronisation first, or the index of the table; \<open>None\<close> is a panic.\<close>

definition start_sync_task ::
  "'w start_env \<Rightarrow> orchestrator \<Rightarrow> sync_task_config \<Rightarrow> pipeline \<Rightarrow> 'w \<Rightarrow> (unit result \<times> pipeline \<times> 'w) option" where
  "start_sync_task env o1 task p w =
     (let run = run_task (sv_texts env) o1 task p
      in if st_full_sync_on_start task = Some True then
           (case (if hm_contains_key (or_source_adapters o1) (st_source_name task)
                  then (case sv_rows env task w of (rows, w1) \<Rightarrow> (Some rows, w1)) else (None, w)) of
              (source, w1) \<Rightarrow>
                map_option (\<lambda>(r, w2). case r of Inl e \<Rightarrow> (Inl e, p, w2) | Inr _ \<Rightarrow> (Inr (), run, w2))
                  (perform_full_sync (Some (sv_send env)) (sv_texts env) (task_stages o1 task) task source w1))
         else if ms_auto_create_index (cf_meilisearch (or_config o1)) then
           (case sv_send env (EnsureIndex (st_index task) (index_key (or_config o1) task)) w of
              (_, w1) \<Rightarrow> Some (Inr (), run, w1))
         else Some (Inr (), run, w))"

fun start_tasks ::
  "'w start_env \<Rightarrow> orchestrator \<Rightarrow> sync_task_config list \<Rightarrow> pipeline \<Rightarrow> 'w \<Rightarrow> (unit result \<times> pipeline \<times> 'w) option" where
  "start_tasks env o1 [] p w = Some (Inr (), p, w)"
| "start_tasks env o1 (t # ts) p w =
     (case start_sync_task env o1 t p w of
        None \<Rightarrow> None
      | Some (Inl e, p1, w1) \<Rightarrow> Some (Inl e, p1, w1)
      | Some (Inr _, p1, w1) \<Rightarrow> start_tasks env o1 ts p1 w1)"

definition pipeline_backpressure :: "sync_task_config list \<Rightarrow> backpressure" where
  "pipeline_backpressure tasks =
     fold (\<lambda>t. register_table (st_table t)) tasks
       (backpressure_new \<lparr>bk_high_watermark = Fin 80, bk_low_watermark = Fin 60, bk_check_interval_ms = 100,
          bk_channel_capacity = 1000\<rparr>)"

text \<open>What is created before the sources are connected, between that and the first coordinator, and after the last.\<close>

definition delivery_of :: "config \<Rightarrow> alo_config option" where
  "delivery_of c =
     (let dv = cf_at_least_once_delivery c
      in if dv_enabled dv then Some
           \<lparr>al_enabled = dv_enabled dv, al_deduplication_window = dv_deduplication_window dv,
            al_transaction_timeout_secs = dv_transaction_timeout_secs dv,
            al_two_phase_commit = dv_two_phase_commit dv,
            al_checkpoint_before_write = dv_checkpoint_before_write dv\<rparr>
         else None)"

definition memory_monitor_of :: "config \<Rightarrow> memory_monitor option" where
  "memory_monitor_of c =
     (let me = pf_memory (cf_performance c)
      in if me_monitor_memory_pressure me
         then Some (memory_monitor_new (of_nat (me_max_queue_memory_mb me)) (of_nat (me_max_checkpoint_memory_mb me)))
         else None)"

definition adaptive_of :: "config \<Rightarrow> adaptive_manager option" where
  "adaptive_of c =
     (let bp = pf_batch_processing (cf_performance c)
      in if bc_adaptive_batching bp then Some (adaptive_new (bc_adaptive_config bp)) else None)"

definition work_stealing_of :: "config \<Rightarrow> registry option" where
  "work_stealing_of c =
     (let pp = pf_parallel_processing (cf_performance c)
      in if pp_enabled pp \<and> pp_work_stealing pp then Some [] else None)"

definition orchestrator_start :: "'w start_env \<Rightarrow> orchestrator \<Rightarrow> 'w \<Rightarrow> (unit result \<times> pipeline \<times> 'w) option" where
  "orchestrator_start env o1 w =
     (let c = or_config o1;
          tasks = cf_sync_tasks c;
          groups = sv_iterate env (group_by_source tasks);
          p0 = pipeline_new\<lparr>pl_delivery := delivery_of c\<rparr>;
          p1 = p0\<lparr>pl_memory_monitor := memory_monitor_of c, pl_adaptive := adaptive_of c\<rparr>
      in case (if rc_url (cf_redis c) = [] then (Inr (), w) else sv_redis env w) of
           (Inl e, w1) \<Rightarrow> Some (Inl e, pipeline_new, w1)
         | (Inr _, w1) \<Rightarrow>
             (case each_result (sv_connect env) (hm_keys (or_source_adapters o1)) w1 of
                (Inl e, w2) \<Rightarrow> Some (Inl e, p0, w2)
              | (Inr _, w2) \<Rightarrow>
                  (case start_sources env o1 groups p1 w2 of
                     (Inl e, p, w3) \<Rightarrow> Some (Inl e, p, w3)
                   | (Inr _, p, w3) \<Rightarrow>
                       start_tasks env o1 (concat (map snd groups))
                         (p\<lparr>pl_backpressure := pipeline_backpressure tasks, pl_work_stealing := work_stealing_of c\<rparr>) w3)))"

text \<open>The coordinator that the operations of the orchestrator control.\<close>

definition cdc_coordinator :: "pipeline \<Rightarrow> cdc option" where
  "cdc_coordinator p = hm_get (pl_coordinators p) ''primary''"

section \<open>Pressure\<close>

text \<open>\<open>cleanup\<close> is the clean-up of the checkpoint manager; its failure is logged.\<close>

definition on_memory_pressure ::
  "(string list \<Rightarrow> nat \<Rightarrow> 'm \<Rightarrow> unit result \<times> 'm) \<Rightarrow> config \<Rightarrow> memory_pressure_event \<Rightarrow> 'm \<Rightarrow> 'm" where
  "on_memory_pressure cleanup c event m =
     (case event of
        HighQueueMemory percent \<Rightarrow> m
      | HighCheckpointMemory percent \<Rightarrow>
          (let cr = rc_checkpoint_retention (cf_redis c)
           in if cr_cleanup_on_memory_pressure cr \<and> f64_le (cr_memory_pressure_threshold cr) percent
              then snd (cleanup (map st_id (cf_sync_tasks c)) (cr_max_checkpoints_per_task cr) m)
              else m))"

definition on_backpressure :: "backpressure_event \<Rightarrow> cdc \<Rightarrow> cdc" where
  "on_backpressure event =
     (case event of
        PauseSource table \<Rightarrow> pause_table table
      | ResumeSource table \<Rightarrow> resume_table table
      | PauseAll \<Rightarrow> pause_all
      | ResumeAll \<Rightarrow> resume_all)"

section \<open>The dead letter queue of the orchestrator\<close>

definition with_dlq :: "'q option \<Rightarrow> ('q \<Rightarrow> 'a result \<times> 'q) \<Rightarrow> 'a result \<times> 'q option" where
  "with_dlq dlq f =
     (case dlq of
        None \<Rightarrow> (Inl (Pipeline ''Dead letter queue not initialized''), None)
      | Some q \<Rightarrow> (case f q of (r, q1) \<Rightarrow> (r, Some q1)))"

definition get_dlq_statistics :: "'s dlq_ops \<Rightarrow> 's option \<Rightarrow> dlq_statistics result \<times> 's option" where
  "get_dlq_statistics ops dlq = with_dlq dlq (dl_get_statistics ops)"

definition clear_dlq_task :: "'s dlq_ops \<Rightarrow> string \<Rightarrow> 's option \<Rightarrow> nat result \<times> 's option" where
  "clear_dlq_task ops task_id dlq = with_dlq dlq (\<lambda>s. dl_clear_task ops s task_id)"

text \<open>
  The channel of reprocessed entries has room for 100 of them and nobody receives: the state is the
  queue with the entries in the channel. \<open>None\<close> is a send that waits for ever.
\<close>

definition reprocess_dlq_entries ::
  "'s dlq_ops \<Rightarrow> time \<Rightarrow> string \<Rightarrow> nat option \<Rightarrow> ('s \<times> dlq_entry list) option \<Rightarrow>
     (nat result \<times> ('s \<times> dlq_entry list) option) option" where
  "reprocess_dlq_entries ops now task_id limit dlq =
     (case dlq of
        None \<Rightarrow> Some (Inl (Pipeline ''Dead letter queue not initialized''), None)
      | Some (s, waiting) \<Rightarrow>
          (case reprocess_entries ops now (Some (\<lambda>_. True)) task_id limit s of
             (r, sent, s1) \<Rightarrow>
               if length (waiting @ sent) > 100 then None else Some (r, Some (s1, waiting @ sent))))"

section \<open>Grouping\<close>

lemma group_step:
  assumes "hm_ok m"
  shows "mset (concat (map snd (hm_insert k ((case hm_get m k of Some ts \<Rightarrow> ts | None \<Rightarrow> []) @ [t]) m))) =
    add_mset t (mset (concat (map snd m)))"
  using assms
proof (induction m)
  case (Cons a m)
  obtain k' ts where a: "a = (k', ts)" by fastforce
  show ?case
  proof (cases "k' = k")
    case True
    with Cons.prems a show ?thesis by simp
  next
    case False
    have "hm_ok m" using Cons.prems by (simp add: hm_ok_def)
    from Cons.IH [OF this] False show ?thesis by (simp add: a)
  qed
qed simp

definition grouped :: "(string, sync_task_config list) hmap \<Rightarrow> bool" where
  "grouped m \<longleftrightarrow> hm_ok m \<and> (\<forall>g \<in> set m. snd g \<noteq> [] \<and> (\<forall>t \<in> set (snd g). st_source_name t = fst g))"

lemma grouped_add:
  assumes "grouped m"
  shows "grouped (add_to_source t m)"
proof -
  let ?k = "st_source_name t"
  define old where "old = (case hm_get m ?k of Some ts \<Rightarrow> ts | None \<Rightarrow> [])"
  have old: "st_source_name x = ?k" if "x \<in> set old" for x
  proof (cases "hm_get m ?k")
    case None
    with that show ?thesis by (simp add: old_def)
  next
    case (Some ts)
    then have "(?k, ts) \<in> set m" by (rule map_of_SomeD)
    with assms that Some show ?thesis by (auto simp: grouped_def old_def)
  qed
  have keys: "st_source_name x = fst g" if "g \<in> set (add_to_source t m)" "x \<in> set (snd g)" for g x
  proof (cases "g \<in> set m")
    case True
    with assms that(2) show ?thesis by (simp add: grouped_def)
  next
    case False
    have "add_to_source t m = hm_insert ?k (old @ [t]) m" by (simp only: add_to_source_def old_def)
    with False that(1) have g: "g = (?k, old @ [t])"
      using set_hm_insert_subset [of ?k "old @ [t]" m] by (simp only:) blast
    with that(2) have "x \<in> set old \<or> x = t" by auto
    with old g show ?thesis by (metis fst_conv)
  qed
  have "snd g \<noteq> []" if "g \<in> set (add_to_source t m)" for g
    using that assms set_hm_insert_subset [of ?k "old @ [t]" m]
    unfolding add_to_source_def old_def [symmetric] grouped_def by auto
  moreover have "hm_ok (add_to_source t m)" using assms by (simp add: grouped_def add_to_source_def)
  ultimately show ?thesis unfolding grouped_def using keys by blast
qed

lemma grouped_fold:
  "grouped m \<Longrightarrow> grouped (fold add_to_source tasks m) \<and>
     mset (concat (map snd (fold add_to_source tasks m))) = mset tasks + mset (concat (map snd m))"
proof (induction tasks arbitrary: m)
  case (Cons t tasks)
  have "hm_ok m" using Cons.prems by (simp add: grouped_def)
  from group_step [OF this, of "st_source_name t" t] Cons.IH [OF grouped_add [OF Cons.prems, of t]]
  show ?case by (simp add: add_to_source_def)
qed simp

lemma group_by_source_facts:
  "grouped (group_by_source tasks)" "mset (concat (map snd (group_by_source tasks))) = mset tasks"
  using grouped_fold [of "[]" tasks] by (simp_all add: group_by_source_def grouped_def)

section \<open>Start positions\<close>

fun lsn_position :: "position \<Rightarrow> bool" where
  "lsn_position (PostgreSQL lsn) = lsn_well_formed lsn"
| "lsn_position p = False"

lemma after_irrefl: "\<not> position_is_after p p"
  by (cases p) (simp_all add: is_after_PostgreSQL del: position_is_after.simps(1))

lemma not_after_trans:
  assumes "lsn_position p" and "lsn_position q" and "lsn_position r"
    and "\<not> position_is_after p q" and "\<not> position_is_after q r"
  shows "\<not> position_is_after p r"
  using assms
  by (cases p; cases q; cases r) (auto simp: is_after_PostgreSQL key_less_def simp del: position_is_after.simps(1))

lemma after_asym: "position_is_after p q \<Longrightarrow> \<not> position_is_after q p"
  by (cases p; cases q) (auto simp: is_after_PostgreSQL key_less_def simp del: position_is_after.simps(1))

lemma earlier_of_facts:
  assumes "lsn_position p" and "\<And>e. earliest = Some e \<Longrightarrow> lsn_position e"
  shows "\<exists>e'. earlier_of earliest p = Some e' \<and> lsn_position e' \<and> \<not> position_is_after e' p \<and>
    (\<forall>e. earliest = Some e \<longrightarrow> \<not> position_is_after e' e)"
  using assms after_irrefl after_asym by (cases earliest) (auto simp: earlier_of_def)

lemma load_positions_earliest:
  assumes "load_positions load_ck ts earliest checkpoints w = (earliest', checkpoints', w')"
    and "distinct (map st_id ts)"
    and "\<And>i w c w1. load_ck i w = (Inr (Some c), w1) \<Longrightarrow> lsn_position (ck_position c)"
    and "\<And>e. earliest = Some e \<Longrightarrow> lsn_position e"
  shows "(\<forall>i. i \<notin> st_id ` set ts \<longrightarrow> hm_get checkpoints' i = hm_get checkpoints i) \<and>
    (\<forall>e. earliest = Some e \<longrightarrow> (\<exists>e'. earliest' = Some e' \<and> lsn_position e' \<and> \<not> position_is_after e' e)) \<and>
    (\<forall>t \<in> set ts. \<forall>q. hm_get checkpoints' (st_id t) = Some q \<longrightarrow> hm_get checkpoints (st_id t) = None \<longrightarrow>
       (\<exists>e'. earliest' = Some e' \<and> lsn_position e' \<and> \<not> position_is_after e' q))"
  using assms(1,2,4)
proof (induction ts arbitrary: earliest checkpoints w)
  case Nil
  then show ?case using after_irrefl by auto
next
  case (Cons t ts)
  obtain r w1 where run: "load_ck (st_id t) w = (r, w1)" by fastforce
  show ?case
  proof (cases "\<exists>c. r = Inr (Some c)")
    case True
    then obtain c where c: "r = Inr (Some c)" by blast
    have good: "lsn_position (ck_position c)" using run c assms(3) by blast
    obtain e1 where e1: "earlier_of earliest (ck_position c) = Some e1" "lsn_position e1"
        "\<not> position_is_after e1 (ck_position c)" "\<And>e. earliest = Some e \<Longrightarrow> \<not> position_is_after e1 e"
      using earlier_of_facts [OF good Cons.prems(3)] by blast
    have rest: "load_positions load_ck ts (Some e1) (hm_insert (st_id t) (ck_position c) checkpoints) w1 =
        (earliest', checkpoints', w')"
      using Cons.prems(1) run c e1(1) by simp
    have d: "distinct (map st_id ts)" "st_id t \<notin> st_id ` set ts" using Cons.prems(2) by auto
    have "e = e1 \<Longrightarrow> lsn_position e" for e using e1(2) by simp
    from Cons.IH [OF rest d(1)] e1(2) obtain e' where IH:
      "\<And>i. i \<notin> st_id ` set ts \<Longrightarrow> hm_get checkpoints' i = hm_get (hm_insert (st_id t) (ck_position c) checkpoints) i"
      "earliest' = Some e'" "lsn_position e'" "\<not> position_is_after e' e1"
      "\<And>t' q. t' \<in> set ts \<Longrightarrow> hm_get checkpoints' (st_id t') = Some q \<Longrightarrow>
         hm_get (hm_insert (st_id t) (ck_position c) checkpoints) (st_id t') = None \<Longrightarrow> \<not> position_is_after e' q"
      by (auto; blast)
    have own: "\<not> position_is_after e' (ck_position c)"
      by (rule not_after_trans [OF IH(3) e1(2) good IH(4) e1(3)])
    have before: "\<not> position_is_after e' e" if "earliest = Some e" for e
      by (rule not_after_trans [OF IH(3) e1(2) Cons.prems(3) [OF that] IH(4) e1(4) [OF that]])
    have "\<not> position_is_after e' q"
      if "t' \<in> set (t # ts)" "hm_get checkpoints' (st_id t') = Some q" "hm_get checkpoints (st_id t') = None" for t' q
    proof (cases "st_id t' = st_id t")
      case True
      with that(2) IH(1) [of "st_id t"] d(2) have "q = ck_position c" by (simp add: hm_get_insert)
      with own show ?thesis by simp
    next
      case False
      with that IH(5) [of t' q] show ?thesis by (auto simp: hm_get_insert)
    qed
    with IH(1-3) before show ?thesis by (auto simp: hm_get_insert)
  next
    case False
    then have rest: "load_positions load_ck ts earliest checkpoints w1 = (earliest', checkpoints', w')"
      using Cons.prems(1) run by (auto split: sum.splits option.splits)
    have d: "distinct (map st_id ts)" "st_id t \<notin> st_id ` set ts" using Cons.prems(2) by auto
    from Cons.IH [OF rest d(1) Cons.prems(3)] d(2) show ?thesis by auto
  qed
qed

section \<open>What a successful start has done\<close>

text \<open>What holds of the sources started so far.\<close>

definition source_started :: "pipeline \<Rightarrow> sync_task_config \<Rightarrow> bool" where
  "source_started p t \<longleftrightarrow>
     (\<forall>q. hm_get (pl_checkpoints p) (st_id t) = Some q \<longrightarrow>
        (\<exists>e. hm_get (pl_starts p) (st_source_name t) = Some e \<and> \<not> position_is_after e q)) \<and>
     (\<exists>c. hm_get (pl_coordinators p) (st_source_name t) = Some c \<and>
        hm_get (cc_channels c) (st_table t) = Some new_channel)"

definition loads_lsns :: "'w start_env \<Rightarrow> bool" where
  "loads_lsns env \<longleftrightarrow>
     (\<forall>i w c w1. sv_load env i w = (Inr (Some c), w1) \<longrightarrow> lsn_position (ck_position c))"

lemma register_all:
  "hm_get (cc_channels (fold (\<lambda>t. register_task (st_table t) new_channel) ts c)) k =
     (if k \<in> st_table ` set ts then Some new_channel else hm_get (cc_channels c) k)"
  by (induction ts arbitrary: c) (auto simp: register_task_def hm_get_insert)

lemma start_source_done:
  assumes "start_source env o1 source ts p w = (Inr u, p', w')" and "loads_lsns env"
    and "distinct (map st_id ts)" and "\<And>t. t \<in> set ts \<Longrightarrow> st_source_name t = source \<and> hm_get (pl_checkpoints p) (st_id t) = None"
  shows "(\<forall>t \<in> set ts. source_started p' t) \<and> pl_runners p' = pl_runners p \<and>
    (\<forall>i. i \<notin> st_id ` set ts \<longrightarrow> hm_get (pl_checkpoints p') i = hm_get (pl_checkpoints p) i) \<and>
    (\<forall>s. s \<noteq> source \<longrightarrow> hm_get (pl_starts p') s = hm_get (pl_starts p) s \<and>
       hm_get (pl_coordinators p') s = hm_get (pl_coordinators p) s) \<and>
    set (hm_keys (pl_coordinators p')) = insert source (set (hm_keys (pl_coordinators p)))"
proof -
  have known: "hm_contains_key (or_source_adapters o1) source"
    using assms(1) by (auto simp: start_source_def split: if_splits)
  obtain r1 w1 where con: "sv_connect_clone env source w = (r1, w1)" by fastforce
  then have "r1 = Inr ()" using assms(1) known by (cases r1) (simp_all add: start_source_def)
  obtain earliest checkpoints w2 where loaded:
    "load_positions (sv_load env) ts None (pl_checkpoints p) w1 = (earliest, checkpoints, w2)"
    by (cases "load_positions (sv_load env) ts None (pl_checkpoints p) w1") auto
  have "(\<forall>i. i \<notin> st_id ` set ts \<longrightarrow> hm_get checkpoints i = hm_get (pl_checkpoints p) i) \<and>
    (\<forall>e. None = Some e \<longrightarrow> (\<exists>e'. earliest = Some e' \<and> lsn_position e' \<and> \<not> position_is_after e' e)) \<and>
    (\<forall>t \<in> set ts. \<forall>q. hm_get checkpoints (st_id t) = Some q \<longrightarrow> hm_get (pl_checkpoints p) (st_id t) = None \<longrightarrow>
       (\<exists>e'. earliest = Some e' \<and> lsn_position e' \<and> \<not> position_is_after e' q))"
    by (rule load_positions_earliest [OF loaded assms(3)]) (use assms(2) in \<open>auto simp: loads_lsns_def\<close>)
  note loads = this
  have pos1: "hm_get checkpoints i = hm_get (pl_checkpoints p) i" if "i \<notin> st_id ` set ts" for i
    using conjunct1 [OF loads] that by simp
  have pos2: "\<exists>e'. earliest = Some e' \<and> \<not> position_is_after e' q"
    if "t \<in> set ts" "hm_get checkpoints (st_id t) = Some q" for t q
    using conjunct2 [OF conjunct2 [OF loads]] assms(4) [OF that(1)] that by auto
  let ?c = "fold (\<lambda>t. register_task (st_table t) new_channel) ts cdc_new"
  let ?p = "p\<lparr>pl_checkpoints := checkpoints, pl_coordinators := hm_insert source ?c (pl_coordinators p)\<rparr>"
  have p': "p' = (case earliest of None \<Rightarrow> ?p | Some e \<Rightarrow> ?p\<lparr>pl_starts := hm_insert source e (pl_starts p)\<rparr>)"
    using assms(1) known con \<open>r1 = Inr ()\<close> loaded
    by (auto simp: start_source_def Let_def split: option.splits prod.splits sum.splits)
  have "source_started p' t" if "t \<in> set ts" for t
  proof -
    have "st_source_name t = source" using assms(4) that by blast
    with p' pos2 [OF that] that show ?thesis
      by (cases earliest) (auto simp: source_started_def hm_get_insert register_all)
  qed
  then show ?thesis
    using p' pos1 by (cases earliest) (auto simp: hm_get_insert hm_keys_insert simp del: set_map)
qed

lemma source_started_keeps:
  assumes "source_started p t" and "hm_get (pl_checkpoints p') (st_id t) = hm_get (pl_checkpoints p) (st_id t)"
    and "hm_get (pl_starts p') (st_source_name t) = hm_get (pl_starts p) (st_source_name t)"
    and "hm_get (pl_coordinators p') (st_source_name t) = hm_get (pl_coordinators p) (st_source_name t)"
  shows "source_started p' t"
  using assms by (simp add: source_started_def)

lemma start_sources_done:
  assumes "start_sources env o1 groups p w = (Inr u, p', w')" and "loads_lsns env" and "grouped groups"
    and "distinct (map st_id (concat (map snd groups)))"
    and "\<And>t. t \<in> set (concat (map snd groups)) \<Longrightarrow> hm_get (pl_checkpoints p) (st_id t) = None"
  shows "(\<forall>t \<in> set (concat (map snd groups)). source_started p' t) \<and> pl_runners p' = pl_runners p \<and>
    (\<forall>i. i \<notin> st_id ` set (concat (map snd groups)) \<longrightarrow> hm_get (pl_checkpoints p') i = hm_get (pl_checkpoints p) i) \<and>
    (\<forall>s. s \<notin> set (map fst groups) \<longrightarrow> hm_get (pl_starts p') s = hm_get (pl_starts p) s \<and>
       hm_get (pl_coordinators p') s = hm_get (pl_coordinators p) s) \<and>
    set (hm_keys (pl_coordinators p')) = set (map fst groups) \<union> set (hm_keys (pl_coordinators p))"
  using assms(1,3-5)
proof (induction groups arbitrary: p w)
  case (Cons g groups)
  obtain source ts where g: "g = (source, ts)" by fastforce
  obtain r1 p1 w1 where one: "start_source env o1 source ts p w = (r1, p1, w1)"
    by (cases "start_source env o1 source ts p w") auto
  with Cons.prems(1) g have "r1 = Inr ()" and rest: "start_sources env o1 groups p1 w1 = (Inr u, p', w')"
    by (cases r1; simp)+
  have gr: "grouped groups" "source \<notin> set (map fst groups)" "\<And>t. t \<in> set ts \<Longrightarrow> st_source_name t = source"
    using Cons.prems(2) by (auto simp: grouped_def hm_ok_def g)
  have other: "st_source_name t \<noteq> source" if "t \<in> set (concat (map snd groups))" for t
    proof -
    from that obtain g' where g': "g' \<in> set groups" "t \<in> set (snd g')" by auto
    with gr(1) have "st_source_name t = fst g'" by (simp add: grouped_def)
    with g'(1) gr(2) show ?thesis by force
  qed
  have ids: "distinct (map st_id ts)" "distinct (map st_id (concat (map snd groups)))"
      "\<And>t t'. t \<in> set ts \<Longrightarrow> t' \<in> set (concat (map snd groups)) \<Longrightarrow> st_id t \<noteq> st_id t'"
    using Cons.prems(3) by (auto simp: g)
  have "st_source_name t = source \<and> hm_get (pl_checkpoints p) (st_id t) = None" if "t \<in> set ts" for t
    using Cons.prems(4) gr(3) that g by simp
  note first = start_source_done [OF one [unfolded \<open>r1 = Inr ()\<close>] assms(2) ids(1) this]
  have here: "(\<forall>t \<in> set ts. source_started p1 t)" "pl_runners p1 = pl_runners p"
      "\<And>i. i \<notin> st_id ` set ts \<Longrightarrow> hm_get (pl_checkpoints p1) i = hm_get (pl_checkpoints p) i"
      "\<And>s. s \<noteq> source \<Longrightarrow> hm_get (pl_starts p1) s = hm_get (pl_starts p) s"
      "\<And>s. s \<noteq> source \<Longrightarrow> hm_get (pl_coordinators p1) s = hm_get (pl_coordinators p) s"
      "set (hm_keys (pl_coordinators p1)) = insert source (set (hm_keys (pl_coordinators p)))"
    using first by blast+
  have "hm_get (pl_checkpoints p1) (st_id t) = None" if "t \<in> set (concat (map snd groups))" for t
  proof -
    have "st_id t \<notin> st_id ` set ts" using ids(3) that by fastforce
    with here(3) Cons.prems(4) that g show ?thesis by simp
  qed
  note IH = Cons.IH [OF rest gr(1) ids(2) this]
  have "source_started p' t" if "t \<in> set ts" for t
  proof (rule source_started_keeps)
    show "source_started p1 t" using here(1) that by blast
    have "st_id t \<notin> st_id ` set (concat (map snd groups))" using ids(3) that by blast
    with IH show "hm_get (pl_checkpoints p') (st_id t) = hm_get (pl_checkpoints p1) (st_id t)" by blast
    show "hm_get (pl_starts p') (st_source_name t) = hm_get (pl_starts p1) (st_source_name t)"
      "hm_get (pl_coordinators p') (st_source_name t) = hm_get (pl_coordinators p1) (st_source_name t)"
      using IH gr(2,3) that by simp_all
  qed
  then have "\<forall>t \<in> set (concat (map snd (g # groups))). source_started p' t"
    using conjunct1 [OF IH] by (auto simp: g)
  moreover have "pl_runners p' = pl_runners p" using IH here(2) by (simp only:)
  moreover have "hm_get (pl_checkpoints p') i = hm_get (pl_checkpoints p) i"
    if "i \<notin> st_id ` set (concat (map snd (g # groups)))" for i
  proof -
    have "i \<notin> st_id ` set ts" "i \<notin> st_id ` set (concat (map snd groups))" using that by (auto simp: g)
    with IH here(3) show ?thesis by simp
  qed
  moreover have "hm_get (pl_starts p') s = hm_get (pl_starts p) s \<and>
      hm_get (pl_coordinators p') s = hm_get (pl_coordinators p) s" if "s \<notin> set (map fst (g # groups))" for s
    using that IH here(4,5) by (simp add: g)
  moreover have "set (hm_keys (pl_coordinators p')) = set (map fst (g # groups)) \<union> set (hm_keys (pl_coordinators p))"
    using IH here(6) by (simp add: g)
  ultimately show ?case by blast
qed simp

lemma run_task_fields [simp]:
  "pl_checkpoints (run_task tx o1 t p) = pl_checkpoints p" "pl_starts (run_task tx o1 t p) = pl_starts p"
  "pl_coordinators (run_task tx o1 t p) = pl_coordinators p"
  "pl_runners (run_task tx o1 t p) = pl_runners p @ [(t, runner_of tx o1 t)]"
  by (simp_all add: run_task_def Let_def split: runner.split)

lemma start_tasks_done:
  "start_tasks env o1 ts p w = Some (Inr u, p', w') \<Longrightarrow>
     pl_runners p' = pl_runners p @ map (\<lambda>t. (t, runner_of (sv_texts env) o1 t)) ts \<and>
     pl_checkpoints p' = pl_checkpoints p \<and> pl_starts p' = pl_starts p \<and> pl_coordinators p' = pl_coordinators p"
proof (induction ts arbitrary: p w)
  case (Cons t ts)
  obtain r p1 w1 where one: "start_sync_task env o1 t p w = Some (r, p1, w1)"
    using Cons.prems by (cases "start_sync_task env o1 t p w") auto
  with Cons.prems obtain v where v: "r = Inr v" by (cases r) auto
  with Cons.prems one have rest: "start_tasks env o1 ts p1 w1 = Some (Inr u, p', w')" by simp
  have "p1 = run_task (sv_texts env) o1 t p"
    using one v by (auto simp: start_sync_task_def Let_def split: if_splits option.splits prod.splits sum.splits)
      (metis old.sum.exhaust old.unit.exhaust)+
  with Cons.IH [OF rest] show ?case by simp
qed simp

lemma start_done:
  assumes "orchestrator_start env o1 w = Some (Inr u, p, w')" and "loads_lsns env"
    and "distinct (map st_id (cf_sync_tasks (or_config o1)))" and "\<And>m. mset (sv_iterate env m) = mset m"
  shows "mset (pl_runners p) = mset (map (\<lambda>t. (t, runner_of (sv_texts env) o1 t)) (cf_sync_tasks (or_config o1)))"
    and "\<forall>t \<in> set (cf_sync_tasks (or_config o1)). source_started p t"
    and "set (hm_keys (pl_coordinators p)) = st_source_name ` set (cf_sync_tasks (or_config o1))"
proof -
  let ?tasks = "cf_sync_tasks (or_config o1)"
  define groups where "groups = sv_iterate env (group_by_source ?tasks)"
  let ?c = "or_config o1"
  let ?empty = "pipeline_new\<lparr>pl_delivery := delivery_of ?c, pl_memory_monitor := memory_monitor_of ?c, pl_adaptive := adaptive_of ?c\<rparr>"
  have same: "mset groups = mset (group_by_source ?tasks)" unfolding groups_def by (rule assms(4))
  have gr: "grouped groups"
    using group_by_source_facts(1) [of ?tasks] mset_eq_setD [OF same] same
    unfolding grouped_def hm_ok_def by (metis mset_eq_imp_distinct_iff mset_map)
  have concat_mset: "mset (concat (map snd m)) = \<Sum>\<^sub># (image_mset (mset \<circ> snd) (mset m))"
    for m :: "(string \<times> sync_task_config list) list"
    by (induction m) simp_all
  have "mset (concat (map snd groups)) = mset (concat (map snd (group_by_source ?tasks)))"
    using same concat_mset by simp
  then have all: "mset (concat (map snd groups)) = mset ?tasks" using group_by_source_facts(2) by simp
  then have ids: "distinct (map st_id (concat (map snd groups)))"
    using assms(3) by (metis mset_eq_imp_distinct_iff mset_map)
  obtain p1 w1 w2 where started: "start_sources env o1 groups ?empty w1 = (Inr (), p1, w2)"
      and tasks: "start_tasks env o1 (concat (map snd groups))
        (p1\<lparr>pl_backpressure := pipeline_backpressure ?tasks, pl_work_stealing := work_stealing_of ?c\<rparr>) w2 = Some (Inr u, p, w')"
    using assms(1) by (auto simp: orchestrator_start_def Let_def groups_def split: prod.splits sum.splits if_splits)
  have "hm_get (pl_checkpoints ?empty) (st_id t) = None" for t by (simp add: pipeline_new_def)
  note sources = start_sources_done [OF started assms(2) gr ids this]
  note runners = start_tasks_done [OF tasks]
  have set: "set (concat (map snd groups)) = set ?tasks" using all by (rule mset_eq_setD)
  have "pl_runners p = map (\<lambda>t. (t, runner_of (sv_texts env) o1 t)) (concat (map snd groups))"
    using runners sources by (simp add: pipeline_new_def)
  then show "mset (pl_runners p) = mset (map (\<lambda>t. (t, runner_of (sv_texts env) o1 t)) ?tasks)"
    by (simp only: mset_map all)
  have "source_started p1 t" if "t \<in> set ?tasks" for t
    using conjunct1 [OF sources] that unfolding set by blast
  with runners show "\<forall>t \<in> set ?tasks. source_started p t" by (simp add: source_started_def)
  have "fst g \<in> st_source_name ` set ?tasks" if "g \<in> set groups" for g
  proof -
    have "snd g \<noteq> []" using gr that by (simp add: grouped_def)
    then obtain t where t: "t \<in> set (snd g)" by fastforce
    with gr that have "st_source_name t = fst g" by (simp add: grouped_def)
    with t show ?thesis using set that by force
  qed
  moreover have "st_source_name t \<in> set (map fst groups)" if "t \<in> set ?tasks" for t
    using that gr unfolding set [symmetric] grouped_def by force
  ultimately have "set (map fst groups) = st_source_name ` set ?tasks" by auto
  with sources runners show "set (hm_keys (pl_coordinators p)) = st_source_name ` set ?tasks" by (simp add: pipeline_new_def)
qed

definition demo_start_env :: "unit start_env" where
  "demo_start_env =
     \<lparr>sv_redis = (\<lambda>w. (Inr (), w)), sv_connect = (\<lambda>_ w. (Inr (), w)), sv_iterate = rev,
      sv_connect_clone = (\<lambda>_ w. (Inr (), w)),
      sv_load = (\<lambda>i w. (Inr (Some (checkpoint_new ''c'' 0 i (PostgreSQL ''0/10''))), w)),
      sv_set_start = (\<lambda>_ _ w. (Inr (), w)), sv_rows = (\<lambda>_ w. (Inr [], w)),
      sv_send = (\<lambda>_ w. (NoResponse, w)), sv_texts = plain_texts\<rparr>"

definition demo_orchestrator :: "string \<Rightarrow> orchestrator" where
  "demo_orchestrator source =
     \<lparr>or_config = (readme_config ''t'' ''p'' None None None)\<lparr>cf_performance := performance_config_default,
        cf_sync_tasks := [(demo_task ''users'' ''people'')\<lparr>st_source_name := source\<rparr>]\<rparr>,
      or_source_adapters = [(source, readme_source ''p'' None)], or_filters = [], or_transformers = [],
      or_mappers = [], or_soft_delete_handlers = []\<rparr>"

lemma demo_env_facts:
  "loads_lsns demo_start_env" "\<And>m. mset (sv_iterate demo_start_env m) = mset m"
  "distinct (map st_id (cf_sync_tasks (or_config (demo_orchestrator source))))"
  by (auto simp: loads_lsns_def demo_start_env_def checkpoint_new_def lsn_well_formed_def demo_orchestrator_def)

lemma demo_orchestrator_tasks:
  "cf_sync_tasks (or_config (demo_orchestrator source)) = [(demo_task ''users'' ''people'')\<lparr>st_source_name := source\<rparr>]"
  "cf_performance (or_config (demo_orchestrator source)) = performance_config_default"
  by (simp_all add: demo_orchestrator_def)

lemma demo_start:
  "\<exists>p. orchestrator_start demo_start_env (demo_orchestrator source) () = Some (Inr (), p, ()) \<and>
     hm_get (pl_checkpoints p) ''users'' = Some (PostgreSQL ''0/10'')"
  by (simp add: orchestrator_start_def pipeline_new_def start_source_def group_by_source_def add_to_source_def start_sync_task_def Let_def
      demo_start_env_def demo_orchestrator_def demo_task_def hm_contains_key_def checkpoint_new_def earlier_of_def)

text \<open>
  A restart resumes no later than any checkpoint: when the pipeline has started, every task
  whose checkpoint was loaded has a source with a start position, and the checkpoint of the task
  does not lie before it, so that no change after the checkpoint is left out.
\<close>

theorem start_resumes_before_checkpoints:
  assumes "orchestrator_start env o1 w = Some (Inr (), p, w')" and "loads_lsns env"
    and "distinct (map st_id (cf_sync_tasks (or_config o1)))" and "\<And>m. mset (sv_iterate env m) = mset m"
    and "t \<in> set (cf_sync_tasks (or_config o1))" and "hm_get (pl_checkpoints p) (st_id t) = Some q"
  shows "\<exists>start. hm_get (pl_starts p) (st_source_name t) = Some start \<and> \<not> position_is_after start q"
  using start_done(2) [OF assms(1-4)] assms(5,6) by (auto simp: source_started_def)

theorem start_resumes_before_checkpoints_witness:
  "\<exists>p start. orchestrator_start demo_start_env (demo_orchestrator ''primary'') () = Some (Inr (), p, ()) \<and>
    hm_get (pl_starts p) ''primary'' = Some start \<and> \<not> position_is_after start (PostgreSQL ''0/10'')"
proof -
  obtain p where p: "orchestrator_start demo_start_env (demo_orchestrator ''primary'') () = Some (Inr (), p, ())"
      "hm_get (pl_checkpoints p) ''users'' = Some (PostgreSQL ''0/10'')"
    using demo_start by blast
  let ?t = "(demo_task ''users'' ''people'')\<lparr>st_source_name := ''primary''\<rparr>"
  have t: "st_id ?t = ''users''" "st_source_name ?t = ''primary''"
    "?t \<in> set (cf_sync_tasks (or_config (demo_orchestrator ''primary'')))"
    by (simp_all add: demo_task_def demo_orchestrator_tasks)
  from start_resumes_before_checkpoints [OF p(1) demo_env_facts(1) demo_env_facts(3) demo_env_facts(2) t(3), of "PostgreSQL ''0/10''"]
    p t(1,2) show ?thesis by auto
qed

text \<open>
  Starting starts every task once: when the pipeline has started, exactly the configured tasks
  run, each with the handlers of its table, and each has an empty channel of a thousand events
  registered under its table at the coordinator of its source.
\<close>

theorem start_runs_every_task:
  assumes "orchestrator_start env o1 w = Some (Inr (), p, w')" and "loads_lsns env"
    and "distinct (map st_id (cf_sync_tasks (or_config o1)))" and "\<And>m. mset (sv_iterate env m) = mset m"
  shows "mset (pl_runners p) = mset (map (\<lambda>t. (t, runner_of (sv_texts env) o1 t)) (cf_sync_tasks (or_config o1))) \<and>
    (\<forall>t \<in> set (cf_sync_tasks (or_config o1)). \<exists>c. hm_get (pl_coordinators p) (st_source_name t) = Some c \<and>
       hm_get (cc_channels c) (st_table t) = Some new_channel)"
  using start_done(1,2) [OF assms] by (auto simp: source_started_def)

theorem start_runs_every_task_witness:
  "\<exists>p. orchestrator_start demo_start_env (demo_orchestrator ''primary'') () = Some (Inr (), p, ()) \<and> size (mset (pl_runners p)) = 1"
proof -
  obtain p where p: "orchestrator_start demo_start_env (demo_orchestrator ''primary'') () = Some (Inr (), p, ())"
    using demo_start by blast
  from start_runs_every_task [OF p demo_env_facts(1) demo_env_facts(3) demo_env_facts(2)] p show ?thesis
    by (auto simp: demo_orchestrator_tasks)
qed

text \<open>
  With the default performance settings no task delivers at least once: parallel processing is
  enabled by default, and it has neither transactions nor a dead letter queue, although at-least-once
  delivery is enabled by default as well.
\<close>

theorem default_setup_processes_in_parallel:
  assumes "orchestrator_start env o1 w = Some (Inr (), p, w')" and "loads_lsns env"
    and "distinct (map st_id (cf_sync_tasks (or_config o1)))" and "\<And>m. mset (sv_iterate env m) = mset m"
    and "cf_performance (or_config o1) = performance_config_default" and "(t, r) \<in> set (pl_runners p)"
  shows "\<exists>processor. r = ParallelRunner processor \<and> tq_table_name processor = st_table t"
proof -
  have "(t, r) \<in> set (map (\<lambda>t. (t, runner_of (sv_texts env) o1 t)) (cf_sync_tasks (or_config o1)))"
    using start_done(1) [OF assms(1-4)] assms(6) by (metis mset_eq_setD)
  then have "r = runner_of (sv_texts env) o1 t" by auto
  with assms(5) show ?thesis
    by (simp add: runner_of_def performance_config_default_def parallel_processing_default_def
        processor_new_def start_workers_def)
qed

theorem default_setup_processes_in_parallel_witness:
  "\<exists>p t processor. orchestrator_start demo_start_env (demo_orchestrator ''primary'') () = Some (Inr (), p, ()) \<and>
    (t, ParallelRunner processor) \<in> set (pl_runners p)"
proof -
  obtain p where p: "orchestrator_start demo_start_env (demo_orchestrator ''primary'') () = Some (Inr (), p, ())"
    using demo_start by blast
  have "mset (pl_runners p) \<noteq> {#}"
    using start_done(1) [OF p demo_env_facts(1) demo_env_facts(3) demo_env_facts(2)]
    by (simp add: demo_orchestrator_tasks)
  then obtain t r where tr: "(t, r) \<in> set (pl_runners p)" by (cases "pl_runners p") auto
  from default_setup_processes_in_parallel [OF p demo_env_facts(1) demo_env_facts(3) demo_env_facts(2)
      demo_orchestrator_tasks(2) tr] p tr show ?thesis by blast
qed

text \<open>
  Only a source named primary can be controlled: when no task reads from it, pausing, resuming
  and asking for the paused tables end in an error, however many coordinators run.
\<close>

theorem other_sources_cannot_be_controlled:
  assumes "orchestrator_start env o1 w = Some (Inr (), p, w')" and "loads_lsns env"
    and "distinct (map st_id (cf_sync_tasks (or_config o1)))" and "\<And>m. mset (sv_iterate env m) = mset m"
    and "\<forall>t \<in> set (cf_sync_tasks (or_config o1)). st_source_name t \<noteq> ''primary''"
  shows "set (hm_keys (pl_coordinators p)) = st_source_name ` set (cf_sync_tasks (or_config o1)) \<and>
    (let shared = map_option (\<lambda>c. \<lparr>sh_phase = Reading, sh_cdc = c\<rparr>) (cdc_coordinator p);
         e = Pipeline ''CDC coordinator not initialized''
     in pause_cdc shared = Some (Inl e, None) \<and> resume_cdc shared = Some (Inl e, None) \<and>
        pause_cdc_table table shared = Some (Inl e, None) \<and> get_paused_tables shared = Some (Inl e, None))"
proof -
  note keys = start_done(3) [OF assms(1-4)]
  with assms(5) have "''primary'' \<notin> set (hm_keys (pl_coordinators p))" by force
  then have "cdc_coordinator p = None" by (simp add: cdc_coordinator_def map_of_eq_None_iff)
  with keys show ?thesis
    by (simp add: pause_cdc_def resume_cdc_def pause_cdc_table_def get_paused_tables_def control_def)
qed

theorem other_sources_cannot_be_controlled_witness:
  "\<exists>p. orchestrator_start demo_start_env (demo_orchestrator ''main'') () = Some (Inr (), p, ()) \<and>
    set (hm_keys (pl_coordinators p)) = {''main''} \<and>
    pause_cdc (map_option (\<lambda>c. \<lparr>sh_phase = Reading, sh_cdc = c\<rparr>) (cdc_coordinator p)) =
      Some (Inl (Pipeline ''CDC coordinator not initialized''), None)"
proof -
  obtain p where p: "orchestrator_start demo_start_env (demo_orchestrator ''main'') () = Some (Inr (), p, ())"
    using demo_start by blast
  have "\<forall>t \<in> set (cf_sync_tasks (or_config (demo_orchestrator ''main''))). st_source_name t \<noteq> ''primary''"
    by (simp add: demo_orchestrator_tasks)
  from other_sources_cannot_be_controlled [OF p demo_env_facts(1) demo_env_facts(3) demo_env_facts(2) this] p
  show ?thesis by (auto simp: demo_orchestrator_tasks Let_def)
qed

section \<open>Construction\<close>

lemma add_adapters_ok:
  "(\<exists>adapters. add_adapters cs m = Inr adapters) \<longleftrightarrow> (\<forall>(name, s) \<in> set cs. \<exists>pg. s = PostgreSQLSource pg)"
  by (induction cs m rule: add_adapters.induct)
    (auto simp: create_source_adapter_def split: sum.splits source_config.splits)

lemma add_adapters_keys:
  "add_adapters cs m = Inr adapters \<Longrightarrow> set (hm_keys adapters) = fst ` set cs \<union> set (hm_keys m)"
  by (induction cs m rule: add_adapters.induct)
    (auto simp: hm_keys_insert simp del: set_map split: sum.splits)

text \<open>
  The orchestrator is built exactly from PostgreSQL sources: construction succeeds if and only
  if there is at least one source and all sources are PostgreSQL, and then every configured source
  has an adapter under its name, the single source under primary.
\<close>

theorem orchestrator_new_accepts_iff:
  "((\<exists>o1. orchestrator_new c = Inr o1) \<longleftrightarrow>
     named_configs c \<noteq> [] \<and> (\<forall>(name, s) \<in> set (named_configs c). \<exists>pg. s = PostgreSQLSource pg)) \<and>
   (\<forall>o1. orchestrator_new c = Inr o1 \<longrightarrow> set (hm_keys (or_source_adapters o1)) = fst ` set (named_configs c))"
proof (cases "add_adapters (named_configs c) []")
  case (Inl e)
  then show ?thesis using add_adapters_ok [of "named_configs c" "[]"] by (auto simp: orchestrator_new_def)
next
  case (Inr adapters)
  from add_adapters_keys [OF Inr] have keys: "set (hm_keys adapters) = fst ` set (named_configs c)" by simp
  then have "adapters = [] \<longleftrightarrow> named_configs c = []" by auto
  with Inr keys add_adapters_ok [of "named_configs c" "[]"] show ?thesis
    by (auto simp: orchestrator_new_def)
qed

section \<open>Reprocessing dead letters\<close>

lemma memory_reprocess_loop:
  "fst (reprocess_loop memory_dlq_ops now (\<lambda>_. True) i es m) = Inr () \<and>
     fst (snd (reprocess_loop memory_dlq_ops now (\<lambda>_. True) i es m)) = map (retried now) es"
  by (induction es arbitrary: i m) (simp_all add: mdlq_defs split_beta)

lemma memory_reprocess:
  "\<exists>sent m'. reprocess_entries memory_dlq_ops now (Some (\<lambda>_. True)) task_id limit m = (Inr (length sent), sent, m') \<and>
     length sent \<le> (case limit of None \<Rightarrow> length m | Some n \<Rightarrow> min n (length m))"
proof -
  let ?all = "sort_key de_created_at (filter (\<lambda>e. de_task_id e = task_id) (hm_values m))"
  define es where "es = (case limit of None \<Rightarrow> ?all | Some n \<Rightarrow> take n ?all)"
  have get: "mdlq_get_by_task m task_id limit = (Inr es, m)" by (simp add: mdlq_get_by_task_def es_def Let_def)
  have "length ?all \<le> length m" using length_filter_le [of "\<lambda>e. de_task_id e = task_id" "hm_values m"] by simp
  then have "length (take n ?all) \<le> min n (length m)" for n
    unfolding length_take by arith
  with \<open>length ?all \<le> length m\<close> have len: "length es \<le> (case limit of None \<Rightarrow> length m | Some n \<Rightarrow> min n (length m))"
    unfolding es_def by (cases limit) (simp_all only: option.case)
  obtain m' where loop: "reprocess_loop memory_dlq_ops now (\<lambda>_. True) 0 es m = (Inr (), map (retried now) es, m')"
    using memory_reprocess_loop [of now 0 es m] by (metis prod.collapse)
  show ?thesis
  proof (cases "es = []")
    case True
    with get show ?thesis by (simp add: reprocess_entries_def)
  next
    case False
    with get loop len show ?thesis by (simp add: reprocess_entries_def)
  qed
qed

text \<open>
  Reprocessed dead letters are not processed: each request moves the entries out of the queue
  into a channel that nobody reads, so that they are gone with the process; and when more than a
  hundred are there, the request never returns.
\<close>

theorem reprocessed_entries_are_stranded:
  assumes "mdlq_inv m"
  shows "case reprocess_dlq_entries memory_dlq_ops now task_id limit (Some (m, waiting)) of
      None \<Rightarrow> 100 < length waiting + (case limit of None \<Rightarrow> length m | Some n \<Rightarrow> min n (length m))
    | Some (Inr n, Some (m', waiting')) \<Rightarrow>
        (\<exists>sent. length sent = n \<and> waiting' = waiting @ sent \<and> length waiting' \<le> 100 \<and>
           (\<forall>e \<in> set sent. hm_get m (de_id e) \<noteq> None \<longrightarrow> hm_get m' (de_id e) = None))
    | Some r \<Rightarrow> False"
proof -
  obtain sent m' where run:
      "reprocess_entries memory_dlq_ops now (Some (\<lambda>_. True)) task_id limit m = (Inr (length sent), sent, m')"
      "length sent \<le> (case limit of None \<Rightarrow> length m | Some n \<Rightarrow> min n (length m))"
    using memory_reprocess by blast
  from mdlq.reprocess_keeps [OF assms run(1)]
  have "hm_get m' (de_id e) = None" if "e \<in> set sent" "hm_get m (de_id e) \<noteq> None" for e
    using that by fastforce
  with run show ?thesis by (auto simp: reprocess_dlq_entries_def)
qed

theorem reprocessed_entries_are_stranded_witness:
  "\<exists>m' sent. reprocess_dlq_entries memory_dlq_ops 9 ''users'' None (Some (demo_dlq, [])) = Some (Inr 2, Some (m', sent)) \<and>
    length sent = 2 \<and> length sent \<le> 100"
proof -
  have inv: "mdlq_inv demo_dlq" by code_simp
  have "reprocess_dlq_entries memory_dlq_ops 9 ''users'' None (Some (demo_dlq, [])) =
      Some (Inr 2, Some ([], [retried 9 (demo_entry ''a'' 3), retried 9 (demo_entry ''b'' 7)]))"
    by code_simp
  with reprocessed_entries_are_stranded [OF inv, where now = 9 and waiting = "[]" and limit = None and task_id = "''users''"] show ?thesis by auto
qed

end
