(* ===== verification/Spec2Isabelle.thy ===== *)
theory Spec2Isabelle
  imports Lsn TwoPhase CircuitBreaker Retry TestDecoder WalConsumer Transform Dlq ConfigCheck Destination Delivery Parallel
    CheckpointManager Cdc Pressure StatementCache Recovery TaskManager Health Streaming
    Orchestrator
begin

text \<open>MeiliBridge\<close>

end
